(* ===== verification/Prelude.thy ===== *)
theory Prelude
  imports Main "HOL-Library.Signed_Division"
begin

text \<open>
  The vocabulary every component of the development shares.

  \<^item> The outcome of a piece of C++ code: \<open>'a res\<close> is a value (\<open>Inr\<close>) or a
    \<open>fault\<close> (\<open>Inl\<close>): an access outside a container, a signed overflow, a pop
    of an empty queue, a division by zero, an abort raised by a \<open>CHECK\<close>, the
    \<open>length_error\<close> of a container that is given a negative size, or the
    \<open>invalid_argument\<close> of a string that is not a number.
  \<^item> \<open>returns m Q\<close>: the code \<open>m\<close> finishes without a fault and its value satisfies
    \<open>Q\<close>. The collection \<open>wp\<close> holds its rules, so that \<open>simp add: wp\<close> computes
    the precondition of a whole handler.
  \<^item> Fixed-width integers: \<open>i32\<close> checks that a result fits \<open>int32\<close>
    (\<open>src/util/common.h\<close>), \<open>size_t_of_int\<close> is the implicit conversion of a signed
    value that is compared with a container's size.
  \<^item> Containers: \<open>vec_get\<close>, \<open>vec_set\<close>, \<open>map_at\<close> (the inserting
    \<open>operator[]\<close> of \<open>std::map\<close>) and the loops \<open>fold_res\<close> and \<open>map_res\<close>.
\<close>

named_theorems wp \<open>rules that compute the precondition of a returning computation\<close>

section \<open>Faults and computations that may fault\<close>

datatype fault =
    OutOfBounds
  | SignedOverflow
  | EmptyContainer
  | DivisionByZero
  | CheckFailed
  | LengthError
  | InvalidArgument

type_synonym 'a res = "fault + 'a"

definition bind_res :: "'a res \<Rightarrow> ('a \<Rightarrow> 'b res) \<Rightarrow> 'b res" where
  "bind_res m f = (case m of Inl e \<Rightarrow> Inl e | Inr x \<Rightarrow> f x)"

definition returns :: "'a res \<Rightarrow> ('a \<Rightarrow> bool) \<Rightarrow> bool" where
  "returns m Q = (case m of Inl e \<Rightarrow> False | Inr x \<Rightarrow> Q x)"

fun fold_res :: "('a \<Rightarrow> 's \<Rightarrow> 's res) \<Rightarrow> 'a list \<Rightarrow> 's \<Rightarrow> 's res" where
  "fold_res f [] s = Inr s"
| "fold_res f (x # xs) s = bind_res (f x s) (fold_res f xs)"

fun map_res :: "('a \<Rightarrow> 'b res) \<Rightarrow> 'a list \<Rightarrow> 'b list res" where
  "map_res f [] = Inr []"
| "map_res f (x # xs) = bind_res (f x) (\<lambda>y. bind_res (map_res f xs) (\<lambda>ys. Inr (y # ys)))"

section \<open>Fixed-width integers\<close>

definition kInt32Max :: int where
  "kInt32Max = 2147483647"

definition kInt32Min :: int where
  "kInt32Min = - kInt32Max - 1"

definition in_i32 :: "int \<Rightarrow> bool" where
  "in_i32 x \<longleftrightarrow> kInt32Min \<le> x \<and> x \<le> kInt32Max"

text \<open>The result of an \<open>int32\<close> operation: signed overflow is undefined in C++.\<close>

definition i32 :: "int \<Rightarrow> int res" where
  "i32 x = (if in_i32 x then Inr x else Inl SignedOverflow)"

text \<open>\<open>%\<close> on \<open>int32\<close>: it truncates towards zero, and the divisor must not be 0.\<close>

definition i32_rem :: "int \<Rightarrow> int \<Rightarrow> int res" where
  "i32_rem a b = (if b = 0 then Inl DivisionByZero else i32 (a smod b))"

text \<open>
  The usual arithmetic conversions: where an \<open>int32\<close> is compared with a
  \<open>size_t\<close> it is first converted to an unsigned 64 bit value.
\<close>

definition size_t_of_int :: "int \<Rightarrow> int" where
  "size_t_of_int x = x mod 2 ^ 64"

section \<open>Containers\<close>

definition vec_get :: "'a list \<Rightarrow> int \<Rightarrow> 'a res" where
  "vec_get xs i = (if 0 \<le> i \<and> i < int (length xs) then Inr (xs ! nat i) else Inl OutOfBounds)"

definition vec_set :: "'a list \<Rightarrow> int \<Rightarrow> 'a \<Rightarrow> 'a list res" where
  "vec_set xs i v =
     (if 0 \<le> i \<and> i < int (length xs) then Inr (xs[nat i := v]) else Inl OutOfBounds)"

definition queue_front :: "'a list \<Rightarrow> 'a res" where
  "queue_front q = (case q of [] \<Rightarrow> Inl EmptyContainer | x # _ \<Rightarrow> Inr x)"

text \<open>\<open>m[k]\<close> of \<open>std::map<int32, int32>\<close>: an absent key is inserted with value 0.\<close>

definition map_at :: "('k \<rightharpoonup> int) \<Rightarrow> 'k \<Rightarrow> int \<times> ('k \<rightharpoonup> int)" where
  "map_at m k = (case m k of Some v \<Rightarrow> (v, m) | None \<Rightarrow> (0, m(k \<mapsto> 0)))"

text \<open>\<open>m.insert({k, v})\<close>: an existing entry is kept.\<close>

definition map_insert :: "'k \<Rightarrow> 'v \<Rightarrow> ('k \<rightharpoonup> 'v) \<Rightarrow> ('k \<rightharpoonup> 'v)" where
  "map_insert k v m = (case m k of Some _ \<Rightarrow> m | None \<Rightarrow> m(k \<mapsto> v))"

text \<open>
  A \<open>std::unordered_set\<close> is the list of its elements in iteration order; a new
  element is placed last.
\<close>

definition set_insert :: "'a \<Rightarrow> 'a list \<Rightarrow> 'a list" where
  "set_insert x xs = (if x \<in> set xs then xs else xs @ [x])"

section \<open>The calculus of returning computations\<close>

lemma bind_res_simps [simp]:
  "bind_res (Inr x) f = f x"
  "bind_res (Inl e) f = Inl e"
  by (simp_all add: bind_res_def)

lemma bind_res_assoc: "bind_res (bind_res m f) g = bind_res m (\<lambda>x. bind_res (f x) g)"
  by (simp add: bind_res_def split: sum.split)

lemma returns_simps [simp, wp]:
  "returns (Inr x) Q = Q x"
  "returns (Inl e) Q = False"
  by (simp_all add: returns_def)

lemma returns_bind [wp]: "returns (bind_res m f) Q = returns m (\<lambda>x. returns (f x) Q)"
  by (simp add: bind_res_def returns_def split: sum.split)

lemma returns_if [wp]:
  "returns (if b then m else m') Q = (if b then returns m Q else returns m' Q)"
  by simp

lemma returns_iff: "returns m Q \<longleftrightarrow> (\<exists>x. m = Inr x \<and> Q x)"
  by (simp add: returns_def split: sum.split)

lemma returns_mono: "returns m Q \<Longrightarrow> (\<And>x. m = Inr x \<Longrightarrow> Q x \<Longrightarrow> R x) \<Longrightarrow> returns m R"
  by (auto simp: returns_iff)

lemma returns_conj: "returns m Q \<Longrightarrow> returns m R \<Longrightarrow> returns m (\<lambda>x. Q x \<and> R x)"
  by (auto simp: returns_iff)

lemma returns_True_iff: "returns m (\<lambda>x. True) \<longleftrightarrow> (\<exists>x. m = Inr x)"
  by (simp add: returns_iff)

text \<open>A loop returns when each pass returns and re-establishes an invariant.\<close>

lemma returns_fold_res:
  assumes "I s"
    and "\<And>x s. x \<in> set xs \<Longrightarrow> I s \<Longrightarrow> returns (f x s) I"
  shows "returns (fold_res f xs s) I"
  using assms
proof (induction xs arbitrary: s)
  case (Cons x xs)
  from Cons.prems have "returns (f x s) I" by simp
  then show ?case
    by (auto simp: wp intro!: returns_mono [OF _ Cons.IH] Cons.prems(2) elim: returns_mono)
qed simp

text \<open>A loop whose passes all return is a pure fold.\<close>

lemma fold_res_pure:
  assumes "I s"
    and "\<And>x s. x \<in> set xs \<Longrightarrow> I s \<Longrightarrow> f x s = Inr (g x s) \<and> I (g x s)"
  shows "fold_res f xs s = Inr (fold g xs s) \<and> I (fold g xs s)"
  using assms by (induction xs arbitrary: s) auto

lemma fold_res_append:
  "fold_res f (xs @ ys) s = bind_res (fold_res f xs s) (fold_res f ys)"
proof (induction xs arbitrary: s)
  case (Cons x xs)
  have "fold_res f (xs @ ys) = (\<lambda>s. bind_res (fold_res f xs s) (fold_res f ys))"
    by (rule ext) (rule Cons.IH)
  then show ?case by (simp add: bind_res_assoc)
qed simp

lemma map_res_pure: "(\<And>x. x \<in> set xs \<Longrightarrow> f x = Inr (g x)) \<Longrightarrow> map_res f xs = Inr (map g xs)"
  by (induction xs) auto

lemma map_res_Inr_iff: "map_res f xs = Inr ys \<longleftrightarrow> list_all2 (\<lambda>x y. f x = Inr y) xs ys"
proof (induction xs arbitrary: ys)
  case (Cons x xs)
  show ?case
  proof (cases "f x")
    case (Inr y)
    then show ?thesis using Cons.IH
      by (cases "map_res f xs") (auto simp: list_all2_Cons1)
  qed (auto simp: list_all2_Cons1)
qed auto

lemma map_res_fault: "x \<in> set xs \<Longrightarrow> f x = Inl e \<Longrightarrow> \<exists>e'. map_res f xs = Inl e'"
proof (induction xs)
  case (Cons y xs)
  then show ?case by (cases "f y"; cases "map_res f xs") auto
qed simp

section \<open>Integers and containers under the calculus\<close>

lemma returns_i32 [wp]: "returns (i32 x) Q \<longleftrightarrow> in_i32 x \<and> Q x"
  by (simp add: i32_def)

lemma i32_in_range [simp]: "in_i32 x \<Longrightarrow> i32 x = Inr x"
  by (simp add: i32_def)

lemma in_i32_iff: "in_i32 x \<longleftrightarrow> -2147483648 \<le> x \<and> x \<le> 2147483647"
  by (simp add: in_i32_def kInt32Min_def kInt32Max_def)

lemma in_i32_between: "in_i32 a \<Longrightarrow> in_i32 b \<Longrightarrow> a \<le> x \<Longrightarrow> x \<le> b \<Longrightarrow> in_i32 x"
  by (simp add: in_i32_def)

lemma smod_nonneg: "0 \<le> a \<Longrightarrow> 0 < b \<Longrightarrow> a smod b = a mod (b :: int)"
  by (cases "a = 0") (simp_all add: signed_modulo_int_def signed_divide_int_def sgn_if
      minus_mult_div_eq_mod mult.commute)

lemma i32_rem_nonneg:
  assumes "0 \<le> a" "0 < b" "in_i32 b"
  shows "i32_rem a b = Inr (a mod b)"
proof -
  have "0 \<le> a mod b" "a mod b < b" using assms by simp_all
  with assms have "in_i32 (a mod b)" by (simp add: in_i32_iff)
  with assms show ?thesis by (simp add: i32_rem_def smod_nonneg)
qed

lemma size_t_of_int_nonneg: "0 \<le> x \<Longrightarrow> in_i32 x \<Longrightarrow> size_t_of_int x = x"
  by (simp add: size_t_of_int_def in_i32_iff)

lemma returns_vec_get [wp]:
  "returns (vec_get xs i) Q \<longleftrightarrow> 0 \<le> i \<and> i < int (length xs) \<and> Q (xs ! nat i)"
  by (auto simp: vec_get_def)

lemma vec_get_in [simp]: "0 \<le> i \<Longrightarrow> i < int (length xs) \<Longrightarrow> vec_get xs i = Inr (xs ! nat i)"
  by (simp add: vec_get_def)

lemma vec_get_of_nat [simp]: "n < length xs \<Longrightarrow> vec_get xs (int n) = Inr (xs ! n)"
  by (simp add: vec_get_def)

lemma vec_get_out: "i < 0 \<or> int (length xs) \<le> i \<Longrightarrow> vec_get xs i = Inl OutOfBounds"
  by (auto simp: vec_get_def)

lemma returns_vec_set [wp]:
  "returns (vec_set xs i v) Q \<longleftrightarrow> 0 \<le> i \<and> i < int (length xs) \<and> Q (xs[nat i := v])"
  by (auto simp: vec_set_def)

lemma vec_set_in [simp]:
  "0 \<le> i \<Longrightarrow> i < int (length xs) \<Longrightarrow> vec_set xs i v = Inr (xs[nat i := v])"
  by (simp add: vec_set_def)

lemma vec_set_of_nat [simp]: "n < length xs \<Longrightarrow> vec_set xs (int n) v = Inr (xs[n := v])"
  by (simp add: vec_set_def)

lemma vec_set_out: "i < 0 \<or> int (length xs) \<le> i \<Longrightarrow> vec_set xs i v = Inl OutOfBounds"
  by (auto simp: vec_set_def)

lemma returns_queue_front [wp]: "returns (queue_front q) Q \<longleftrightarrow> q \<noteq> [] \<and> Q (hd q)"
  by (cases q) (simp_all add: queue_front_def)

lemma queue_front_in [simp]: "q \<noteq> [] \<Longrightarrow> queue_front q = Inr (hd q)"
  by (cases q) (simp_all add: queue_front_def)

lemma map_at_Some [simp]: "m k = Some v \<Longrightarrow> map_at m k = (v, m)"
  by (simp add: map_at_def)

lemma map_insert_lookup:
  "map_insert k v m j = (if j = k then Some (case m k of Some w \<Rightarrow> w | None \<Rightarrow> v) else m j)"
  by (auto simp: map_insert_def split: option.split)

lemma set_set_insert [simp]: "set (set_insert x xs) = insert x (set xs)"
  by (auto simp: set_insert_def)

lemma distinct_set_insert [simp]: "distinct (set_insert x xs) = distinct xs"
  by (simp add: set_insert_def)

section \<open>Counting loops\<close>

text \<open>
  The loop \<open>for (i = 0; i < n; ++i)\<close> runs over \<open>[0..n - 1]\<close>; when its body only uses
  \<open>xs[i]\<close>, it is a loop over the elements of \<open>xs\<close>.
\<close>

lemma upto_of_nat: "[0..int n - 1] = map int [0..<n]"
proof (induction n)
  case (Suc n)
  have "[0..int (Suc n) - 1] = [0..int n - 1] @ [int n]"
    using upto_rec2 [of 0 "int n"] by simp
  then show ?case by (simp add: Suc.IH)
qed simp

lemma fold_res_map: "fold_res f (map g xs) s = fold_res (\<lambda>x. f (g x)) xs s"
  by (induction xs arbitrary: s) (auto intro: arg_cong2 [where f = bind_res])

lemma map_res_map: "map_res f (map g xs) = map_res (\<lambda>x. f (g x)) xs"
  by (induction xs) simp_all

lemma fold_res_cong:
  "(\<And>x s. x \<in> set xs \<Longrightarrow> f x s = g x s) \<Longrightarrow> fold_res f xs s = fold_res g xs s"
proof (induction xs arbitrary: s)
  case (Cons x xs)
  have "fold_res f xs = fold_res g xs" using Cons by (intro ext) simp
  with Cons.prems show ?case by simp
qed simp

lemma map_res_cong: "(\<And>x. x \<in> set xs \<Longrightarrow> f x = g x) \<Longrightarrow> map_res f xs = map_res g xs"
  by (induction xs) simp_all

lemma fold_res_nth:
  assumes "\<And>j s. j < length xs \<Longrightarrow> f (int j) s = g (xs ! j) s"
  shows "fold_res f [0..int (length xs) - 1] s = fold_res g xs s"
proof -
  have "fold_res f [0..int (length xs) - 1] s = fold_res (\<lambda>j. g (xs ! j)) [0..<length xs] s"
    unfolding upto_of_nat fold_res_map by (rule fold_res_cong) (simp add: assms)
  also have "\<dots> = fold_res g (map ((!) xs) [0..<length xs]) s" by (simp add: fold_res_map)
  finally show ?thesis by (simp add: map_nth)
qed

lemma map_res_nth:
  assumes "\<And>j. j < length xs \<Longrightarrow> f (int j) = g (xs ! j)"
  shows "map_res f [0..int (length xs) - 1] = map_res g xs"
proof -
  have "map_res f [0..int (length xs) - 1] = map_res (\<lambda>j. g (xs ! j)) [0..<length xs]"
    unfolding upto_of_nat map_res_map by (rule map_res_cong) (simp add: assms)
  also have "\<dots> = map_res g (map ((!) xs) [0..<length xs])" by (simp add: map_res_map)
  finally show ?thesis by (simp add: map_nth)
qed

text \<open>A counting loop whose state after \<open>j\<close> passes is \<open>h j\<close>.\<close>

lemma fold_res_count:
  assumes "\<And>j. j < n \<Longrightarrow> f (int j) (h j) = Inr (h (Suc j))"
  shows "fold_res f [0..int n - 1] (h 0) = Inr (h n)"
  using assms
proof (induction n)
  case (Suc n)
  have "[0..int (Suc n) - 1] = [0..int n - 1] @ [int n]" unfolding upto_of_nat by simp
  moreover have "fold_res f [0..int n - 1] (h 0) = Inr (h n)" using Suc by simp
  ultimately show ?case using Suc.prems by (simp add: fold_res_append)
qed simp

text \<open>A counting loop with an invariant that may mention the counter.\<close>

lemma returns_fold_count:
  assumes "I 0 s" "\<And>j s. j < n \<Longrightarrow> I j s \<Longrightarrow> returns (f (int j) s) (I (Suc j))"
  shows "returns (fold_res f [0..int n - 1] s) (I n)"
  using assms
proof (induction n)
  case (Suc n)
  have "[0..int (Suc n) - 1] = [0..int n - 1] @ [int n]" unfolding upto_of_nat by simp
  moreover have "returns (fold_res f [0..int n - 1] s) (I n)" using Suc by simp
  then have "returns (fold_res f [0..int n - 1] s) (\<lambda>s. returns (f (int n) s) (I (Suc n)))"
    by (rule returns_mono) (use Suc.prems in simp)
  ultimately show ?case by (simp add: fold_res_append wp)
qed simp

text \<open>Reading the elements \<open>[s, e)\<close> of a vector.\<close>

lemma map_res_slice:
  assumes "0 \<le> s" "e \<le> int (length xs)"
  shows "map_res (vec_get xs) [s..e - 1] = Inr (take (nat (e - s)) (drop (nat s) xs))"
proof -
  have "map_res (vec_get xs) [s..e - 1] = Inr (map (\<lambda>i. xs ! nat i) [s..e - 1])"
    by (rule map_res_pure) (use assms in auto)
  moreover have "map (\<lambda>i. xs ! nat i) [s..e - 1] = take (nat (e - s)) (drop (nat s) xs)"
    using assms by (intro nth_equalityI) (auto simp: nth_upto nat_add_distrib)
  ultimately show ?thesis by simp
qed

lemma nth_take_Suc: "j < length xs \<Longrightarrow> take (Suc j) xs = take j xs @ [xs ! j]"
  by (rule take_Suc_conv_app_nth)

lemma update_mid:
  "j < length xs \<Longrightarrow> length ys = j \<Longrightarrow> (ys @ drop j xs)[j := v] = (ys @ [v]) @ drop (Suc j) xs"
  by (simp add: list_update_append Cons_nth_drop_Suc [symmetric])

end
