(* ===== verification/Messages.thy ===== *)
theory Messages
  imports Prelude
begin

text \<open>
  The messages of \<open>src/message/message.proto\<close>, as the generated C++ classes present
  them to the program. A sub-message field is an option, since \<open>has_...()\<close> tells whether
  it is present; reading an absent one gives its default instance, as the proto3 accessors do.
  An enum is open in proto3, so that a parsed message may carry an unlisted number. The
  parameter values of the system are C++ \<open>float\<close>s; the type of values \<open>'v\<close> and its
  arithmetic \<open>fops\<close> are left open, so every statement holds for the rounding arithmetic
  of the target machine as well as for exact arithmetic.
\<close>

datatype MessageType =
    Message_MessageType_config
  | Message_MessageType_request
  | Message_MessageType_heartbeat
  | Message_MessageType_register
  | Message_MessageType_terminate
  | Message_MessageType_unlisted int

datatype RequestType =
    RequestType_key_value
  | RequestType_key
  | RequestType_ack
  | RequestType_block
  | RequestType_unlisted int

record 'v RequestMessage =
  request_type :: RequestType
  rq_keys :: "int list"
  rq_values :: "'v list"

record ConfigMessage =
  cf_worker_num :: int
  cf_server_num :: int
  cf_key_range :: int
  cf_node_ip_port :: "string list"
  cf_partition :: "int list"
  cf_backup_size :: int
  cf_server_id :: "int list"
  cf_worker_id :: "int list"
  cf_master_id :: "int list"
  cf_bound :: int

record RegisterMessage =
  rg_ip :: string
  rg_port :: int
  rg_is_server :: bool

record HeartbeatMessage =
  hb_is_live :: bool
  hb_agent_epoch_num :: int

record 'v Message =
  send_id :: int
  recv_id :: int
  message_type :: MessageType
  config_msg :: "ConfigMessage option"
  request_msg :: "'v RequestMessage option"
  heartbeat_msg :: "HeartbeatMessage option"
  register_msg :: "RegisterMessage option"

text \<open>A freshly constructed message: every scalar 0, every sub-message absent.\<close>

definition new_Message :: "'v Message" where
  "new_Message = \<lparr> send_id = 0, recv_id = 0, message_type = Message_MessageType_config,
     config_msg = None, request_msg = None, heartbeat_msg = None, register_msg = None \<rparr>"

definition default_RequestMessage :: "'v RequestMessage" where
  "default_RequestMessage =
     \<lparr> request_type = RequestType_key_value, rq_keys = [], rq_values = [] \<rparr>"

definition default_ConfigMessage :: ConfigMessage where
  "default_ConfigMessage = \<lparr> cf_worker_num = 0, cf_server_num = 0, cf_key_range = 0,
     cf_node_ip_port = [], cf_partition = [], cf_backup_size = 0, cf_server_id = [],
     cf_worker_id = [], cf_master_id = [], cf_bound = 0 \<rparr>"

definition default_RegisterMessage :: RegisterMessage where
  "default_RegisterMessage = \<lparr> rg_ip = [], rg_port = 0, rg_is_server = False \<rparr>"

definition default_HeartbeatMessage :: HeartbeatMessage where
  "default_HeartbeatMessage = \<lparr> hb_is_live = False, hb_agent_epoch_num = 0 \<rparr>"

text \<open>The accessors \<open>request_msg()\<close>, \<open>config_msg()\<close>, ... of the generated class.\<close>

definition the_request_msg :: "'v Message \<Rightarrow> 'v RequestMessage" where
  "the_request_msg m = (case request_msg m of Some r \<Rightarrow> r | None \<Rightarrow> default_RequestMessage)"

definition the_config_msg :: "'v Message \<Rightarrow> ConfigMessage" where
  "the_config_msg m = (case config_msg m of Some c \<Rightarrow> c | None \<Rightarrow> default_ConfigMessage)"

definition the_register_msg :: "'v Message \<Rightarrow> RegisterMessage" where
  "the_register_msg m = (case register_msg m of Some r \<Rightarrow> r | None \<Rightarrow> default_RegisterMessage)"

definition the_heartbeat_msg :: "'v Message \<Rightarrow> HeartbeatMessage" where
  "the_heartbeat_msg m =
     (case heartbeat_msg m of Some h \<Rightarrow> h | None \<Rightarrow> default_HeartbeatMessage)"

text \<open>What a handler hands to \<open>sender_->Send(dst_id, ...)\<close>, in order.\<close>

type_synonym 'v outgoing = "(int \<times> 'v Message) list"

text \<open>The arithmetic on \<open>float\<close> that the servers use.\<close>

record 'v fops =
  fzero :: 'v
  fadd :: "'v \<Rightarrow> 'v \<Rightarrow> 'v"
  fdiv :: "'v \<Rightarrow> 'v \<Rightarrow> 'v"
  fof_int :: "int \<Rightarrow> 'v"

text \<open>
  A request whose two repeated fields have the same length; the number of elements of a
  repeated field is an \<open>int\<close>, so it fits \<open>int32\<close>.
\<close>

definition wf_push :: "'v RequestMessage \<Rightarrow> bool" where
  "wf_push r \<longleftrightarrow> length (rq_keys r) \<le> length (rq_values r) \<and> in_i32 (int (length (rq_keys r)))"

text \<open>The pairs that a request carries.\<close>

definition request_pairs :: "'v RequestMessage \<Rightarrow> (int \<times> 'v) list" where
  "request_pairs r = zip (rq_keys r) (rq_values r)"

lemma the_request_msg_simps [simp]:
  "request_msg m = Some r \<Longrightarrow> the_request_msg m = r"
  "request_msg m = None \<Longrightarrow> the_request_msg m = default_RequestMessage"
  by (simp_all add: the_request_msg_def)

lemma the_config_msg_Some [simp]: "config_msg m = Some c \<Longrightarrow> the_config_msg m = c"
  by (simp add: the_config_msg_def)

text \<open>A configuration for witnesses: two servers on ten keys, two agents, bound 1, one backup.\<close>

definition example_config :: ConfigMessage where
  "example_config = \<lparr> cf_worker_num = 2, cf_server_num = 2, cf_key_range = 10,
     cf_node_ip_port = [''a:1'', ''b:2'', ''c:3'', ''d:4'', ''e:5''], cf_partition = [2, 6],
     cf_backup_size = 1, cf_server_id = [1, 2], cf_worker_id = [3, 4], cf_master_id = [0],
     cf_bound = 1 \<rparr>"

definition example_config_message :: "int \<Rightarrow> 'v Message" where
  "example_config_message i = new_Message\<lparr>recv_id := i,
     message_type := Message_MessageType_config, config_msg := Some example_config\<rparr>"

end
