(* ===== verification/Key_Lists.thy ===== *)
theory Key_Lists
  imports Prelude
begin

text \<open>
  The two small containers of the server: \<open>KeyValueList\<close>
  (\<open>src/server/key_value_list.h\<close>), the update of one agent, and \<open>PullInfo\<close>
  (\<open>src/server/pull_info.h\<close>), a pull request that waits. Both keep their own length
  beside their vectors; \<open>wf_kv\<close> and \<open>wf_pull\<close> say that it is the length of the vectors,
  which is so after any number of additions to a new object.
\<close>

section \<open>KeyValueList\<close>

record 'v KeyValueList =
  kv_length :: int
  kv_keys :: "int list"
  kv_values :: "'v list"

definition new_KeyValueList :: "'v KeyValueList" where
  "new_KeyValueList = \<lparr> kv_length = 0, kv_keys = [], kv_values = [] \<rparr>"

definition AddPair :: "int \<Rightarrow> 'v \<Rightarrow> 'v KeyValueList \<Rightarrow> 'v KeyValueList res" where
  "AddPair key v l =
     bind_res (i32 (kv_length l + 1)) (\<lambda>n.
       Inr (l\<lparr>kv_keys := kv_keys l @ [key], kv_values := kv_values l @ [v], kv_length := n\<rparr>))"

definition KeyValueList_Key :: "'v KeyValueList \<Rightarrow> int \<Rightarrow> int res" where
  "KeyValueList_Key l index = vec_get (kv_keys l) index"

definition KeyValueList_Value :: "'v KeyValueList \<Rightarrow> int \<Rightarrow> 'v res" where
  "KeyValueList_Value l index = vec_get (kv_values l) index"

definition KeyValueList_Length :: "'v KeyValueList \<Rightarrow> int" where
  "KeyValueList_Length l = kv_length l"

definition wf_kv :: "'v KeyValueList \<Rightarrow> bool" where
  "wf_kv l \<longleftrightarrow> kv_length l = int (length (kv_keys l)) \<and> length (kv_values l) = length (kv_keys l)"

definition kv_pairs :: "'v KeyValueList \<Rightarrow> (int \<times> 'v) list" where
  "kv_pairs l = zip (kv_keys l) (kv_values l)"

section \<open>PullInfo\<close>

record PullInfo =
  pi_length :: int
  pi_id :: int
  pi_keys :: "int list"

definition new_PullInfo :: PullInfo where
  "new_PullInfo = \<lparr> pi_length = 0, pi_id = 0, pi_keys = [] \<rparr>"

definition AddKey :: "int \<Rightarrow> PullInfo \<Rightarrow> PullInfo res" where
  "AddKey key p =
     bind_res (i32 (pi_length p + 1)) (\<lambda>n. Inr (p\<lparr>pi_keys := pi_keys p @ [key], pi_length := n\<rparr>))"

definition PullInfo_Key :: "PullInfo \<Rightarrow> int \<Rightarrow> int res" where
  "PullInfo_Key p index = vec_get (pi_keys p) index"

definition PullInfo_Length :: "PullInfo \<Rightarrow> int" where
  "PullInfo_Length p = pi_length p"

definition get_id :: "PullInfo \<Rightarrow> int" where
  "get_id p = pi_id p"

definition set_id :: "int \<Rightarrow> PullInfo \<Rightarrow> PullInfo" where
  "set_id i p = p\<lparr>pi_id := i\<rparr>"

definition wf_pull :: "PullInfo \<Rightarrow> bool" where
  "wf_pull p \<longleftrightarrow> pi_length p = int (length (pi_keys p))"

section \<open>Additions keep the lengths\<close>

text \<open>The accessors of a well-formed list, at any of its positions.\<close>

lemma KeyValueList_at:
  assumes "wf_kv l" "j < length (kv_keys l)"
  shows "KeyValueList_Key l (int j) = Inr (kv_keys l ! j)"
    and "KeyValueList_Value l (int j) = Inr (kv_values l ! j)"
  using assms by (simp_all add: KeyValueList_Key_def KeyValueList_Value_def wf_kv_def)

lemma AddPair_all:
  assumes "in_i32 (int (length (kv_keys l) + length xs))" "wf_kv l"
  shows "fold_res (\<lambda>(k, v). AddPair k v) xs l =
      Inr (l\<lparr>kv_keys := kv_keys l @ map fst xs, kv_values := kv_values l @ map snd xs,
             kv_length := int (length (kv_keys l) + length xs)\<rparr>)"
  using assms
proof (induction xs arbitrary: l)
  case (Cons x xs)
  obtain k v where x: "x = (k, v)" by force
  let ?l = "l\<lparr>kv_keys := kv_keys l @ [k], kv_values := kv_values l @ [v],
      kv_length := int (Suc (length (kv_keys l)))\<rparr>"
  from Cons.prems have "in_i32 (kv_length l + 1)" by (auto simp: in_i32_iff wf_kv_def)
  then have "AddPair k v l = Inr ?l"
    using Cons.prems(2) by (simp add: AddPair_def wf_kv_def add.commute)
  moreover have "fold_res (\<lambda>(k, v). AddPair k v) xs ?l =
      Inr (?l\<lparr>kv_keys := kv_keys ?l @ map fst xs, kv_values := kv_values ?l @ map snd xs,
             kv_length := int (length (kv_keys ?l) + length xs)\<rparr>)"
    by (rule Cons.IH) (use Cons.prems in \<open>auto simp: wf_kv_def\<close>)
  ultimately show ?case by (simp add: x)
qed (simp add: wf_kv_def)

lemma AddKey_all:
  assumes "in_i32 (int (length (pi_keys p) + length ks))" "wf_pull p"
  shows "fold_res AddKey ks p =
      Inr (p\<lparr>pi_keys := pi_keys p @ ks, pi_length := int (length (pi_keys p) + length ks)\<rparr>)"
  using assms
proof (induction ks arbitrary: p)
  case (Cons k ks)
  let ?p = "p\<lparr>pi_keys := pi_keys p @ [k], pi_length := int (Suc (length (pi_keys p)))\<rparr>"
  from Cons.prems have "in_i32 (pi_length p + 1)" by (auto simp: in_i32_iff wf_pull_def)
  then have "AddKey k p = Inr ?p"
    using Cons.prems(2) by (simp add: AddKey_def wf_pull_def add.commute)
  moreover have "fold_res AddKey ks ?p =
      Inr (?p\<lparr>pi_keys := pi_keys ?p @ ks, pi_length := int (length (pi_keys ?p) + length ks)\<rparr>)"
    by (rule Cons.IH) (use Cons.prems in \<open>auto simp: wf_pull_def\<close>)
  ultimately show ?case by simp
qed (simp add: wf_pull_def)

end
