(* ===== verification/Transition_Systems.thy ===== *)
theory Transition_Systems
  imports Main
begin

text \<open>
  Reachability over a step relation, and the interface through which a component turns
  "every step keeps the invariant" into "every reachable state satisfies it". The ring buffer,
  the parameter server, the master and the channel each interpret the locale.
\<close>

inductive reach :: "('s \<Rightarrow> bool) \<Rightarrow> ('s \<Rightarrow> 's \<Rightarrow> bool) \<Rightarrow> 's \<Rightarrow> bool" for init step where
  reach_init: "init s \<Longrightarrow> reach init step s"
| reach_step: "reach init step s \<Longrightarrow> step s t \<Longrightarrow> reach init step t"

locale invariant_system =
  fixes init :: "'s \<Rightarrow> bool"
    and step :: "'s \<Rightarrow> 's \<Rightarrow> bool"
    and invar :: "'s \<Rightarrow> bool"
  assumes invar_init: "init s \<Longrightarrow> invar s"
    and invar_step: "invar s \<Longrightarrow> step s t \<Longrightarrow> invar t"
begin

lemma reach_invar: "reach init step s \<Longrightarrow> invar s"
  by (induction rule: reach.induct) (auto intro: invar_init invar_step)

text \<open>A relation between the two ends of a step that is transitive holds along every run.\<close>

lemma steps_invar: "step\<^sup>*\<^sup>* s t \<Longrightarrow> invar s \<Longrightarrow> invar t"
  by (induction rule: rtranclp_induct) (auto intro: invar_step)

lemma steps_mono:
  assumes "step\<^sup>*\<^sup>* s t" "invar s" "\<And>s. R s s"
    and "\<And>a b c. R a b \<Longrightarrow> R b c \<Longrightarrow> R a c"
    and "\<And>a b. invar a \<Longrightarrow> step a b \<Longrightarrow> R a b"
  shows "R s t"
  using assms(1)
proof (induction rule: rtranclp_induct)
  case (step y z)
  have "invar y" by (rule steps_invar [OF step.hyps(1) assms(2)])
  with step show ?case by (blast intro: assms(4,5))
qed (rule assms(3))

end

end
