(* ===== verification/Fifo_Ring.thy ===== *)
theory Fifo_Ring
  imports Prelude Transition_Systems
begin

text \<open>
  The class \<open>FifoRing\<close> (\<open>src/communication/fifo_ring.h\<close>,
  \<open>src/communication/fifo_ring.cc\<close>): a ring of message slots guarded by two counting
  semaphores. \<open>empty_sem\<close> starts at the size of the ring and counts free slots,
  \<open>full_sem\<close> starts at 0 and counts written ones.

  Each call is a short program with four atomic parts (wait, take an index under the mutex,
  touch the slot, post), so a call is modelled twice: as the step relation
  \<open>ring_step\<close>, in which the parts of the calls of several threads interleave, and as the
  functions \<open>FifoRing_Add\<close> and \<open>FifoRing_Fetch\<close>, a call that runs alone.
\<close>

record fifo_ring =
  ring_size :: int
  ring_slots :: "string option list"
  data_sizes :: "int list"
  produce_point :: int
  consume_point :: int
  empty_sem :: nat
  full_sem :: nat

text \<open>
  \<open>memset(ring_, 0, sizeof(ring_))\<close> clears as many bytes as a pointer has: the first slot,
  and the first two elements of \<open>data_sizes_\<close>; the other elements keep what the heap held,
  given here by \<open>heap\<close> and \<open>heap_sizes\<close>. On a ring of fewer than two slots the second
  \<open>memset\<close> writes past the end of \<open>data_sizes_\<close>.
\<close>

definition FifoRing_Initialize ::
    "(nat \<Rightarrow> string option) \<Rightarrow> (nat \<Rightarrow> int) \<Rightarrow> int \<Rightarrow> fifo_ring res" where
  "FifoRing_Initialize heap heap_sizes rsize =
     (if rsize < 0 then Inl LengthError
      else if rsize < 2 then Inl OutOfBounds
      else Inr \<lparr> ring_size = rsize,
                ring_slots = None # map heap [1..<nat rsize],
                data_sizes = [0, 0] @ map heap_sizes [2..<nat rsize],
                produce_point = 0, consume_point = 0,
                empty_sem = nat rsize, full_sem = 0 \<rparr>)"

definition FifoRing_Finalize :: "fifo_ring \<Rightarrow> fifo_ring" where
  "FifoRing_Finalize r = r\<lparr>ring_slots := [], data_sizes := [], empty_sem := 0, full_sem := 0\<rparr>"

subsection \<open>The parts of a call\<close>

definition take_produce_index :: "fifo_ring \<Rightarrow> (int \<times> fifo_ring) res" where
  "take_produce_index r =
     bind_res (i32 (produce_point r + 1)) (\<lambda>p.
     bind_res (i32_rem p (ring_size r)) (\<lambda>p'.
       Inr (produce_point r, r\<lparr>produce_point := p'\<rparr>)))"

definition take_consume_index :: "fifo_ring \<Rightarrow> (int \<times> fifo_ring) res" where
  "take_consume_index r =
     bind_res (i32 (consume_point r + 1)) (\<lambda>c.
     bind_res (i32_rem c (ring_size r)) (\<lambda>c'.
       Inr (consume_point r, r\<lparr>consume_point := c'\<rparr>)))"

definition write_slot :: "int \<Rightarrow> string \<Rightarrow> fifo_ring \<Rightarrow> fifo_ring res" where
  "write_slot index msg r =
     (if index = -1 then Inl CheckFailed
      else bind_res (vec_set (ring_slots r) index (Some msg)) (\<lambda>slots.
           bind_res (vec_set (data_sizes r) index (int (length msg))) (\<lambda>sizes.
             Inr (r\<lparr>ring_slots := slots, data_sizes := sizes\<rparr>))))"

text \<open>
  The copy out of a slot: \<open>None\<close> when the slot holds the null pointer; otherwise the bytes,
  of which \<open>data_sizes_[index]\<close> are copied into the caller's buffer of \<open>max_size\<close> bytes.
\<close>

definition read_slot :: "int \<Rightarrow> int \<Rightarrow> fifo_ring \<Rightarrow> (string option \<times> fifo_ring) res" where
  "read_slot index max_size r =
     (if index = -1 then Inl CheckFailed
      else bind_res (vec_get (ring_slots r) index) (\<lambda>slot.
        case slot of
          None \<Rightarrow> Inr (None, r)
        | Some bytes \<Rightarrow>
            bind_res (vec_get (data_sizes r) index) (\<lambda>len.
              if len < 0 \<or> int (length bytes) < len \<or> max_size < len then Inl OutOfBounds
              else bind_res (vec_set (ring_slots r) index None) (\<lambda>slots.
                Inr (Some (take (nat len) bytes), r\<lparr>ring_slots := slots\<rparr>)))))"

subsection \<open>A call that runs alone\<close>

text \<open>
  \<open>None\<close> stands for a call that waits on its semaphore. \<open>Add\<close> returns the length of the
  message, \<open>Fetch\<close> the message and its length, or -1 from a slot with no message, in which
  case it returns without posting \<open>empty_sem\<close>.
\<close>

definition FifoRing_Add :: "string \<Rightarrow> fifo_ring \<Rightarrow> (int \<times> fifo_ring) res option" where
  "FifoRing_Add msg r =
     (if empty_sem r = 0 then None
      else Some (bind_res (take_produce_index (r\<lparr>empty_sem := empty_sem r - 1\<rparr>)) (\<lambda>(index, r1).
        bind_res (write_slot index msg r1) (\<lambda>r2.
          Inr (int (length msg), r2\<lparr>full_sem := full_sem r2 + 1\<rparr>)))))"

definition FifoRing_Fetch ::
    "int \<Rightarrow> fifo_ring \<Rightarrow> (int \<times> string \<times> fifo_ring) res option" where
  "FifoRing_Fetch max_size r =
     (if full_sem r = 0 then None
      else Some (bind_res (take_consume_index (r\<lparr>full_sem := full_sem r - 1\<rparr>)) (\<lambda>(index, r1).
        bind_res (read_slot index max_size r1) (\<lambda>(out, r2).
          case out of
            None \<Rightarrow> Inr (-1, [], r2)
          | Some bytes \<Rightarrow> Inr (int (length bytes), bytes, r2\<lparr>empty_sem := empty_sem r2 + 1\<rparr>)))))"

subsection \<open>Interleaved calls\<close>

text \<open>Where a producing or a consuming thread stands inside its call.\<close>

datatype producer_pc =
    P_Idle
  | P_Waited string
  | P_Indexed int string
  | P_Written

datatype consumer_pc =
    C_Idle
  | C_Waited
  | C_Indexed int
  | C_Copied

text \<open>
  The ring, its threads (the threads of the process by number) and two histories: what the
  producers wrote into slots and what the consumers copied out, in order.
\<close>

record ring_sys =
  ring :: fifo_ring
  producers :: "nat \<Rightarrow> producer_pc"
  consumers :: "nat \<Rightarrow> consumer_pc"
  added :: "string list"
  fetched :: "string list"

definition ring_init :: "ring_sys \<Rightarrow> bool" where
  "ring_init s \<longleftrightarrow>
     (\<exists>heap heap_sizes rsize. in_i32 (rsize + 1) \<and>
        FifoRing_Initialize heap heap_sizes rsize = Inr (ring s)) \<and>
     producers s = (\<lambda>_. P_Idle) \<and> consumers s = (\<lambda>_. C_Idle) \<and> added s = [] \<and> fetched s = []"

text \<open>
  One atomic part of the call of one thread, with \<open>np\<close> producing and \<open>nc\<close> consuming
  threads and buffers of \<open>max_size\<close> bytes.
\<close>

inductive ring_step :: "nat \<Rightarrow> nat \<Rightarrow> int \<Rightarrow> ring_sys \<Rightarrow> ring_sys \<Rightarrow> bool" for np nc max_size where
  add_wait: "i < np \<Longrightarrow> producers s i = P_Idle \<Longrightarrow> 0 < empty_sem (ring s) \<Longrightarrow>
     int (length msg) \<le> max_size \<Longrightarrow>
     ring_step np nc max_size s (s\<lparr>ring := (ring s)\<lparr>empty_sem := empty_sem (ring s) - 1\<rparr>,
       producers := (producers s)(i := P_Waited msg)\<rparr>)"
| add_index: "i < np \<Longrightarrow> producers s i = P_Waited msg \<Longrightarrow>
     take_produce_index (ring s) = Inr (index, r) \<Longrightarrow>
     ring_step np nc max_size s (s\<lparr>ring := r,
       producers := (producers s)(i := P_Indexed index msg)\<rparr>)"
| add_write: "i < np \<Longrightarrow> producers s i = P_Indexed index msg \<Longrightarrow>
     write_slot index msg (ring s) = Inr r \<Longrightarrow>
     ring_step np nc max_size s (s\<lparr>ring := r,
       producers := (producers s)(i := P_Written), added := added s @ [msg]\<rparr>)"
| add_post: "i < np \<Longrightarrow> producers s i = P_Written \<Longrightarrow>
     ring_step np nc max_size s (s\<lparr>ring := (ring s)\<lparr>full_sem := full_sem (ring s) + 1\<rparr>,
       producers := (producers s)(i := P_Idle)\<rparr>)"
| fetch_wait: "i < nc \<Longrightarrow> consumers s i = C_Idle \<Longrightarrow> 0 < full_sem (ring s) \<Longrightarrow>
     ring_step np nc max_size s (s\<lparr>ring := (ring s)\<lparr>full_sem := full_sem (ring s) - 1\<rparr>,
       consumers := (consumers s)(i := C_Waited)\<rparr>)"
| fetch_index: "i < nc \<Longrightarrow> consumers s i = C_Waited \<Longrightarrow>
     take_consume_index (ring s) = Inr (index, r) \<Longrightarrow>
     ring_step np nc max_size s (s\<lparr>ring := r,
       consumers := (consumers s)(i := C_Indexed index)\<rparr>)"
| fetch_copy: "i < nc \<Longrightarrow> consumers s i = C_Indexed index \<Longrightarrow>
     read_slot index max_size (ring s) = Inr (Some bytes, r) \<Longrightarrow>
     ring_step np nc max_size s (s\<lparr>ring := r,
       consumers := (consumers s)(i := C_Copied), fetched := fetched s @ [bytes]\<rparr>)"
| fetch_null: "i < nc \<Longrightarrow> consumers s i = C_Indexed index \<Longrightarrow>
     read_slot index max_size (ring s) = Inr (None, r) \<Longrightarrow>
     ring_step np nc max_size s (s\<lparr>ring := r, consumers := (consumers s)(i := C_Idle)\<rparr>)"
| fetch_post: "i < nc \<Longrightarrow> consumers s i = C_Copied \<Longrightarrow>
     ring_step np nc max_size s (s\<lparr>ring := (ring s)\<lparr>empty_sem := empty_sem (ring s) + 1\<rparr>,
       consumers := (consumers s)(i := C_Idle)\<rparr>)"

section \<open>One producer and one consumer\<close>

text \<open>How many semaphore tokens a thread holds at each point of its call.\<close>

fun holds_free :: "producer_pc \<Rightarrow> nat" where
  "holds_free (P_Waited _) = 1"
| "holds_free (P_Indexed _ _) = 1"
| "holds_free _ = 0"

fun holds_new :: "producer_pc \<Rightarrow> nat" where
  "holds_new P_Written = 1"
| "holds_new _ = 0"

fun holds_full :: "consumer_pc \<Rightarrow> nat" where
  "holds_full C_Waited = 1"
| "holds_full (C_Indexed _) = 1"
| "holds_full _ = 0"

fun holds_old :: "consumer_pc \<Rightarrow> nat" where
  "holds_old C_Copied = 1"
| "holds_old _ = 0"

fun ahead_p :: "producer_pc \<Rightarrow> nat" where
  "ahead_p (P_Indexed _ _) = 1"
| "ahead_p _ = 0"

fun ahead_c :: "consumer_pc \<Rightarrow> nat" where
  "ahead_c (C_Indexed _) = 1"
| "ahead_c _ = 0"

abbreviation cap :: "ring_sys \<Rightarrow> nat" where
  "cap s \<equiv> nat (ring_size (ring s))"

text \<open>The arrays have the size of the ring, which leaves room for the increment of an index.\<close>

definition ring_shape :: "ring_sys \<Rightarrow> bool" where
  "ring_shape s \<longleftrightarrow> 1 \<le> ring_size (ring s) \<and> in_i32 (ring_size (ring s) + 1) \<and>
     length (ring_slots (ring s)) = cap s \<and> length (data_sizes (ring s)) = cap s"

text \<open>Every slot is accounted for by a semaphore or by a thread inside a call.\<close>

definition ring_tokens :: "ring_sys \<Rightarrow> bool" where
  "ring_tokens s \<longleftrightarrow>
     length (added s) = length (fetched s) + full_sem (ring s)
       + holds_new (producers s 0) + holds_full (consumers s 0) \<and>
     length (added s) + empty_sem (ring s) + holds_free (producers s 0)
       + holds_old (consumers s 0) = length (fetched s) + cap s"

text \<open>The two points are the lengths of the histories, modulo the size of the ring.\<close>

definition ring_points :: "ring_sys \<Rightarrow> bool" where
  "ring_points s \<longleftrightarrow>
     produce_point (ring s) = int ((length (added s) + ahead_p (producers s 0)) mod cap s) \<and>
     consume_point (ring s) = int ((length (fetched s) + ahead_c (consumers s 0)) mod cap s) \<and>
     (\<forall>i m. producers s 0 = P_Indexed i m \<longrightarrow> i = int (length (added s) mod cap s)) \<and>
     (\<forall>i. consumers s 0 = C_Indexed i \<longrightarrow> i = int (length (fetched s) mod cap s))"

text \<open>The slots between the two points hold the messages added and not yet fetched, in order.\<close>

definition ring_content :: "int \<Rightarrow> ring_sys \<Rightarrow> bool" where
  "ring_content max_size s \<longleftrightarrow>
     fetched s = take (length (fetched s)) (added s) \<and>
     (\<forall>k. length (fetched s) \<le> k \<and> k < length (added s) \<longrightarrow>
        ring_slots (ring s) ! (k mod cap s) = Some (added s ! k) \<and>
        data_sizes (ring s) ! (k mod cap s) = int (length (added s ! k))) \<and>
     (\<forall>m \<in> set (added s). int (length m) \<le> max_size) \<and>
     (\<forall>m. producers s 0 = P_Waited m \<or> (\<exists>i. producers s 0 = P_Indexed i m) \<longrightarrow>
        int (length m) \<le> max_size)"

definition ring_inv :: "int \<Rightarrow> ring_sys \<Rightarrow> bool" where
  "ring_inv max_size s \<longleftrightarrow>
     ring_shape s \<and> ring_tokens s \<and> ring_points s \<and> ring_content max_size s"

lemma mod_window_inj:
  fixes a b n :: nat
  assumes "a \<le> b" "b < a + n" "a mod n = b mod n"
  shows "a = b"
  using assms by (metis add_diff_inverse_nat less_diff_conv2 linorder_not_less mod_eq_dvd_iff_nat
      nat_dvd_not_less zero_less_diff diff_diff_left le_neq_implies_less add.commute)

lemma advance_point:
  assumes "1 \<le> n" "in_i32 (n + 1)" "x = int (k mod nat n)"
  shows "in_i32 (x + 1)" "i32_rem (x + 1) n = Inr (int (Suc k mod nat n))"
proof -
  have "k mod nat n < nat n" using assms(1) by simp
  then have lt: "x < n" "0 \<le> x" using assms(1,3) by linarith+
  with assms(2) show "in_i32 (x + 1)" by (simp add: in_i32_iff)
  have "in_i32 n" using assms(1,2) by (simp add: in_i32_iff)
  then have "i32_rem (x + 1) n = Inr ((x + 1) mod n)"
    using lt assms(1) by (intro i32_rem_nonneg) auto
  also have "(x + 1) mod n = int (Suc k mod nat n)"
    using assms(1,3) by (simp add: zmod_int mod_simps add.commute)
  finally show "i32_rem (x + 1) n = Inr (int (Suc k mod nat n))" .
qed

lemma take_produce_index_at:
  assumes "ring_shape s" "produce_point (ring s) = int (k mod cap s)"
  shows "take_produce_index (ring s) =
    Inr (int (k mod cap s), (ring s)\<lparr>produce_point := int (Suc k mod cap s)\<rparr>)"
  using assms advance_point [of "ring_size (ring s)" "produce_point (ring s)" k]
  by (simp add: take_produce_index_def ring_shape_def)

lemma take_consume_index_at:
  assumes "ring_shape s" "consume_point (ring s) = int (k mod cap s)"
  shows "take_consume_index (ring s) =
    Inr (int (k mod cap s), (ring s)\<lparr>consume_point := int (Suc k mod cap s)\<rparr>)"
  using assms advance_point [of "ring_size (ring s)" "consume_point (ring s)" k]
  by (simp add: take_consume_index_def ring_shape_def)

lemma write_slot_at:
  assumes "ring_shape s"
  shows "write_slot (int (k mod cap s)) msg (ring s) =
    Inr ((ring s)\<lparr>ring_slots := (ring_slots (ring s))[k mod cap s := Some msg],
                  data_sizes := (data_sizes (ring s))[k mod cap s := int (length msg)]\<rparr>)"
proof -
  have "k mod cap s < length (ring_slots (ring s))" "k mod cap s < length (data_sizes (ring s))"
    using assms by (simp_all add: ring_shape_def)
  then show ?thesis by (simp add: write_slot_def)
qed

lemma read_slot_at:
  assumes "ring_shape s" "ring_slots (ring s) ! (k mod cap s) = Some msg"
    "data_sizes (ring s) ! (k mod cap s) = int (length msg)" "int (length msg) \<le> max_size"
  shows "read_slot (int (k mod cap s)) max_size (ring s) =
    Inr (Some msg, (ring s)\<lparr>ring_slots := (ring_slots (ring s))[k mod cap s := None]\<rparr>)"
proof -
  have "k mod cap s < length (ring_slots (ring s))" "k mod cap s < length (data_sizes (ring s))"
    using assms(1) by (simp_all add: ring_shape_def)
  with assms(2-4) show ?thesis by (simp add: read_slot_def)
qed

lemmas ring_inv_defs = ring_inv_def ring_shape_def ring_tokens_def ring_points_def ring_content_def

lemma ring_inv_init:
  assumes "ring_init s"
  shows "ring_inv max_size s"
proof -
  from assms obtain heap heap_sizes rsize where "in_i32 (rsize + 1)"
    and "FifoRing_Initialize heap heap_sizes rsize = Inr (ring s)"
    by (auto simp: ring_init_def)
  then have "2 \<le> rsize" "in_i32 (rsize + 1)"
    and "ring s = \<lparr> ring_size = rsize, ring_slots = None # map heap [1..<nat rsize],
      data_sizes = [0, 0] @ map heap_sizes [2..<nat rsize], produce_point = 0,
      consume_point = 0, empty_sem = nat rsize, full_sem = 0 \<rparr>"
    by (auto simp: FifoRing_Initialize_def split: if_splits)
  with assms show ?thesis by (simp add: ring_init_def ring_inv_defs)
qed

lemma add_write_inv:
  assumes inv: "ring_inv max_size s" and pc: "producers s 0 = P_Indexed index msg"
    and w: "write_slot index msg (ring s) = Inr r"
  shows "ring_inv max_size
    (s\<lparr>ring := r, producers := (producers s)(0 := P_Written), added := added s @ [msg]\<rparr>)"
proof -
  let ?A = "length (added s)" and ?F = "length (fetched s)" and ?n = "cap s"
  from inv have shape: "ring_shape s" and tokens: "ring_tokens s" and points: "ring_points s"
    and content: "ring_content max_size s"
    by (simp_all add: ring_inv_def)
  from points pc have index: "index = int (?A mod ?n)" by (simp add: ring_points_def)
  from w have r: "r = (ring s)\<lparr>ring_slots := (ring_slots (ring s))[?A mod ?n := Some msg],
      data_sizes := (data_sizes (ring s))[?A mod ?n := int (length msg)]\<rparr>"
    by (simp add: index write_slot_at [OF shape])
  have A: "?A < ?F + ?n" and F: "?F \<le> ?A" using tokens pc by (simp_all add: ring_tokens_def)
  have other: "?A mod ?n \<noteq> k mod ?n" if "?F \<le> k" "k < ?A" for k
    using mod_window_inj [of k ?A ?n] that A by auto
  have lt: "?A mod ?n < ?n" using shape by (simp add: ring_shape_def)
  let ?t = "s\<lparr>ring := r, producers := (producers s)(0 := P_Written), added := added s @ [msg]\<rparr>"
  have cells: "ring_slots (ring ?t) ! (k mod ?n) = Some (added ?t ! k) \<and>
      data_sizes (ring ?t) ! (k mod ?n) = int (length (added ?t ! k))"
    if k: "?F \<le> k" "k < Suc ?A" for k
  proof (cases "k = ?A")
    case True
    with lt shape show ?thesis by (simp add: r ring_shape_def)
  next
    case False
    with k have "k < ?A" by simp
    with k other content lt shape show ?thesis
      by (simp add: r ring_content_def ring_shape_def nth_append)
  qed
  have "int (length msg) \<le> max_size" using content pc by (auto simp: ring_content_def)
  with content F cells have "ring_content max_size ?t" by (simp add: ring_content_def r)
  moreover have "ring_shape ?t" "ring_tokens ?t" "ring_points ?t"
    using shape tokens points pc by (simp_all add: ring_shape_def ring_tokens_def ring_points_def r)
  ultimately show ?thesis by (simp add: ring_inv_def)
qed

text \<open>A consumer that took an index finds the oldest message that was not fetched.\<close>

lemma indexed_slot_full:
  assumes inv: "ring_inv max_size s" and pc: "consumers s 0 = C_Indexed index"
  defines "F \<equiv> length (fetched s)"
  shows "F < length (added s)"
    and "read_slot index max_size (ring s) =
      Inr (Some (added s ! F), (ring s)\<lparr>ring_slots := (ring_slots (ring s))[F mod cap s := None]\<rparr>)"
proof -
  from inv have shape: "ring_shape s" and tokens: "ring_tokens s" and points: "ring_points s"
    and content: "ring_content max_size s"
    by (simp_all add: ring_inv_def)
  from tokens pc show F: "F < length (added s)" by (simp add: ring_tokens_def F_def)
  with content have slot: "ring_slots (ring s) ! (F mod cap s) = Some (added s ! F)"
    "data_sizes (ring s) ! (F mod cap s) = int (length (added s ! F))"
    "int (length (added s ! F)) \<le> max_size"
    by (auto simp: ring_content_def F_def)
  from points pc have "index = int (F mod cap s)" by (simp add: ring_points_def F_def)
  then show "read_slot index max_size (ring s) =
      Inr (Some (added s ! F), (ring s)\<lparr>ring_slots := (ring_slots (ring s))[F mod cap s := None]\<rparr>)"
    using read_slot_at [OF shape slot] by simp
qed

lemma fetch_copy_inv:
  assumes inv: "ring_inv max_size s" and pc: "consumers s 0 = C_Indexed index"
    and rd: "read_slot index max_size (ring s) = Inr (Some bytes, r)"
  shows "ring_inv max_size
    (s\<lparr>ring := r, consumers := (consumers s)(0 := C_Copied), fetched := fetched s @ [bytes]\<rparr>)"
proof -
  let ?A = "length (added s)" and ?F = "length (fetched s)" and ?n = "cap s"
  from inv have shape: "ring_shape s" and tokens: "ring_tokens s" and points: "ring_points s"
    and content: "ring_content max_size s"
    by (simp_all add: ring_inv_def)
  note full = indexed_slot_full [OF inv pc]
  from full rd have bytes: "bytes = added s ! ?F"
    and r: "r = (ring s)\<lparr>ring_slots := (ring_slots (ring s))[?F mod ?n := None]\<rparr>" by simp_all
  have A: "?A \<le> ?F + ?n" using tokens by (simp add: ring_tokens_def)
  have other: "?F mod ?n \<noteq> k mod ?n" if "Suc ?F \<le> k" "k < ?A" for k
    using mod_window_inj [of ?F k ?n] that A by auto
  have "fetched s @ [bytes] = take (Suc ?F) (added s)"
    using content full(1) by (simp add: ring_content_def take_Suc_conv_app_nth bytes)
  moreover have "ring_slots r ! (k mod ?n) = Some (added s ! k) \<and>
      data_sizes r ! (k mod ?n) = int (length (added s ! k))"
    if "Suc ?F \<le> k" "k < ?A" for k
    using that other content by (simp add: r ring_content_def)
  ultimately have "ring_content max_size
    (s\<lparr>ring := r, consumers := (consumers s)(0 := C_Copied), fetched := fetched s @ [bytes]\<rparr>)"
    using content full(1) by (simp add: ring_content_def r)
  moreover have "ring_shape
    (s\<lparr>ring := r, consumers := (consumers s)(0 := C_Copied), fetched := fetched s @ [bytes]\<rparr>)"
    using shape by (simp add: ring_shape_def r)
  moreover have "ring_tokens
    (s\<lparr>ring := r, consumers := (consumers s)(0 := C_Copied), fetched := fetched s @ [bytes]\<rparr>)"
    using tokens pc by (simp add: ring_tokens_def r)
  moreover have "ring_points
    (s\<lparr>ring := r, consumers := (consumers s)(0 := C_Copied), fetched := fetched s @ [bytes]\<rparr>)"
    using points pc by (simp add: ring_points_def r)
  ultimately show ?thesis by (simp add: ring_inv_def)
qed

lemma ring_inv_step: "ring_step 1 1 max_size s t \<Longrightarrow> ring_inv max_size s \<Longrightarrow> ring_inv max_size t"
proof (induction rule: ring_step.induct)
  case (add_index i s msg index r)
  then have "ring_shape s" "produce_point (ring s) = int (length (added s) mod cap s)"
    by (simp_all add: ring_inv_defs)
  with add_index take_produce_index_at show ?case by (auto simp: ring_inv_defs)
next
  case (fetch_index i s index r)
  then have "ring_shape s" "consume_point (ring s) = int (length (fetched s) mod cap s)"
    by (simp_all add: ring_inv_defs)
  with fetch_index take_consume_index_at show ?case by (auto simp: ring_inv_defs)
next
  case (add_write i s index msg r)
  then show ?case using add_write_inv by simp
next
  case (fetch_copy i s index bytes r)
  then show ?case using fetch_copy_inv by simp
next
  case (fetch_null i s index r)
  then show ?case using indexed_slot_full(2) by fastforce
qed (auto simp: ring_inv_defs)

interpretation spsc: invariant_system ring_init "ring_step 1 1 max_size" "ring_inv max_size"
  by unfold_locales (auto intro: ring_inv_init ring_inv_step)

section \<open>The ring as a queue\<close>

text \<open>Several calls in a row, stopping at the first that waits or faults.\<close>

fun add_all :: "('m \<Rightarrow> 'q \<Rightarrow> (int \<times> 'q) res option) \<Rightarrow> 'm list \<Rightarrow> 'q \<Rightarrow> 'q res option" where
  "add_all add [] q = Some (Inr q)"
| "add_all add (m # ms) q =
     (case add m q of
        None \<Rightarrow> None
      | Some (Inl e) \<Rightarrow> Some (Inl e)
      | Some (Inr (_, q')) \<Rightarrow> add_all add ms q')"

fun fetch_n :: "('q \<Rightarrow> (int \<times> 'm \<times> 'q) res option) \<Rightarrow> nat \<Rightarrow> 'q \<Rightarrow> ('m list \<times> 'q) res option" where
  "fetch_n fetch 0 q = Some (Inr ([], q))"
| "fetch_n fetch (Suc n) q =
     (case fetch q of
        None \<Rightarrow> None
      | Some (Inl e) \<Rightarrow> Some (Inl e)
      | Some (Inr (_, m, q')) \<Rightarrow>
          map_option (\<lambda>r. bind_res r (\<lambda>(ms, q''). Inr (m # ms, q''))) (fetch_n fetch n q'))"

text \<open>
  What a ring promises to a caller whose calls run to completion one after the other:
  \<open>rep q ms\<close> says that \<open>q\<close> holds the messages \<open>ms\<close>, oldest first. An operation that
  waits is \<open>None\<close>.
\<close>

locale bounded_fifo =
  fixes rep :: "'q \<Rightarrow> 'm list \<Rightarrow> bool"
    and capacity :: "'q \<Rightarrow> nat"
    and fits :: "'m \<Rightarrow> bool"
    and len :: "'m \<Rightarrow> int"
    and add :: "'m \<Rightarrow> 'q \<Rightarrow> (int \<times> 'q) res option"
    and fetch :: "'q \<Rightarrow> (int \<times> 'm \<times> 'q) res option"
  assumes add_full: "rep q ms \<Longrightarrow> length ms = capacity q \<Longrightarrow> add m q = None"
    and add_free: "rep q ms \<Longrightarrow> length ms < capacity q \<Longrightarrow> fits m \<Longrightarrow>
      \<exists>q'. add m q = Some (Inr (len m, q')) \<and> rep q' (ms @ [m]) \<and> capacity q' = capacity q"
    and fetch_empty: "rep q [] \<Longrightarrow> fetch q = None"
    and fetch_cons: "rep q (m # ms) \<Longrightarrow>
      \<exists>q'. fetch q = Some (Inr (len m, m, q')) \<and> rep q' ms \<and> capacity q' = capacity q"
begin

lemma add_all_rep:
  "rep q old \<Longrightarrow> length old + length ms \<le> capacity q \<Longrightarrow> (\<And>m. m \<in> set ms \<Longrightarrow> fits m) \<Longrightarrow>
   \<exists>q'. add_all add ms q = Some (Inr q') \<and> rep q' (old @ ms) \<and> capacity q' = capacity q"
proof (induction ms arbitrary: q old)
  case (Cons m ms)
  from Cons.prems add_free [of q old m] obtain q1 where
    q1: "add m q = Some (Inr (len m, q1))" "rep q1 (old @ [m])" "capacity q1 = capacity q"
    by auto
  with Cons.prems Cons.IH [of q1 "old @ [m]"] show ?case by auto
qed auto

lemma fetch_n_rep:
  "rep q (ms @ rest) \<Longrightarrow>
   \<exists>q'. fetch_n fetch (length ms) q = Some (Inr (ms, q')) \<and> rep q' rest \<and> capacity q' = capacity q"
proof (induction ms arbitrary: q)
  case (Cons m ms)
  from Cons.prems fetch_cons [of q m "ms @ rest"] obtain q1 where
    q1: "fetch q = Some (Inr (len m, m, q1))" "rep q1 (ms @ rest)" "capacity q1 = capacity q"
    by auto
  from Cons.IH [OF q1(2)] q1 show ?case by auto
qed auto

text \<open>Messages added one after the other are fetched one after the other, unchanged.\<close>

lemma add_all_then_fetch_n:
  assumes "rep q []" "length ms \<le> capacity q" "\<And>m. m \<in> set ms \<Longrightarrow> fits m"
  shows "\<exists>q' q''. add_all add ms q = Some (Inr q') \<and>
    fetch_n fetch (length ms) q' = Some (Inr (ms, q'')) \<and> rep q'' []"
proof -
  from add_all_rep [of q "[]" ms] assms obtain q' where
    "add_all add ms q = Some (Inr q')" "rep q' (ms @ [])" by auto
  moreover from fetch_n_rep [OF this(2)] obtain q'' where
    "fetch_n fetch (length ms) q' = Some (Inr (ms, q''))" "rep q'' []" by auto
  ultimately show ?thesis by blast
qed

end

text \<open>A ring between calls holds the messages of its history that were not fetched.\<close>

definition ring_rep :: "int \<Rightarrow> fifo_ring \<Rightarrow> string list \<Rightarrow> bool" where
  "ring_rep max_size r ms \<longleftrightarrow>
     (\<exists>s. ring s = r \<and> producers s 0 = P_Idle \<and> consumers s 0 = C_Idle \<and>
          ring_inv max_size s \<and> ms = drop (length (fetched s)) (added s))"

lemma ring_rep_lengths:
  assumes "ring_rep max_size r ms"
  shows "length ms = full_sem r" "full_sem r + empty_sem r = nat (ring_size r)"
  using assms by (auto simp: ring_rep_def ring_inv_def ring_tokens_def)

lemma FifoRing_Add_rep:
  assumes rep: "ring_rep max_size r ms" and free: "0 < empty_sem r"
    and fits: "int (length m) \<le> max_size"
  shows "\<exists>r'. FifoRing_Add m r = Some (Inr (int (length m), r')) \<and>
    ring_rep max_size r' (ms @ [m]) \<and> ring_size r' = ring_size r"
proof -
  from rep obtain s where s: "ring s = r" "producers s 0 = P_Idle" "consumers s 0 = C_Idle"
    and inv: "ring_inv max_size s" and ms: "ms = drop (length (fetched s)) (added s)"
    by (auto simp: ring_rep_def)
  define s1 where "s1 = s\<lparr>ring := r\<lparr>empty_sem := empty_sem r - 1\<rparr>,
    producers := (producers s)(0 := P_Waited m)\<rparr>"
  have "ring_step 1 1 max_size s s1"
    using s free fits ring_step.add_wait [of 0 1 s m max_size 1] by (simp add: s1_def)
  then have inv1: "ring_inv max_size s1" using inv by (rule ring_inv_step)
  let ?k = "length (added s)"
  have pp: "take_produce_index (ring s1) =
      Inr (int (?k mod cap s1), (ring s1)\<lparr>produce_point := int (Suc ?k mod cap s1)\<rparr>)"
    using inv1 by (intro take_produce_index_at) (auto simp: ring_inv_def ring_points_def s1_def)
  define s2 where "s2 = s1\<lparr>ring := (ring s1)\<lparr>produce_point := int (Suc ?k mod cap s1)\<rparr>,
    producers := (producers s1)(0 := P_Indexed (int (?k mod cap s1)) m)\<rparr>"
  have "ring_step 1 1 max_size s1 s2"
    using pp ring_step.add_index [of 0 1 s1 m] by (simp add: s1_def s2_def)
  then have inv2: "ring_inv max_size s2" using inv1 by (rule ring_inv_step)
  obtain r3 where wr: "write_slot (int (?k mod cap s1)) m (ring s2) = Inr r3"
    using write_slot_at [of s2 ?k m] inv2 by (simp add: ring_inv_def s2_def)
  define s3 where "s3 = s2\<lparr>ring := r3, producers := (producers s2)(0 := P_Written),
    added := added s2 @ [m]\<rparr>"
  have "ring_step 1 1 max_size s2 s3"
    using wr ring_step.add_write [of 0 1 s2] by (simp add: s2_def s3_def)
  then have inv3: "ring_inv max_size s3" using inv2 by (rule ring_inv_step)
  define s4 where "s4 = s3\<lparr>ring := r3\<lparr>full_sem := full_sem r3 + 1\<rparr>,
    producers := (producers s3)(0 := P_Idle)\<rparr>"
  have "ring_step 1 1 max_size s3 s4"
    using ring_step.add_post [of 0 1 s3] by (simp add: s3_def s4_def)
  then have "ring_inv max_size s4" using inv3 by (rule ring_inv_step)
  moreover have "drop (length (fetched s4)) (added s4) = ms @ [m]"
    using inv ms s by (auto simp: ring_inv_def ring_tokens_def s4_def s3_def s2_def s1_def)
  ultimately have "ring_rep max_size (ring s4) (ms @ [m])"
    unfolding ring_rep_def using s by (intro exI [of _ s4]) (simp add: s4_def s3_def s2_def s1_def)
  moreover have "FifoRing_Add m r = Some (Inr (int (length m), ring s4))"
    using free pp wr s by (simp add: FifoRing_Add_def s4_def s2_def s1_def)
  moreover have "ring_size r3 = ring_size r"
    using wr by (auto simp: write_slot_def s2_def s1_def returns_iff bind_res_def vec_set_def
        split: if_splits)
  ultimately show ?thesis by (auto simp: s4_def)
qed

lemma FifoRing_Fetch_rep:
  assumes rep: "ring_rep max_size r (m # ms)"
  shows "\<exists>r'. FifoRing_Fetch max_size r = Some (Inr (int (length m), m, r')) \<and>
    ring_rep max_size r' ms \<and> ring_size r' = ring_size r"
proof -
  from rep obtain s where s: "ring s = r" "producers s 0 = P_Idle" "consumers s 0 = C_Idle"
    and inv: "ring_inv max_size s" and ms: "m # ms = drop (length (fetched s)) (added s)"
    by (auto simp: ring_rep_def)
  have full: "0 < full_sem r" using ring_rep_lengths [OF rep] by auto
  define s1 where "s1 = s\<lparr>ring := r\<lparr>full_sem := full_sem r - 1\<rparr>,
    consumers := (consumers s)(0 := C_Waited)\<rparr>"
  have "ring_step 1 1 max_size s s1"
    using s full ring_step.fetch_wait [of 0 1 s 1] by (simp add: s1_def)
  then have inv1: "ring_inv max_size s1" using inv by (rule ring_inv_step)
  let ?k = "length (fetched s)"
  have cp: "take_consume_index (ring s1) =
      Inr (int (?k mod cap s1), (ring s1)\<lparr>consume_point := int (Suc ?k mod cap s1)\<rparr>)"
    using inv1 by (intro take_consume_index_at) (auto simp: ring_inv_def ring_points_def s1_def)
  define s2 where "s2 = s1\<lparr>ring := (ring s1)\<lparr>consume_point := int (Suc ?k mod cap s1)\<rparr>,
    consumers := (consumers s1)(0 := C_Indexed (int (?k mod cap s1)))\<rparr>"
  have "ring_step 1 1 max_size s1 s2"
    using cp ring_step.fetch_index [of 0 1 s1] by (simp add: s1_def s2_def)
  then have inv2: "ring_inv max_size s2" using inv1 by (rule ring_inv_step)
  have m: "added s ! ?k = m" "ms = drop (Suc ?k) (added s)"
    using ms by (metis nth_via_drop, metis drop_Suc list.sel(3) tl_drop)
  define r3 where "r3 = (ring s2)\<lparr>ring_slots := (ring_slots (ring s2))[?k mod cap s2 := None]\<rparr>"
  have rd: "read_slot (int (?k mod cap s1)) max_size (ring s2) = Inr (Some m, r3)"
    using indexed_slot_full(2) [OF inv2, of "int (?k mod cap s1)"] m
    by (simp add: s2_def s1_def r3_def)
  define s3 where "s3 = s2\<lparr>ring := r3, consumers := (consumers s2)(0 := C_Copied),
    fetched := fetched s2 @ [m]\<rparr>"
  have "ring_step 1 1 max_size s2 s3"
    using rd ring_step.fetch_copy [of 0 1 s2] by (simp add: s2_def s3_def)
  then have inv3: "ring_inv max_size s3" using inv2 by (rule ring_inv_step)
  define s4 where "s4 = s3\<lparr>ring := r3\<lparr>empty_sem := empty_sem r3 + 1\<rparr>,
    consumers := (consumers s3)(0 := C_Idle)\<rparr>"
  have "ring_step 1 1 max_size s3 s4"
    using ring_step.fetch_post [of 0 1 s3] by (simp add: s3_def s4_def)
  then have "ring_inv max_size s4" using inv3 by (rule ring_inv_step)
  then have "ring_rep max_size (ring s4) ms"
    unfolding ring_rep_def using s m
    by (intro exI [of _ s4]) (simp add: s4_def s3_def s2_def s1_def)
  moreover have "FifoRing_Fetch max_size r = Some (Inr (int (length m), m, ring s4))"
    using full cp rd s by (simp add: FifoRing_Fetch_def s4_def s2_def s1_def)
  moreover have "ring_size r3 = ring_size r" by (simp add: r3_def s2_def s1_def)
  ultimately show ?thesis by (auto simp: s4_def)
qed

interpretation ring: bounded_fifo "ring_rep max_size" "\<lambda>r. nat (ring_size r)"
  "\<lambda>m. int (length m) \<le> max_size" "\<lambda>m. int (length m)" FifoRing_Add
  "FifoRing_Fetch max_size"
proof unfold_locales
  fix q ms and m :: string
  assume rep: "ring_rep max_size q ms" and "length ms = nat (ring_size q)"
  with ring_rep_lengths [OF rep] show "FifoRing_Add m q = None" by (simp add: FifoRing_Add_def)
next
  fix q ms and m :: string
  assume rep: "ring_rep max_size q ms" and "length ms < nat (ring_size q)"
    and "int (length m) \<le> max_size"
  with FifoRing_Add_rep [OF rep, of m] ring_rep_lengths [OF rep]
  show "\<exists>q'. FifoRing_Add m q = Some (Inr (int (length m), q')) \<and>
    ring_rep max_size q' (ms @ [m]) \<and> nat (ring_size q') = nat (ring_size q)" by auto
next
  fix q
  assume "ring_rep max_size q []"
  then show "FifoRing_Fetch max_size q = None"
    using ring_rep_lengths by (fastforce simp: FifoRing_Fetch_def)
next
  fix q m ms
  assume "ring_rep max_size q (m # ms)"
  from FifoRing_Fetch_rep [OF this]
  show "\<exists>q'. FifoRing_Fetch max_size q = Some (Inr (int (length m), m, q')) \<and>
    ring_rep max_size q' ms \<and> nat (ring_size q') = nat (ring_size q)" by auto
qed

lemma FifoRing_Initialize_rep:
  assumes "FifoRing_Initialize heap heap_sizes rsize = Inr r" "in_i32 (rsize + 1)"
  shows "ring_rep max_size r []"
proof -
  let ?s = "\<lparr> ring = r, producers = (\<lambda>_. P_Idle), consumers = (\<lambda>_. C_Idle),
    added = [], fetched = [] \<rparr>"
  have "ring_init ?s" using assms by (auto simp: ring_init_def)
  then have "ring_inv max_size ?s" by (rule ring_inv_init)
  then show ?thesis unfolding ring_rep_def by (intro exI [of _ ?s]) simp
qed

section \<open>Properties\<close>

text \<open>
  C12: with one producing and one consuming thread, in every reachable interleaving, what was
  fetched is exactly the beginning of what was added, in the same order and unchanged, and at
  most as many messages as the ring has slots are waiting.
\<close>

theorem ring_is_fifo:
  assumes "reach ring_init (ring_step 1 1 max_size) s"
  shows "fetched s = take (length (fetched s)) (added s) \<and>
    length (fetched s) \<le> length (added s) \<and>
    length (added s) \<le> length (fetched s) + nat (ring_size (ring s))"
  using spsc.reach_invar [OF assms]
  by (simp add: ring_inv_def ring_tokens_def ring_content_def)

text \<open>An initial state of a ring of two slots, for the witnesses.\<close>

definition ring2 :: ring_sys where
  "ring2 = \<lparr> ring = \<lparr> ring_size = 2, ring_slots = [None, None], data_sizes = [0, 0],
     produce_point = 0, consume_point = 0, empty_sem = 2, full_sem = 0 \<rparr>,
     producers = (\<lambda>_. P_Idle), consumers = (\<lambda>_. C_Idle), added = [], fetched = [] \<rparr>"

lemma FifoRing_Initialize_2:
  "FifoRing_Initialize (\<lambda>_. None) (\<lambda>_. 0) 2 = Inr (ring ring2)"
  by (simp add: FifoRing_Initialize_def ring2_def upt_rec)

lemma ring_init_ring2: "ring_init ring2"
proof -
  have "in_i32 (2 + 1) \<and> FifoRing_Initialize (\<lambda>_. None) (\<lambda>_. 0) 2 = Inr (ring ring2)"
    by (simp add: FifoRing_Initialize_2 in_i32_iff)
  then have "\<exists>heap heap_sizes rsize. in_i32 (rsize + 1) \<and>
    FifoRing_Initialize heap heap_sizes rsize = Inr (ring ring2)" by blast
  then show ?thesis unfolding ring_init_def by (simp add: ring2_def)
qed

lemma reach_ring2: "reach ring_init (ring_step np nc max_size) ring2"
  by (rule reach_init) (rule ring_init_ring2)

text \<open>The same ring after one whole call of \<open>Add\<close>.\<close>

definition ring2_added :: ring_sys where
  "ring2_added = ring2\<lparr>ring := \<lparr> ring_size = 2, ring_slots = [Some ''a'', None],
     data_sizes = [1, 0], produce_point = 1, consume_point = 0, empty_sem = 1, full_sem = 1 \<rparr>,
     added := [''a'']\<rparr>"

lemma reach_ring2_added: "reach ring_init (ring_step 1 1 8) ring2_added"
proof -
  let ?S = "ring_step 1 1 8"
  let ?s1 = "ring2\<lparr>ring := (ring ring2)\<lparr>empty_sem := 1\<rparr>,
    producers := (producers ring2)(0 := P_Waited ''a'')\<rparr>"
  let ?s2 = "?s1\<lparr>ring := (ring ?s1)\<lparr>produce_point := 1\<rparr>,
    producers := (producers ?s1)(0 := P_Indexed 0 ''a'')\<rparr>"
  let ?s3 = "?s2\<lparr>ring := (ring ?s2)\<lparr>ring_slots := [Some ''a'', None], data_sizes := [1, 0]\<rparr>,
    producers := (producers ?s2)(0 := P_Written), added := added ?s2 @ [''a'']\<rparr>"
  have 1: "?S ring2 ?s1"
    using ring_step.add_wait [of 0 1 ring2 "''a''" 8 1] by (simp add: ring2_def)
  have 2: "?S ?s1 ?s2"
    by (rule ring_step.add_index)
      (simp_all add: ring2_def take_produce_index_def i32_def i32_rem_def in_i32_iff smod_nonneg)
  have 3: "?S ?s2 ?s3"
    by (rule ring_step.add_write [where index = 0])
      (simp_all add: ring2_def write_slot_def vec_set_def)
  have 4: "?S ?s3 ring2_added"
    using ring_step.add_post [of 0 1 ?s3]
    by (simp add: ring2_def ring2_added_def fun_upd_def cong: if_cong)
  show ?thesis
    by (rule reach_step, rule reach_step, rule reach_step, rule reach_step)
      (rule reach_ring2 1 2 3 4)+
qed

theorem ring_is_fifo_witness:
  "length (added ring2_added) = 1 \<and> length (added ring2_added) \<le> length (fetched ring2_added) + 2"
  using ring_is_fifo [OF reach_ring2_added] by (simp add: ring2_def ring2_added_def)

text \<open>
  C27: with one producing and one consuming thread no part of a call ever faults: an index is
  always taken, a slot is always written inside the arrays, and a consumer that took an index
  always finds a message there, the oldest one not yet fetched, which fits its buffer.
\<close>

theorem ring_calls_never_fault:
  assumes "reach ring_init (ring_step 1 1 max_size) s"
  shows "(\<forall>msg. producers s 0 = P_Waited msg \<longrightarrow> (\<exists>x. take_produce_index (ring s) = Inr x)) \<and>
    (\<forall>i msg. producers s 0 = P_Indexed i msg \<longrightarrow> (\<exists>r. write_slot i msg (ring s) = Inr r)) \<and>
    (consumers s 0 = C_Waited \<longrightarrow> (\<exists>x. take_consume_index (ring s) = Inr x)) \<and>
    (\<forall>i. consumers s 0 = C_Indexed i \<longrightarrow>
       (\<exists>r. read_slot i max_size (ring s) = Inr (Some (added s ! length (fetched s)), r)))"
proof -
  have inv: "ring_inv max_size s" by (rule spsc.reach_invar [OF assms])
  then have shape: "ring_shape s" and points: "ring_points s" by (simp_all add: ring_inv_def)
  then show ?thesis
    using take_produce_index_at [OF shape, of "length (added s)"]
      take_consume_index_at [OF shape, of "length (fetched s)"]
      write_slot_at [OF shape, of "length (added s)"] indexed_slot_full(2) [OF inv]
    by (auto simp: ring_points_def)
qed

theorem ring_calls_never_fault_witness:
  "\<exists>s. reach ring_init (ring_step 1 1 8) s \<and> producers s 0 = P_Waited ''a'' \<and>
       (\<exists>x. take_produce_index (ring s) = Inr x)"
proof -
  let ?s = "ring2\<lparr>ring := (ring ring2)\<lparr>empty_sem := 1\<rparr>,
    producers := (producers ring2)(0 := P_Waited ''a'')\<rparr>"
  have "ring_step 1 1 8 ring2 ?s"
    using ring_step.add_wait [of 0 1 ring2 "''a''" 8 1] by (simp add: ring2_def)
  then have "reach ring_init (ring_step 1 1 8) ?s"
    by (rule reach_step [OF reach_ring2])
  moreover from ring_calls_never_fault [OF this] have "\<exists>x. take_produce_index (ring ?s) = Inr x"
    by simp
  ultimately show ?thesis by (intro exI [of _ ?s]) simp
qed

text \<open>
  C28: with one producing and one consuming thread the ring never deadlocks: in every reachable
  state one of the two threads can take its next step.
\<close>

theorem ring_no_deadlock:
  assumes "reach ring_init (ring_step 1 1 max_size) s" "0 \<le> max_size"
  shows "\<exists>t. ring_step 1 1 max_size s t"
proof -
  have inv: "ring_inv max_size s" by (rule spsc.reach_invar [OF assms(1)])
  then have shape: "ring_shape s" and points: "ring_points s" and tokens: "ring_tokens s"
    by (simp_all add: ring_inv_def)
  note parts = take_produce_index_at [OF shape, of "length (added s)"]
    take_consume_index_at [OF shape, of "length (fetched s)"]
    write_slot_at [OF shape, of "length (added s)"] indexed_slot_full(2) [OF inv]
  show ?thesis
  proof (cases "producers s 0")
    case P_Idle
    show ?thesis
    proof (cases "consumers s 0")
      case C_Idle
      with P_Idle tokens shape have "0 < empty_sem (ring s) \<or> 0 < full_sem (ring s)"
        by (auto simp: ring_tokens_def ring_shape_def)
      with P_Idle C_Idle assms(2) show ?thesis
        using ring_step.add_wait [of 0 1 s "[]" max_size 1] ring_step.fetch_wait [of 0 1 s]
        by fastforce
    next
      case (C_Indexed i)
      then show ?thesis using parts(4) ring_step.fetch_copy [of 0 1 s] by fastforce
    next
      case C_Waited
      with points parts(2) show ?thesis
        using ring_step.fetch_index [of 0 1 s] by (fastforce simp: ring_points_def)
    next
      case C_Copied
      then show ?thesis using ring_step.fetch_post [of 0 1 s] by fastforce
    qed
  next
    case (P_Waited m)
    with points parts(1) show ?thesis
      using ring_step.add_index [of 0 1 s] by (fastforce simp: ring_points_def)
  next
    case (P_Indexed i m)
    with points parts(3) show ?thesis
      using ring_step.add_write [of 0 1 s] by (fastforce simp: ring_points_def)
  next
    case P_Written
    then show ?thesis using ring_step.add_post [of 0 1 s] by fastforce
  qed
qed

theorem ring_no_deadlock_witness: "\<exists>t. ring_step 1 1 8 ring2_added t"
  using ring_no_deadlock [OF reach_ring2_added] by simp

text \<open>
  Any sequence of messages that fits the ring, added call by call to a freshly initialised
  ring, is fetched back call by call in the same order and unchanged, and leaves the ring empty.
\<close>

lemma ring_roundtrip:
  assumes "FifoRing_Initialize heap heap_sizes rsize = Inr r" "in_i32 (rsize + 1)"
    and "length ms \<le> nat rsize" "\<forall>m \<in> set ms. int (length m) \<le> max_size"
  shows "\<exists>r' r''. add_all FifoRing_Add ms r = Some (Inr r') \<and>
    fetch_n (FifoRing_Fetch max_size) (length ms) r' = Some (Inr (ms, r'')) \<and> full_sem r'' = 0"
proof -
  have "ring_size r = rsize"
    using assms(1) by (auto simp: FifoRing_Initialize_def split: if_splits)
  then obtain r' r'' where "add_all FifoRing_Add ms r = Some (Inr r')"
    "fetch_n (FifoRing_Fetch max_size) (length ms) r' = Some (Inr (ms, r''))"
    "ring_rep max_size r'' []"
    using assms ring.add_all_then_fetch_n [OF FifoRing_Initialize_rep [OF assms(1,2)], of ms max_size]
    by auto
  with ring_rep_lengths(1) show ?thesis by fastforce
qed

section \<open>Two producers\<close>

text \<open>The state of a ring of two slots in the middle of the calls of two producers.\<close>

definition two_producers :: "fifo_ring \<Rightarrow> producer_pc \<Rightarrow> producer_pc \<Rightarrow> consumer_pc \<Rightarrow>
    string list \<Rightarrow> ring_sys" where
  "two_producers r p0 p1 c a =
     ring2\<lparr>ring := r, producers := (\<lambda>_. P_Idle)(0 := p0, 1 := p1),
       consumers := (\<lambda>_. C_Idle)(0 := c), added := a\<rparr>"

text \<open>
  C40: the ring is not safe for two producing threads. One producer takes index 0 and is
  preempted; the other takes index 1, writes and posts; the consumer, woken by that post, takes
  index 0 and finds the null pointer there, although a message was added and none was fetched.
\<close>

theorem two_producers_unwritten_slot:
  "\<exists>s. reach ring_init (ring_step 2 1 8) s \<and> added s = [''b''] \<and> fetched s = [] \<and>
       consumers s 0 = C_Indexed 0 \<and> read_slot 0 8 (ring s) = Inr (None, ring s)"
proof -
  let ?S = "ring_step 2 1 8" and ?tp = "two_producers"
  let ?r = "\<lambda>pp cp e f sl sz. \<lparr> ring_size = 2, ring_slots = sl, data_sizes = sz,
    produce_point = pp, consume_point = cp, empty_sem = e, full_sem = f \<rparr>"
  let ?i = "P_Idle" and ?N = "[None, None]" and ?Z = "[0, 0]"
  let ?w = "[None, Some ''b'']" and ?z = "[0, 1]" and ?p = "P_Indexed 0 ''a''"
  have twist: "f(0 := x, Suc 0 := y) = f(Suc 0 := y, 0 := x)" for f :: "nat \<Rightarrow> producer_pc" and x y
    by (simp add: fun_upd_twist)
  note calc = two_producers_def ring2_def twist
  note eval = take_produce_index_def take_consume_index_def i32_def i32_rem_def in_i32_iff
    smod_nonneg write_slot_def vec_set_def
  let ?sz = "?tp (?r 0 0 2 0 ?N ?Z) ?i ?i C_Idle []"
  let ?s1 = "?tp (?r 0 0 1 0 ?N ?Z) (P_Waited ''a'') ?i C_Idle []"
  let ?s2 = "?tp (?r 1 0 1 0 ?N ?Z) ?p ?i C_Idle []"
  let ?s3 = "?tp (?r 1 0 0 0 ?N ?Z) ?p (P_Waited ''b'') C_Idle []"
  let ?s4 = "?tp (?r 0 0 0 0 ?N ?Z) ?p (P_Indexed 1 ''b'') C_Idle []"
  let ?s5 = "?tp (?r 0 0 0 0 ?w ?z) ?p P_Written C_Idle [''b'']"
  let ?s6 = "?tp (?r 0 0 0 1 ?w ?z) ?p ?i C_Idle [''b'']"
  let ?s7 = "?tp (?r 0 0 0 0 ?w ?z) ?p ?i C_Waited [''b'']"
  let ?s8 = "?tp (?r 0 1 0 0 ?w ?z) ?p ?i (C_Indexed 0) [''b'']"
  have "?sz = ring2" by (simp add: calc fun_eq_iff)
  then have 0: "reach ring_init ?S ?sz" by (simp add: reach_ring2)
  have 1: "?S ?sz ?s1"
    using ring_step.add_wait [of 0 2 ?sz "''a''" 8 1] by (simp add: calc)
  have 2: "?S ?s1 ?s2"
    using ring_step.add_index [of 0 2 ?s1 "''a''" 0 "?r 1 0 1 0 ?N ?Z"] by (simp add: calc eval)
  have 3: "?S ?s2 ?s3"
    using ring_step.add_wait [of 1 2 ?s2 "''b''" 8 1] by (simp add: calc)
  have 4: "?S ?s3 ?s4"
    using ring_step.add_index [of 1 2 ?s3 "''b''" 1 "?r 0 0 0 0 ?N ?Z"] by (simp add: calc eval)
  have 5: "?S ?s4 ?s5"
    using ring_step.add_write [of 1 2 ?s4 1 "''b''" "?r 0 0 0 0 ?w ?z"] by (simp add: calc eval)
  have 6: "?S ?s5 ?s6"
    using ring_step.add_post [of 1 2 ?s5] by (simp add: calc)
  have 7: "?S ?s6 ?s7"
    using ring_step.fetch_wait [of 0 1 ?s6] by (simp add: calc)
  have 8: "?S ?s7 ?s8"
    using ring_step.fetch_index [of 0 1 ?s7 0 "?r 0 1 0 0 ?w ?z"] by (simp add: calc eval)
  have "reach ring_init ?S ?s8"
    by (rule reach_step, rule reach_step, rule reach_step, rule reach_step,
        rule reach_step, rule reach_step, rule reach_step, rule reach_step)
      (rule 0 1 2 3 4 5 6 7 8)+
  then show ?thesis
    by (rule exI [where x = ?s8, OF conjI]) (simp add: calc read_slot_def)
qed

end
