(* ===== verification/Communicator.thy ===== *)
theory Communicator
  imports Fifo_Ring
begin

text \<open>
  The classes \<open>ZmqSendRecv\<close> (\<open>src/communication/zmq_sendrecv.cc\<close>) and
  \<open>ZmqCommunicator\<close> (\<open>src/communication/zmq_communicator.cc\<close>).

  A sending communicator frames a message with the decimal identifier of its destination,
  puts the frame into its ring, and its thread (\<open>Consume\<close>) takes the frame out, recovers
  identifier and message, looks the address up and hands the message to the socket of that
  address. A receiving communicator's thread (\<open>Produce\<close>) puts what arrives into the ring,
  from which \<open>Receive\<close> takes it. What the ZeroMQ library returns (the pointer of a new
  socket, the result of \<open>zmq_close\<close>, the bytes of \<open>zmq_recv\<close>) is an argument. Each turn of these
  threads is taken as a whole; the sharing of their static buffers between communicators of one
  process is not modelled.
\<close>

section \<open>Decimal numbers as printf and scanf write and read them\<close>

definition digit_char :: "nat \<Rightarrow> char" where
  "digit_char d = char_of (48 + d)"

definition is_digit :: "char \<Rightarrow> bool" where
  "is_digit c \<longleftrightarrow> 48 \<le> (of_char c :: nat) \<and> (of_char c :: nat) \<le> 57"

definition is_space :: "char \<Rightarrow> bool" where
  "is_space c \<longleftrightarrow> (of_char c :: nat) \<in> {9, 10, 11, 12, 13, 32}"

fun show_nat :: "nat \<Rightarrow> string" where
  "show_nat n = (if n < 10 then [digit_char n] else show_nat (n div 10) @ [digit_char (n mod 10)])"

declare show_nat.simps [simp del]

text \<open>\<open>%d\<close> of \<open>printf\<close>\<close>

definition show_int :: "int \<Rightarrow> string" where
  "show_int i = (if i < 0 then CHR ''-'' # show_nat (nat (- i)) else show_nat (nat i))"

fun read_digits :: "nat \<Rightarrow> string \<Rightarrow> nat" where
  "read_digits acc [] = acc"
| "read_digits acc (c # cs) =
     (if is_digit c then read_digits (10 * acc + (of_char c - 48)) cs else acc)"

text \<open>
  \<open>%d\<close> of \<open>sscanf\<close>: white space, an optional sign, the longest run of digits. \<open>None\<close>
  when nothing matches and the variable keeps its value; a value outside \<open>int\<close> is undefined.
\<close>

definition scan_unsigned :: "string \<Rightarrow> nat option" where
  "scan_unsigned s =
     (case s of [] \<Rightarrow> None | c # _ \<Rightarrow> if is_digit c then Some (read_digits 0 s) else None)"

definition scan_int :: "string \<Rightarrow> int option" where
  "scan_int s =
     (case dropWhile is_space s of
        [] \<Rightarrow> None
      | c # cs \<Rightarrow>
          if c = CHR ''-'' then map_option (\<lambda>n. - int n) (scan_unsigned cs)
          else if c = CHR ''+'' then map_option int (scan_unsigned cs)
          else map_option int (scan_unsigned (c # cs)))"

section \<open>ZmqSendRecv\<close>

text \<open>A socket: the pointer \<open>zmq_socket\<close> returned and the endpoint it is connected to.\<close>

datatype socket = Socket (sock_handle: int) (sock_endpoint: string)

record zmq_sendrecv =
  is_sender :: bool
  sr_listen_port :: int
  sendrecv :: "socket option"
  num_senders :: int
  mapper :: "string \<rightharpoonup> socket"

text \<open>What \<open>snprintf\<close> leaves in a buffer of \<open>size\<close> characters: one is for the final 0.\<close>

definition snprintf :: "nat \<Rightarrow> string \<Rightarrow> string" where
  "snprintf bytes s = take (bytes - 1) s"

definition ZmqSendRecv_Initialize :: "int \<Rightarrow> bool \<Rightarrow> int \<Rightarrow> zmq_sendrecv \<Rightarrow> zmq_sendrecv" where
  "ZmqSendRecv_Initialize handle sender port sr =
     (let sr1 = sr\<lparr>is_sender := sender, sr_listen_port := port\<rparr> in
      if sender then sr1\<lparr>num_senders := 0\<rparr>
      else sr1\<lparr>sendrecv := Some (Socket handle (snprintf 16 (''tcp://*:'' @ show_int port)))\<rparr>)"

definition ZmqSendRecv_Finalize :: "zmq_sendrecv \<Rightarrow> zmq_sendrecv" where
  "ZmqSendRecv_Finalize sr =
     (if is_sender sr then sr\<lparr>mapper := Map.empty\<rparr> else sr\<lparr>sendrecv := None\<rparr>)"

text \<open>
  \<open>Send\<close>: reuse the socket of the address or open one (\<open>handle\<close> is the pointer that
  \<open>zmq_socket\<close> returns), then send. The result is the new state, what goes out and on which
  endpoint, and the returned length.
\<close>

definition ZmqSendRecv_Send ::
    "int \<Rightarrow> string \<Rightarrow> string \<Rightarrow> zmq_sendrecv \<Rightarrow> zmq_sendrecv \<times> (string \<times> string) \<times> int" where
  "ZmqSendRecv_Send handle dst_addr msg sr =
     (case mapper sr dst_addr of
        None \<Rightarrow>
          let s = Socket handle (snprintf 32 (''tcp://'' @ dst_addr)) in
          (sr\<lparr>mapper := (mapper sr)(dst_addr \<mapsto> s), sendrecv := Some s\<rparr>,
           (sock_endpoint s, msg), int (length msg))
      | Some s \<Rightarrow> (sr\<lparr>sendrecv := Some s\<rparr>, (sock_endpoint s, msg), int (length msg)))"

text \<open>
  \<open>Receive\<close>: \<open>zmq_recv\<close> gives the length of the arrived message, which may exceed the
  buffer, or -1; then \<open>message[msg_size] = 0\<close> is written in either case.
\<close>

definition ZmqSendRecv_Receive :: "int \<Rightarrow> string option \<Rightarrow> string res" where
  "ZmqSendRecv_Receive max_size arrived =
     (case arrived of
        None \<Rightarrow> Inl OutOfBounds
      | Some bytes \<Rightarrow> if int (length bytes) < max_size then Inr bytes else Inl OutOfBounds)"

definition CloseSocket :: "(socket \<Rightarrow> int) \<Rightarrow> string \<Rightarrow> zmq_sendrecv \<Rightarrow> int \<times> zmq_sendrecv" where
  "CloseSocket zmq_close dst_addr sr =
     (case mapper sr dst_addr of
        None \<Rightarrow> (-1, sr)
      | Some s \<Rightarrow> (zmq_close s, sr\<lparr>mapper := (mapper sr)(dst_addr := None)\<rparr>))"

section \<open>ZmqCommunicator\<close>

record zmq_communicator =
  buffer_size :: int
  comm_ring :: fifo_ring
  send_recv :: zmq_sendrecv
  id_to_addr :: "int \<rightharpoonup> string"

definition ZmqCommunicator_Initialize ::
    "(nat \<Rightarrow> string option) \<Rightarrow> (nat \<Rightarrow> int) \<Rightarrow> int \<Rightarrow> int \<Rightarrow> bool \<Rightarrow> int \<Rightarrow> int \<Rightarrow>
     zmq_communicator \<Rightarrow> zmq_communicator res" where
  "ZmqCommunicator_Initialize heap heap_sizes handle rsize sender port bsize c =
     bind_res (FifoRing_Initialize heap heap_sizes rsize) (\<lambda>r.
       Inr (c\<lparr>comm_ring := r, buffer_size := bsize,
              send_recv := ZmqSendRecv_Initialize handle sender port (send_recv c)\<rparr>))"

text \<open>The frame that \<open>Send\<close> builds in a buffer of \<open>buffer_size_\<close> bytes.\<close>

definition frame_message :: "int \<Rightarrow> int \<Rightarrow> string \<Rightarrow> string res" where
  "frame_message bsize dst_id msg =
     (if bsize < 1 then Inl OutOfBounds
      else let prefix = snprintf (nat bsize) (show_int dst_id @ '','') in
        if bsize < int (length prefix + length msg) then Inl OutOfBounds
        else Inr (prefix @ msg))"

definition ZmqCommunicator_Send ::
    "int \<Rightarrow> string \<Rightarrow> zmq_communicator \<Rightarrow> (int \<times> zmq_communicator) res option" where
  "ZmqCommunicator_Send dst_id msg c =
     (case frame_message (buffer_size c) dst_id msg of
        Inl e \<Rightarrow> Some (Inl e)
      | Inr frame \<Rightarrow>
          map_option (\<lambda>m. bind_res m (\<lambda>(_, r). Inr (int (length frame), c\<lparr>comm_ring := r\<rparr>)))
            (FifoRing_Add frame (comm_ring c)))"

definition ZmqCommunicator_Receive ::
    "zmq_communicator \<Rightarrow> (int \<times> string \<times> zmq_communicator) res option" where
  "ZmqCommunicator_Receive c =
     map_option (\<lambda>m. bind_res m (\<lambda>(len, bytes, r).
         if len < 0 then Inl LengthError else Inr (len, bytes, c\<lparr>comm_ring := r\<rparr>)))
       (FifoRing_Fetch (buffer_size c) (comm_ring c))"

text \<open>
  One turn of the loop of \<open>Produce\<close>. The buffer and the length of this loop are static variables of the
  function, so all receiving communicators of a process share them; the turn is that of a process in
  which only one thread runs \<open>Produce\<close> at a time. In the agents and servers, which have a second
  receiver for heartbeats, two turns that overlap can mix the messages of both.
\<close>

definition Produce_turn ::
    "string option \<Rightarrow> zmq_communicator \<Rightarrow> zmq_communicator res option" where
  "Produce_turn arrived c =
     (case ZmqSendRecv_Receive (buffer_size c) arrived of
        Inl e \<Rightarrow> Some (Inl e)
      | Inr bytes \<Rightarrow>
          map_option (\<lambda>m. bind_res m (\<lambda>(_, r). Inr (c\<lparr>comm_ring := r\<rparr>)))
            (FifoRing_Add bytes (comm_ring c)))"

text \<open>
  The variables of \<open>Consume\<close>: two buffers of \<open>buffer_size_\<close> characters that keep what a
  turn does not overwrite, the length and the destination.
\<close>

record consume_vars =
  mix_message :: string
  message_buf :: string
  msg_len :: int
  dst_id_var :: int

definition overwrite :: "string \<Rightarrow> string \<Rightarrow> string" where
  "overwrite bytes buf = bytes @ drop (length bytes) buf"

text \<open>
  The first of the 12 leading characters that is a comma; \<open>None\<close> when the loop ends
  without one.
\<close>

definition comma_index :: "string \<Rightarrow> nat option" where
  "comma_index buf = find (\<lambda>i. buf ! i = CHR '','') [0..<min 12 (length buf)]"

text \<open>Recover destination and message from the frame in \<open>mix_message\<close>.\<close>

definition Consume_decode :: "consume_vars \<Rightarrow> consume_vars res" where
  "Consume_decode v =
     bind_res (case scan_int (mix_message v) of Some i \<Rightarrow> i32 i | None \<Rightarrow> Inr (dst_id_var v))
       (\<lambda>dst. let buf = mix_message v; v1 = v\<lparr>dst_id_var := dst\<rparr> in
        case comma_index buf of
          None \<Rightarrow> if length buf < 12 then Inl OutOfBounds else Inr v1
        | Some i \<Rightarrow>
            let len = msg_len v - int i - 1 in
            if len < 0 \<or> int (length buf) < int i + 1 + len \<or> int (length (message_buf v)) < len
            then Inl OutOfBounds
            else Inr (v1\<lparr>msg_len := len,
                   message_buf := overwrite (take (nat len) (drop (i + 1) buf)) (message_buf v)\<rparr>))"

text \<open>
  One turn of the loop of \<open>Consume\<close>. The result carries what is sent and on which endpoint;
  nothing when the destination has no address.
\<close>

definition Consume_turn ::
    "int \<Rightarrow> consume_vars \<Rightarrow> zmq_communicator \<Rightarrow>
     (consume_vars \<times> zmq_communicator \<times> (string \<times> string) list) res option" where
  "Consume_turn handle v c =
     map_option (\<lambda>m. bind_res m (\<lambda>(len, bytes, r).
         bind_res (Consume_decode (v\<lparr>mix_message := overwrite bytes (mix_message v), msg_len := len\<rparr>))
           (\<lambda>v1. case id_to_addr c (dst_id_var v1) of
              None \<Rightarrow> Inr (v1, c\<lparr>comm_ring := r\<rparr>, [])
            | Some addr \<Rightarrow>
                (case ZmqSendRecv_Send handle addr (take (nat (msg_len v1)) (message_buf v1)) (send_recv c)
                 of (sr, out, _) \<Rightarrow> Inr (v1, c\<lparr>comm_ring := r, send_recv := sr\<rparr>, [out])))))
       (FifoRing_Fetch (buffer_size c) (comm_ring c))"

definition AddIdAddr :: "int \<Rightarrow> string \<Rightarrow> zmq_communicator \<Rightarrow> bool \<times> zmq_communicator" where
  "AddIdAddr i addr c =
     (if id_to_addr c i \<noteq> None then (False, c)
      else (True, c\<lparr>id_to_addr := (id_to_addr c)(i \<mapsto> addr)\<rparr>))"

definition DeleteId :: "(socket \<Rightarrow> int) \<Rightarrow> int \<Rightarrow> zmq_communicator \<Rightarrow> bool \<times> zmq_communicator" where
  "DeleteId zmq_close i c =
     (case id_to_addr c i of
        None \<Rightarrow> (False, c)
      | Some addr \<Rightarrow>
          (case CloseSocket zmq_close addr (send_recv c) of
             (rc, sr) \<Rightarrow> (rc = 0, c\<lparr>send_recv := sr, id_to_addr := (id_to_addr c)(i := None)\<rparr>)))"

definition CheckIdAddr :: "int \<Rightarrow> string \<Rightarrow> zmq_communicator \<Rightarrow> bool" where
  "CheckIdAddr i addr c =
     (case id_to_addr c i of None \<Rightarrow> False | Some a \<Rightarrow> a = addr)"

text \<open>
  The loop with which \<open>Server::Reconfigure\<close> and \<open>Agent::Reconfigurate\<close> bring the
  addresses up to date: the address at position \<open>i\<close> is that of node \<open>i\<close>.
\<close>

definition refresh_addr ::
    "(socket \<Rightarrow> int) \<Rightarrow> int \<times> string \<Rightarrow> zmq_communicator \<Rightarrow> zmq_communicator" where
  "refresh_addr zmq_close x c =
     (case x of (i, addr) \<Rightarrow>
        if CheckIdAddr i addr c then c
        else snd (AddIdAddr i addr (snd (DeleteId zmq_close i c))))"

definition refresh_addrs ::
    "(socket \<Rightarrow> int) \<Rightarrow> string list \<Rightarrow> zmq_communicator \<Rightarrow> zmq_communicator" where
  "refresh_addrs zmq_close addrs c =
     fold (refresh_addr zmq_close) (zip (map int [0..<length addrs]) addrs) c"

section \<open>The address book\<close>

text \<open>
  What the abstract class \<open>Communicator\<close> (\<open>src/communication/communicator.h\<close>) promises
  about the addresses of nodes.
\<close>

locale address_book =
  fixes addr_of :: "'c \<Rightarrow> int \<Rightarrow> string option"
    and add_id :: "int \<Rightarrow> string \<Rightarrow> 'c \<Rightarrow> 'c"
    and delete_id :: "int \<Rightarrow> 'c \<Rightarrow> 'c"
    and check_id :: "int \<Rightarrow> string \<Rightarrow> 'c \<Rightarrow> bool"
  assumes addr_of_add: "addr_of (add_id i a c) j =
      (if j = i \<and> addr_of c i = None then Some a else addr_of c j)"
    and addr_of_delete: "addr_of (delete_id i c) j = (if j = i then None else addr_of c j)"
    and check_id: "check_id i a c \<longleftrightarrow> addr_of c i = Some a"
begin

definition set_addr :: "int \<times> string \<Rightarrow> 'c \<Rightarrow> 'c" where
  "set_addr x c = (case x of (i, a) \<Rightarrow>
     if check_id i a c then c else add_id i a (delete_id i c))"

lemma addr_of_set_addr: "addr_of (set_addr (i, a) c) = (addr_of c)(i \<mapsto> a)"
  by (rule ext) (simp add: set_addr_def check_id addr_of_add addr_of_delete)

lemma addr_of_fold_set_addr:
  "distinct (map fst xs) \<Longrightarrow> addr_of (fold set_addr xs c) = addr_of c ++ map_of xs"
proof (induction xs arbitrary: c)
  case (Cons x xs)
  obtain i a where x: "x = (i, a)" by force
  from Cons.prems x have "map_of xs i = None" by (simp add: map_of_eq_None_iff)
  with Cons x show ?case by (auto simp: addr_of_set_addr map_add_def split: option.split)
qed simp

end

interpretation zmq: address_book id_to_addr "\<lambda>i a c. snd (AddIdAddr i a c)"
  "\<lambda>i c. snd (DeleteId zmq_close i c)" CheckIdAddr
  rewrites "address_book.set_addr (\<lambda>i a c. snd (AddIdAddr i a c))
      (\<lambda>i c. snd (DeleteId zmq_close i c)) CheckIdAddr = refresh_addr zmq_close"
proof -
  show ab: "address_book id_to_addr (\<lambda>i a c. snd (AddIdAddr i a c))
      (\<lambda>i c. snd (DeleteId zmq_close i c)) CheckIdAddr"
    by unfold_locales
      (auto simp: AddIdAddr_def DeleteId_def CheckIdAddr_def CloseSocket_def
        split: option.split prod.split)
  show "address_book.set_addr (\<lambda>i a c. snd (AddIdAddr i a c))
      (\<lambda>i c. snd (DeleteId zmq_close i c)) CheckIdAddr = refresh_addr zmq_close"
    by (rule ext)+ (simp add: address_book.set_addr_def [OF ab] refresh_addr_def)
qed

lemma map_of_zip_upto:
  "map_of (zip (map int [0..<length xs]) xs) i =
     (if 0 \<le> i \<and> i < int (length xs) then Some (xs ! nat i) else None)"
proof (cases "0 \<le> i \<and> i < int (length xs)")
  case True
  then have "(i, xs ! nat i) \<in> set (zip (map int [0..<length xs]) xs)"
    by (auto simp: set_zip intro!: exI [of _ "nat i"])
  then show ?thesis using True by (simp add: map_of_is_SomeI distinct_map)
next
  case False
  then show ?thesis by (auto simp: map_of_eq_None_iff dest!: set_zip_leftD)
qed

text \<open>
  After the refresh loop of a reconfiguration, every node of the new configuration has
  exactly its new address, and every other identifier keeps the address it had.
\<close>

lemma refresh_addrs_addresses:
  "id_to_addr (refresh_addrs zmq_close addrs c) i =
     (if 0 \<le> i \<and> i < int (length addrs) then Some (addrs ! nat i) else id_to_addr c i)"
proof -
  have "distinct (map fst (zip (map int [0..<length addrs]) addrs))"
    by (simp add: distinct_map)
  then show ?thesis
    unfolding refresh_addrs_def
    by (simp add: zmq.addr_of_fold_set_addr map_add_def map_of_zip_upto)
qed

section \<open>Frames\<close>

lemma of_char_digit_char: "d < 10 \<Longrightarrow> of_char (digit_char d) = 48 + d"
  by (simp add: digit_char_def)

lemma is_digit_digit_char: "d < 10 \<Longrightarrow> is_digit (digit_char d)"
  by (simp add: is_digit_def of_char_digit_char)

lemma show_nat_digits: "\<forall>c \<in> set (show_nat n). is_digit c"
proof (induction n rule: show_nat.induct)
  case (1 n)
  then show ?case
    by (subst show_nat.simps) (auto simp: is_digit_digit_char)
qed

lemma show_nat_not_Nil: "show_nat n \<noteq> []"
  by (subst show_nat.simps) simp

lemma length_show_nat: "n < 10 ^ k \<Longrightarrow> 0 < k \<Longrightarrow> length (show_nat n) \<le> k"
proof (induction n arbitrary: k rule: show_nat.induct)
  case (1 n)
  show ?case
  proof (cases "n < 10")
    case True
    with "1.prems" show ?thesis by (subst show_nat.simps) simp
  next
    case False
    then obtain j where j: "k = Suc j" "0 < j" using "1.prems" by (cases k) (auto, cases "k - 1", auto)
    with "1.prems" have "n div 10 < 10 ^ j" by (simp add: less_mult_imp_div_less mult.commute)
    with "1.IH" [OF False] j False show ?thesis by (subst show_nat.simps) simp
  qed
qed

lemma read_digits_append:
  "\<forall>c \<in> set ds. is_digit c \<Longrightarrow> read_digits acc (ds @ rest) = read_digits (read_digits acc ds) rest"
  by (induction ds arbitrary: acc) auto

lemma read_digits_show_nat: "read_digits 0 (show_nat n) = n"
proof (induction n rule: show_nat.induct)
  case (1 n)
  show ?case
  proof (cases "n < 10")
    case True
    then show ?thesis
      by (subst show_nat.simps) (simp add: is_digit_digit_char of_char_digit_char)
  next
    case False
    with "1.IH" [OF False] show ?thesis
      by (subst show_nat.simps)
        (simp add: read_digits_append show_nat_digits is_digit_digit_char of_char_digit_char)
  qed
qed

lemma is_digit_not:
  "is_digit c \<Longrightarrow> c \<noteq> CHR '','' \<and> c \<noteq> CHR ''-'' \<and> c \<noteq> CHR ''+'' \<and> \<not> is_space c"
  by (auto simp: is_digit_def is_space_def)

lemma scan_unsigned_show_nat:
  assumes "rest = [] \<or> \<not> is_digit (hd rest)"
  shows "scan_unsigned (show_nat n @ rest) = Some n"
proof -
  have "is_digit (hd (show_nat n))"
    using show_nat_digits [of n] show_nat_not_Nil [of n] by simp
  moreover have "read_digits m rest = m" for m using assms by (cases rest) auto
  ultimately show ?thesis
    using read_digits_append [OF show_nat_digits, of 0 n rest]
      read_digits_show_nat [of n] show_nat_not_Nil [of n]
    by (cases "show_nat n") (auto simp: scan_unsigned_def)
qed

lemma scan_int_show_int:
  assumes "rest = [] \<or> \<not> is_digit (hd rest)"
  shows "scan_int (show_int i @ rest) = Some i"
proof (cases "i < 0")
  case True
  then show ?thesis
    using scan_unsigned_show_nat [OF assms, of "nat (- i)"]
    by (simp add: scan_int_def show_int_def is_space_def)
next
  case False
  obtain c cs where c: "show_nat (nat i) = c # cs" using show_nat_not_Nil by (metis neq_Nil_conv)
  then have "is_digit c" using show_nat_digits [of "nat i"] by simp
  then have "\<not> is_space c" "c \<noteq> CHR ''-''" "c \<noteq> CHR ''+''" using is_digit_not by auto
  with False c show ?thesis
    using scan_unsigned_show_nat [OF assms, of "nat i"] by (simp add: scan_int_def show_int_def)
qed

lemma show_int_chars: "c \<in> set (show_int i) \<Longrightarrow> is_digit c \<or> c = CHR ''-''"
  using show_nat_digits by (auto simp: show_int_def split: if_splits)

lemma show_int_no_comma: "CHR '','' \<notin> set (show_int i)"
  using show_nat_digits is_digit_not unfolding show_int_def by (auto; blast)

text \<open>The decimal form of an \<open>int32\<close> has at most 11 characters, so the comma is the 12th at most.\<close>

lemma length_show_int:
  assumes "in_i32 i"
  shows "length (show_int i) \<le> 11"
proof -
  from assms have "nat (- i) < 10 ^ 10" "nat i < 10 ^ 10" by (auto simp: in_i32_iff)
  then have "length (show_nat (nat (- i))) \<le> 10" "length (show_nat (nat i)) \<le> 10"
    by (auto intro: length_show_nat)
  then show ?thesis by (simp add: show_int_def)
qed

lemma comma_index_frame:
  assumes "CHR '','' \<notin> set p" "length p \<le> 11"
  shows "comma_index (p @ CHR '','' # rest) = Some (length p)"
proof -
  have "\<forall>i < length p. p ! i \<noteq> CHR '',''" using assms(1) by (metis nth_mem)
  with assms(2) show ?thesis
    by (auto simp: comma_index_def find_Some_iff nth_append intro!: exI [of _ "length p"])
qed

lemma frame_message_ok:
  assumes "in_i32 dst" "13 \<le> bsize" "int (length (show_int dst) + 1 + length msg) \<le> bsize"
  shows "frame_message bsize dst msg = Inr (show_int dst @ CHR '','' # msg)"
proof -
  have "snprintf (nat bsize) (show_int dst @ '','') = show_int dst @ '',''"
    using assms(2) length_show_int [OF assms(1)] by (simp add: snprintf_def)
  with assms show ?thesis by (simp add: frame_message_def)
qed

lemma Consume_decode_frame:
  assumes dst: "in_i32 dst" and v: "length (mix_message v) = nat bsize"
    "length (message_buf v) = nat bsize"
    and fits: "int (length (show_int dst) + 1 + length msg) \<le> bsize"
    and mix: "mix_message v = (show_int dst @ CHR '','' # msg) @ rest"
    and len: "msg_len v = int (length (show_int dst @ CHR '','' # msg))"
  shows "Consume_decode v = Inr (v\<lparr>dst_id_var := dst, msg_len := int (length msg),
    message_buf := overwrite msg (message_buf v)\<rparr>)"
proof -
  have "scan_int (mix_message v) = Some dst"
    using scan_int_show_int by (simp add: mix is_digit_def)
  moreover have "comma_index (mix_message v) = Some (length (show_int dst))"
    using comma_index_frame [OF show_int_no_comma length_show_int [OF dst]] by (simp add: mix)
  ultimately show ?thesis
    using dst fits v len by (simp add: Consume_decode_def Let_def mix)
qed

section \<open>A message from Send to the socket\<close>

definition wf_consume_vars :: "zmq_communicator \<Rightarrow> consume_vars \<Rightarrow> bool" where
  "wf_consume_vars c v \<longleftrightarrow>
     length (mix_message v) = nat (buffer_size c) \<and> length (message_buf v) = nat (buffer_size c)"

text \<open>The socket kept for an address is connected to that address.\<close>

definition wf_mapper :: "zmq_sendrecv \<Rightarrow> bool" where
  "wf_mapper sr \<longleftrightarrow>
     (\<forall>addr s. mapper sr addr = Some s \<longrightarrow> sock_endpoint s = snprintf 32 (''tcp://'' @ addr))"

lemma ZmqSendRecv_Send_endpoint:
  assumes "wf_mapper sr"
  shows "\<exists>sr'. ZmqSendRecv_Send handle addr msg sr =
    (sr', (snprintf 32 (''tcp://'' @ addr), msg), int (length msg)) \<and> wf_mapper sr'"
  using assms by (auto simp: ZmqSendRecv_Send_def wf_mapper_def Let_def split: option.split)

lemma CloseSocket_wf_mapper: "wf_mapper sr \<Longrightarrow> wf_mapper (snd (CloseSocket zmq_close addr sr))"
  by (auto simp: CloseSocket_def wf_mapper_def split: option.split)

lemma Send_rep:
  assumes "ring_rep (buffer_size c) (comm_ring c) frames"
    and "length frames < nat (ring_size (comm_ring c))" "in_i32 dst" "13 \<le> buffer_size c"
    and "int (length (show_int dst) + 1 + length msg) \<le> buffer_size c"
  shows "\<exists>r. ZmqCommunicator_Send dst msg c =
      Some (Inr (int (length (show_int dst) + 1 + length msg), c\<lparr>comm_ring := r\<rparr>)) \<and>
    ring_rep (buffer_size c) r (frames @ [show_int dst @ CHR '','' # msg])"
  using ring.add_free [OF assms(1,2), of "show_int dst @ CHR '','' # msg"]
    frame_message_ok [OF assms(3-5)] assms(5)
  by (auto simp: ZmqCommunicator_Send_def)

lemma Consume_rep:
  assumes rep: "ring_rep (buffer_size c) (comm_ring c) ((show_int dst @ CHR '','' # msg) # frames)"
    and v: "wf_consume_vars c v" and dst: "in_i32 dst"
    and fits: "int (length (show_int dst) + 1 + length msg) \<le> buffer_size c"
    and addr: "id_to_addr c dst = Some addr" and wf: "wf_mapper (send_recv c)"
  shows "\<exists>v2 c2. Consume_turn handle v c =
      Some (Inr (v2, c2, [(snprintf 32 (''tcp://'' @ addr), msg)])) \<and>
    ring_rep (buffer_size c) (comm_ring c2) frames \<and> wf_consume_vars c2 v2 \<and>
    wf_mapper (send_recv c2)"
proof -
  let ?f = "show_int dst @ CHR '','' # msg"
  from ring.fetch_cons [OF rep] obtain r where
    r: "FifoRing_Fetch (buffer_size c) (comm_ring c) = Some (Inr (int (length ?f), ?f, r))"
      "ring_rep (buffer_size c) r frames" by auto
  define v1 where "v1 = v\<lparr>mix_message := overwrite ?f (mix_message v), msg_len := int (length ?f)\<rparr>"
  define v2 where "v2 = v1\<lparr>dst_id_var := dst, msg_len := int (length msg),
    message_buf := overwrite msg (message_buf v1)\<rparr>"
  have len: "length (overwrite ?f (mix_message v)) = nat (buffer_size c)"
    "length (overwrite msg (message_buf v)) = nat (buffer_size c)"
    using v fits by (auto simp: overwrite_def wf_consume_vars_def)
  have "Consume_decode v1 = Inr v2" unfolding v2_def
    by (rule Consume_decode_frame [OF dst, where rest = "drop (length ?f) (mix_message v)"])
      (use len v fits in \<open>simp_all add: v1_def overwrite_def wf_consume_vars_def\<close>)
  moreover from ZmqSendRecv_Send_endpoint [OF wf, of handle addr msg] obtain sr where
    "ZmqSendRecv_Send handle addr msg (send_recv c) =
       (sr, (snprintf 32 (''tcp://'' @ addr), msg), int (length msg))" "wf_mapper sr"
    by blast
  ultimately show ?thesis using r addr len
    by (auto simp: Consume_turn_def v1_def v2_def wf_consume_vars_def overwrite_def)
qed

text \<open>
  C29: on a sender whose ring is empty, \<open>Send\<close> of a message that leaves room for the
  identifier returns the length of the frame, and the next turn of the sending thread hands
  exactly this message to a socket connected to the address registered for that identifier,
  for every \<open>int32\<close> identifier, whatever the buffers of the thread held before.
\<close>

theorem Send_then_Consume:
  assumes "ring_rep (buffer_size c) (comm_ring c) []" "wf_consume_vars c v"
    and "wf_mapper (send_recv c)" "in_i32 dst" "13 \<le> buffer_size c"
    and "int (length (show_int dst) + 1 + length msg) \<le> buffer_size c"
    and "id_to_addr c dst = Some addr" "0 < ring_size (comm_ring c)"
  shows "\<exists>c1 c2 v2. ZmqCommunicator_Send dst msg c =
       Some (Inr (int (length (show_int dst) + 1 + length msg), c1)) \<and>
     Consume_turn handle v c1 =
       Some (Inr (v2, c2, [(snprintf 32 (''tcp://'' @ addr), msg)])) \<and>
     ring_rep (buffer_size c) (comm_ring c2) []"
proof -
  from Send_rep [OF assms(1) _ assms(4-6)] assms(8) obtain r where
    r: "ZmqCommunicator_Send dst msg c =
      Some (Inr (int (length (show_int dst) + 1 + length msg), c\<lparr>comm_ring := r\<rparr>))"
      "ring_rep (buffer_size c) r [show_int dst @ CHR '','' # msg]" by auto
  from Consume_rep [of "c\<lparr>comm_ring := r\<rparr>" dst msg "[]" v addr handle] r assms show ?thesis
    by (auto simp: wf_consume_vars_def)
qed

definition example_comm :: zmq_communicator where
  "example_comm = \<lparr> buffer_size = 16, comm_ring = ring ring2,
     send_recv = \<lparr> is_sender = True, sr_listen_port = 1024, sendrecv = None, num_senders = 0,
       mapper = Map.empty \<rparr>,
     id_to_addr = [-2147483648 \<mapsto> ''127.0.0.1:5000''] \<rparr>"

theorem Send_then_Consume_witness:
  "\<exists>c1 c2 v2. ZmqCommunicator_Send (-2147483648) ''abc'' example_comm = Some (Inr (15, c1)) \<and>
     Consume_turn 7 \<lparr> mix_message = replicate 16 CHR ''x'', message_buf = replicate 16 CHR '','',
         msg_len = 3, dst_id_var = 9 \<rparr> c1 =
       Some (Inr (v2, c2, [(''tcp://127.0.0.1:5000'', ''abc'')]))"
proof -
  have rep: "ring_rep (buffer_size example_comm) (comm_ring example_comm) []"
    using FifoRing_Initialize_rep [OF FifoRing_Initialize_2]
    by (simp add: example_comm_def in_i32_iff)
  have len: "length (show_int (-2147483648)) = 11"
    by (simp add: show_int_def show_nat.simps)
  show ?thesis
    using Send_then_Consume [OF rep, where dst = "-2147483648" and msg = "''abc''" and handle = 7
        and addr = "''127.0.0.1:5000''"
        and v = "\<lparr> mix_message = replicate 16 CHR ''x'', message_buf = replicate 16 CHR '','',
                   msg_len = 3, dst_id_var = 9 \<rparr>"] len
    by (simp add: example_comm_def wf_consume_vars_def wf_mapper_def in_i32_iff ring2_def
        snprintf_def) blast
qed

end
