(* ===== verification/Server.thy ===== *)
theory Server
  imports Messages Key_Lists Communicator
begin

text \<open>
  The parameter server (\<open>src/server/server.h\<close>, \<open>src/server/server.cc\<close>): its state as a
  record with the fields of the class, and one definition per member function.

  A handler takes the state and returns the new state together with the messages it hands to
  \<open>sender_->Send\<close>, in order. \<open>ZmqCommunicator::Send\<close> never returns -1, so the branches
  that log a failed send do not exist in the result. Log output is left out. The values of the
  parameters and their arithmetic are the type \<open>'v\<close> and the operations \<open>F\<close>.
\<close>

record 'v server =
  local_address :: string
  local_index :: int
  local_id :: int
  start_key :: int
  parameter_length :: int
  consistency_bound :: int
  bottom_version :: int
  agent_num :: int
  server_num :: int
  key_range :: int
  backup_size :: int
  master_ids :: "int list"
  server_ids :: "int list"
  servers :: "int \<rightharpoonup> int"
  agent_ids :: "int list"
  parameters :: "'v list"
  backup_parameters :: "'v list list"
  version_buffer :: "'v KeyValueList list list"
  finish_count :: "int list"
  pull_request :: "PullInfo list"
  id_to_index :: "int \<rightharpoonup> int"
  sender :: zmq_communicator

text \<open>\<open>std::vector<float>(n)\<close>\<close>

definition zero_vector :: "'v fops \<Rightarrow> int \<Rightarrow> 'v list res" where
  "zero_vector F n = (if n < 0 then Inl LengthError else Inr (replicate (nat n) (fzero F)))"

section \<open>Replies\<close>

definition key_value_message :: "int \<Rightarrow> int \<Rightarrow> int list \<Rightarrow> 'v list \<Rightarrow> 'v Message" where
  "key_value_message from to ks vs = new_Message\<lparr>send_id := from, recv_id := to,
     message_type := Message_MessageType_request,
     request_msg := Some \<lparr> request_type = RequestType_key_value, rq_keys = ks, rq_values = vs \<rparr>\<rparr>"

text \<open>The body of the loop of \<open>RespondToAll\<close>: the reply to one blocked request.\<close>

definition respond_blocked :: "'v server \<Rightarrow> PullInfo \<Rightarrow> (int \<times> 'v Message) res" where
  "respond_blocked st req =
     bind_res (map_res (\<lambda>i.
         bind_res (PullInfo_Key req i) (\<lambda>k.
         bind_res (i32 (k - start_key st)) (\<lambda>index.
         bind_res (vec_get (parameters st) index) (\<lambda>v. Inr (k, v)))))
       [0..PullInfo_Length req - 1])
     (\<lambda>kvs. Inr (get_id req,
        key_value_message (local_id st) (get_id req) (map fst kvs) (map snd kvs)))"

definition RespondToAll :: "'v server \<Rightarrow> ('v server \<times> 'v outgoing) res" where
  "RespondToAll st =
     bind_res (map_res (respond_blocked st) (pull_request st)) (\<lambda>out.
       Inr (st\<lparr>pull_request := []\<rparr>, out))"

section \<open>Merging a round of updates\<close>

text \<open>Add one agent's pairs to the update vector.\<close>

definition accumulate :: "'v fops \<Rightarrow> int \<Rightarrow> 'v KeyValueList \<Rightarrow> 'v list \<Rightarrow> 'v list res" where
  "accumulate F start l upd =
     fold_res (\<lambda>j u.
       bind_res (KeyValueList_Key l j) (\<lambda>k.
       bind_res (i32 (k - start)) (\<lambda>index.
       bind_res (KeyValueList_Value l j) (\<lambda>v.
       bind_res (vec_get u index) (\<lambda>x. vec_set u index (fadd F x v))))))
     [0..KeyValueList_Length l - 1] upd"

definition merge_agent ::
    "'v fops \<Rightarrow> int \<Rightarrow> int \<Rightarrow> 'v KeyValueList list list \<times> 'v list \<Rightarrow>
     ('v KeyValueList list list \<times> 'v list) res" where
  "merge_agent F start i x =
     (case x of (vb, upd) \<Rightarrow>
        bind_res (vec_get vb i) (\<lambda>q.
        bind_res (queue_front q) (\<lambda>l.
        bind_res (vec_set vb i (tl q)) (\<lambda>vb'.
        bind_res (accumulate F start l upd) (\<lambda>upd'. Inr (vb', upd'))))))"

definition apply_update :: "'v fops \<Rightarrow> int \<Rightarrow> 'v list \<Rightarrow> int \<Rightarrow> 'v list \<Rightarrow> 'v list res" where
  "apply_update F n upd i ps =
     bind_res (vec_get ps i) (\<lambda>p.
     bind_res (vec_get upd i) (\<lambda>u. vec_set ps i (fadd F p (fdiv F u (fof_int F n)))))"

definition UpdateParameter :: "'v fops \<Rightarrow> 'v server \<Rightarrow> 'v server res" where
  "UpdateParameter F st =
     bind_res (zero_vector F (parameter_length st)) (\<lambda>upd0.
     bind_res (fold_res (merge_agent F (start_key st)) [0..agent_num st - 1]
        (version_buffer st, upd0)) (\<lambda>(vb, upd).
     bind_res (fold_res (apply_update F (agent_num st) upd) [0..parameter_length st - 1]
        (parameters st)) (\<lambda>ps.
     bind_res (i32 (bottom_version st + 1)) (\<lambda>v.
       Inr (st\<lparr>version_buffer := vb, parameters := ps, bottom_version := v\<rparr>)))))"

section \<open>Backups\<close>

text \<open>Ask the \<open>backup_size\<close> preceding servers on the ring for their parameters.\<close>

definition RequestBackup :: "'v server \<Rightarrow> 'v outgoing res" where
  "RequestBackup st =
     map_res (\<lambda>i.
       bind_res (i32 (local_index st - i)) (\<lambda>d.
       bind_res (i32 (d + server_num st)) (\<lambda>e.
       bind_res (i32_rem e (server_num st)) (\<lambda>target.
       bind_res (vec_get (server_ids st) target) (\<lambda>sid.
         Inr (sid, new_Message\<lparr>send_id := local_id st, recv_id := sid,
                     message_type := Message_MessageType_request\<rparr>))))))
     [1..backup_size st]"

definition Backup :: "'v Message \<Rightarrow> 'v server \<Rightarrow> 'v server res" where
  "Backup msg st =
     (case map_at (servers st) (send_id msg) of (pos, servers') \<Rightarrow>
        let st1 = st\<lparr>servers := servers'\<rparr>; request = the_request_msg msg in
        bind_res (i32 (local_index st1 - 1)) (\<lambda>a.
        bind_res (i32 (a - pos)) (\<lambda>b.
        bind_res (i32 (b + server_num st1)) (\<lambda>c.
        bind_res (i32_rem c (server_num st1)) (\<lambda>server_index.
        bind_res (vec_get (backup_parameters st1) server_index) (\<lambda>_.
        bind_res (vec_set (backup_parameters st1) server_index (rq_values request)) (\<lambda>bp.
          Inr (st1\<lparr>backup_parameters := bp\<rparr>))))))))"

definition RespondBackup :: "int \<Rightarrow> 'v server \<Rightarrow> 'v outgoing res" where
  "RespondBackup server_id st =
     bind_res (map_res (\<lambda>i.
         bind_res (i32 (start_key st + i)) (\<lambda>k.
         bind_res (vec_get (parameters st) i) (\<lambda>v. Inr (k, v))))
       [0..parameter_length st - 1])
     (\<lambda>kvs. Inr [(server_id,
        key_value_message (local_id st) server_id (map fst kvs) (map snd kvs))])"

text \<open>The loop of \<open>ExtendParameter\<close>, over the remaining indices.\<close>

fun extend_loop :: "int list \<Rightarrow> 'v server \<Rightarrow> 'v server res" where
  "extend_loop [] st = Inr st"
| "extend_loop (i # is) st =
     (if int (length (parameters st)) = size_t_of_int (parameter_length st) then Inr st
      else bind_res (vec_get (backup_parameters st) i) (\<lambda>b.
        extend_loop is (st\<lparr>parameters := b @ parameters st\<rparr>)))"

definition ExtendParameter :: "'v server \<Rightarrow> 'v server res" where
  "ExtendParameter st = extend_loop [0..backup_size st - 1] st"

section \<open>Push and pull requests\<close>

text \<open>The pairs of a push request, as \<open>ServePush\<close> copies them.\<close>

definition push_list :: "'v RequestMessage \<Rightarrow> 'v KeyValueList res" where
  "push_list request =
     fold_res (\<lambda>i l.
       bind_res (vec_get (rq_keys request) i) (\<lambda>k.
       bind_res (vec_get (rq_values request) i) (\<lambda>v. AddPair k v l)))
     [0..int (length (rq_keys request)) - 1] new_KeyValueList"

text \<open>Queue the update of the agent at \<open>index\<close>, unless its buffer is full.\<close>

definition enqueue_push :: "int \<Rightarrow> 'v RequestMessage \<Rightarrow> 'v server \<Rightarrow> 'v server res" where
  "enqueue_push index request st =
     bind_res (vec_get (version_buffer st) index) (\<lambda>q.
       if size_t_of_int (consistency_bound st) \<le> int (length q) then Inr st
       else
         bind_res (vec_get (finish_count st) (int (length q))) (\<lambda>n.
         bind_res (i32 (n + 1)) (\<lambda>n'.
         bind_res (vec_set (finish_count st) (int (length q)) n') (\<lambda>fc.
         bind_res (push_list request) (\<lambda>l.
         bind_res (vec_set (version_buffer st) index (q @ [l])) (\<lambda>vb.
           Inr (st\<lparr>finish_count := fc, version_buffer := vb\<rparr>)))))))"

text \<open>The end of \<open>ServePush\<close>: when every agent has finished the bottom version.\<close>

definition finish_round :: "'v fops \<Rightarrow> 'v server \<Rightarrow> ('v server \<times> 'v outgoing) res" where
  "finish_round F st =
     bind_res (vec_get (finish_count st) 0) (\<lambda>n.
       if n = agent_num st then
         bind_res (UpdateParameter F (st\<lparr>finish_count := tl (finish_count st) @ [0]\<rparr>)) (\<lambda>st1.
         bind_res (RespondToAll st1) (\<lambda>(st2, out).
         bind_res (RequestBackup st2) (\<lambda>requests. Inr (st2, out @ requests))))
       else Inr (st, []))"

definition ServePush ::
    "'v fops \<Rightarrow> int \<Rightarrow> 'v RequestMessage \<Rightarrow> 'v server \<Rightarrow> ('v server \<times> 'v outgoing) res" where
  "ServePush F sender_id request st =
     (if sender_id \<notin> set (agent_ids st) then Inr (st, [])
      else case map_at (id_to_index st) sender_id of (index, m) \<Rightarrow>
        bind_res (enqueue_push index request (st\<lparr>id_to_index := m\<rparr>)) (finish_round F))"

definition ServePull ::
    "int \<Rightarrow> 'v RequestMessage \<Rightarrow> 'v server \<Rightarrow> ('v server \<times> 'v outgoing) res" where
  "ServePull sender_id request st =
     (case id_to_index st sender_id of
        None \<Rightarrow> Inr (st, [])
      | Some index \<Rightarrow>
          bind_res (vec_get (version_buffer st) index) (\<lambda>q.
            if size_t_of_int (consistency_bound st) \<le> int (length q) then
              bind_res (fold_res AddKey (rq_keys request) (set_id sender_id new_PullInfo)) (\<lambda>p.
                Inr (st\<lparr>pull_request := pull_request st @ [p]\<rparr>, []))
            else
              bind_res (map_res (\<lambda>k.
                  bind_res (i32 (k - start_key st)) (\<lambda>d.
                  bind_res (if d < 0 then i32 (d + key_range st) else Inr d) (\<lambda>i.
                    vec_get (parameters st) i)))
                (rq_keys request)) (\<lambda>vs.
              Inr (st, [(sender_id,
                key_value_message (local_id st) sender_id (rq_keys request) vs)]))))"

section \<open>Configuration\<close>

text \<open>The number of keys of server \<open>i\<close>: the distance to the next hash value on the ring.\<close>

definition range_length :: "ConfigMessage \<Rightarrow> int \<Rightarrow> int \<Rightarrow> int \<Rightarrow> int res" where
  "range_length cfg kr n i =
     bind_res (i32 (i + 1)) (\<lambda>i1.
     bind_res (i32_rem i1 n) (\<lambda>j.
     bind_res (vec_get (cf_partition cfg) j) (\<lambda>b.
     bind_res (vec_get (cf_partition cfg) i) (\<lambda>a.
     bind_res (i32 (b - a)) (\<lambda>d.
     bind_res (i32 (d + kr)) (\<lambda>e. i32_rem e kr))))))"

text \<open>One pass of the loop over the servers; the flag says whether this server was found.\<close>

definition add_server :: "ConfigMessage \<Rightarrow> int \<Rightarrow> 'v server \<times> bool \<Rightarrow> ('v server \<times> bool) res" where
  "add_server cfg i x =
     (case x of (st, found) \<Rightarrow>
        bind_res (vec_get (cf_server_id cfg) i) (\<lambda>sid.
        let st1 = st\<lparr>server_ids := server_ids st @ [sid], servers := map_insert sid i (servers st)\<rparr> in
        if sid = local_id st1 then
          bind_res (vec_get (cf_partition cfg) i) (\<lambda>start.
          bind_res (range_length cfg (key_range st1) (server_num st1) i) (\<lambda>len.
            Inr (st1\<lparr>local_index := i, start_key := start, parameter_length := len\<rparr>, True)))
        else Inr (st1, found)))"

text \<open>The backup vectors of the \<open>backup_size\<close> servers before server \<open>i\<close>.\<close>

definition init_backups :: "'v fops \<Rightarrow> ConfigMessage \<Rightarrow> int \<Rightarrow> 'v server \<Rightarrow> 'v server res" where
  "init_backups F cfg i st =
     bind_res (map_res (\<lambda>j.
         bind_res (i32 (i - j)) (\<lambda>d.
         bind_res (i32 (d + server_num st)) (\<lambda>e.
         bind_res (i32_rem e (server_num st)) (\<lambda>target.
         bind_res (range_length cfg (key_range st) (server_num st) target) (zero_vector F)))))
       [1..backup_size st])
     (\<lambda>bs. Inr (st\<lparr>backup_parameters := backup_parameters st @ bs\<rparr>))"

definition add_server_init ::
    "'v fops \<Rightarrow> ConfigMessage \<Rightarrow> int \<Rightarrow> 'v server \<times> bool \<Rightarrow> ('v server \<times> bool) res" where
  "add_server_init F cfg i x =
     bind_res (vec_get (cf_server_id cfg) i) (\<lambda>sid.
     bind_res (add_server cfg i x) (\<lambda>(st1, found).
       if sid = local_id st1 then bind_res (init_backups F cfg i st1) (\<lambda>st2. Inr (st2, found))
       else Inr (st1, found)))"

text \<open>
  The part of \<open>Initialize\<close> after the configuration message \<open>m\<close> has arrived; the flag is
  the returned value.
\<close>

definition configure :: "'v fops \<Rightarrow> 'v Message \<Rightarrow> 'v server \<Rightarrow> (bool \<times> 'v server) res" where
  "configure F m st =
     (let cfg = the_config_msg m;
          addrs = cf_node_ip_port cfg;
          st1 = st\<lparr>local_id := recv_id m, bottom_version := 0, consistency_bound := cf_bound cfg,
                   agent_num := cf_worker_num cfg, server_num := cf_server_num cfg,
                   sender := fold (\<lambda>i c. snd (AddIdAddr i (addrs ! nat i) c))
                     [1..int (length addrs) - 1] (sender st),
                   backup_size := cf_backup_size cfg\<rparr> in
      if backup_size st1 < 0 \<or> server_num st1 \<le> backup_size st1 then Inr (False, st1)
      else
        bind_res (fold_res (add_server_init F cfg) [0..server_num st1 - 1]
          (st1\<lparr>key_range := cf_key_range cfg\<rparr>, False)) (\<lambda>(st2, found).
        if \<not> found then Inr (False, st2)
        else
          bind_res (map_res (vec_get (cf_worker_id cfg)) [0..agent_num st2 - 1]) (\<lambda>ws.
            Inr (True, st2\<lparr>
              agent_ids := fold set_insert (cf_worker_id cfg) (agent_ids st2),
              master_ids := master_ids st2 @ cf_master_id cfg,
              id_to_index := id_to_index st2 ++ map_of (rev (zip ws [0..agent_num st2 - 1])),
              parameters := parameters st2 @ replicate (nat (parameter_length st2)) (fzero F),
              finish_count := finish_count st2 @ replicate (nat (consistency_bound st2)) 0,
              version_buffer := version_buffer st2 @ replicate (nat (agent_num st2)) []\<rparr>))))"

text \<open>
  \<open>Initialize\<close>: \<open>ip\<close> is what \<open>GetIP\<close> found, empty when nothing; \<open>received\<close> is the
  message parsed from \<open>receiver_->Receive\<close>, \<open>None\<close> when that returned -1.
\<close>

definition Server_Initialize ::
    "'v fops \<Rightarrow> string \<Rightarrow> int \<Rightarrow> string \<Rightarrow> 'v Message option \<Rightarrow> 'v server \<Rightarrow>
     (bool \<times> 'v server \<times> 'v outgoing) res" where
  "Server_Initialize F ip port master_ip_port received st =
     (let st1 = st\<lparr>sender := snd (AddIdAddr 0 master_ip_port (sender st))\<rparr> in
      if ip = [] then Inr (False, st1, [])
      else
        let st2 = st1\<lparr>local_address := ip\<rparr>;
            reg = new_Message\<lparr>message_type := Message_MessageType_register, recv_id := 0,
              send_id := -1,
              register_msg := Some \<lparr> rg_ip = ip, rg_port = port, rg_is_server = True \<rparr>\<rparr> in
        case received of
          None \<Rightarrow> Inr (False, st2, [(0, reg)])
        | Some m \<Rightarrow> bind_res (configure F m st2) (\<lambda>(ok, st3). Inr (ok, st3, [(0, reg)])))"

section \<open>Reconfiguration\<close>

text \<open>Forget an agent that the new configuration does not name.\<close>

definition drop_agent :: "int list \<Rightarrow> int \<Rightarrow> 'v server \<Rightarrow> 'v server res" where
  "drop_agent worker_id aid st =
     (if aid \<in> set worker_id then Inr st
      else case map_at (id_to_index st) aid of (index, m) \<Rightarrow>
        bind_res (vec_get (version_buffer st) index) (\<lambda>q.
        bind_res (fold_res (\<lambda>i fc. bind_res (vec_get fc i) (\<lambda>n.
              bind_res (i32 (n - 1)) (vec_set fc i)))
            [0..int (length q) - 1] (finish_count st)) (\<lambda>fc.
        bind_res (vec_set (version_buffer st) index []) (\<lambda>vb.
          Inr (st\<lparr>finish_count := fc, version_buffer := vb, id_to_index := m(aid := None)\<rparr>)))))"

text \<open>Give an agent without a buffer a new one.\<close>

definition add_agent :: "int list \<Rightarrow> int \<Rightarrow> 'v server \<Rightarrow> 'v server res" where
  "add_agent worker_id i st =
     bind_res (vec_get worker_id i) (\<lambda>w.
       if id_to_index st w = None
       then Inr (st\<lparr>id_to_index := (id_to_index st)(w \<mapsto> int (length (version_buffer st))),
                    version_buffer := version_buffer st @ [[]]\<rparr>)
       else Inr st)"

definition Reconfigure ::
    "(socket \<Rightarrow> int) \<Rightarrow> ConfigMessage \<Rightarrow> 'v server \<Rightarrow> ('v server \<times> 'v outgoing) res" where
  "Reconfigure zmq_close cfg st =
     bind_res (RespondToAll st) (\<lambda>(st1, out).
     bind_res (fold_res (add_server cfg) [0..cf_server_num cfg - 1]
        (st1\<lparr>server_num := cf_server_num cfg, key_range := cf_key_range cfg,
             server_ids := [], servers := Map.empty\<rparr>, False)) (\<lambda>(st2, found).
     if \<not> found then Inr (st2, out)
     else
       let st3 = st2\<lparr>sender := refresh_addrs zmq_close (cf_node_ip_port cfg) (sender st2),
                    master_ids := cf_master_id cfg\<rparr> in
       bind_res (fold_res (drop_agent (cf_worker_id cfg)) (agent_ids st3) st3) (\<lambda>st4.
       bind_res (fold_res (add_agent (cf_worker_id cfg)) [0..agent_num st4 - 1]
          (st4\<lparr>agent_ids := fold set_insert (cf_worker_id cfg) []\<rparr>)) (\<lambda>st5.
       bind_res (ExtendParameter st5) (\<lambda>st6.
         Inr (st6\<lparr>agent_num := cf_worker_num cfg\<rparr>, out))))))"

section \<open>The receiving loop and the heartbeat thread\<close>

text \<open>One turn of the loop of \<open>Start\<close>, on the parsed message.\<close>

definition Start_turn ::
    "'v fops \<Rightarrow> (socket \<Rightarrow> int) \<Rightarrow> 'v Message \<Rightarrow> 'v server \<Rightarrow> ('v server \<times> 'v outgoing) res" where
  "Start_turn F zmq_close msg st =
     (if servers st (send_id msg) \<noteq> None then
        (if request_msg msg \<noteq> None then bind_res (Backup msg st) (\<lambda>st'. Inr (st', []))
         else bind_res (RespondBackup (send_id msg) st) (\<lambda>out. Inr (st, out)))
      else if message_type msg = Message_MessageType_request then
        (case request_type (the_request_msg msg) of
           RequestType_key_value \<Rightarrow> ServePush F (send_id msg) (the_request_msg msg) st
         | RequestType_key \<Rightarrow> ServePull (send_id msg) (the_request_msg msg) st
         | _ \<Rightarrow> Inr (st, []))
      else if message_type msg = Message_MessageType_config then
        Reconfigure zmq_close (the_config_msg msg) st
      else Inr (st, []))"

text \<open>One turn of the loop of \<open>HeartBeat\<close>: the answer to a live check.\<close>

definition Server_HeartBeat_turn :: "'v Message \<Rightarrow> 'v server \<Rightarrow> 'v outgoing" where
  "Server_HeartBeat_turn recv_msg st =
     [(0, new_Message\<lparr>message_type := Message_MessageType_heartbeat, send_id := local_id st,
           recv_id := send_id recv_msg,
           heartbeat_msg := Some (default_HeartbeatMessage\<lparr>hb_is_live := True\<rparr>)\<rparr>)]"

end
