(* ===== verification/Server_Round.thy ===== *)
theory Server_Round
  imports Server
begin

text \<open>
  What the loops of the parameter server compute. Each operation of \<open>Server\<close> is shown to
  finish without a fault, under the bounds it needs, with the value of a loop-free definition:
  \<open>contrib\<close> adds the pairs of one update to a vector, \<open>apply_round\<close> is one round of
  averaging, \<open>pull_reply\<close> the answer to a pull request.
\<close>

section \<open>Loop-free definitions\<close>

text \<open>The keys of a server whose range does not wrap around the ring.\<close>

definition in_range :: "'v server \<Rightarrow> int \<Rightarrow> bool" where
  "in_range st k \<longleftrightarrow> start_key st \<le> k \<and> k < start_key st + parameter_length st"

lemma in_range_update [simp]:
  "in_range (st\<lparr>pull_request := a\<rparr>) = in_range st"
  "in_range (st\<lparr>backup_parameters := b\<rparr>) = in_range st"
  "in_range (st\<lparr>parameters := c\<rparr>) = in_range st"
  "in_range (st\<lparr>bottom_version := v\<rparr>) = in_range st"
  by (simp_all add: in_range_def fun_eq_iff)

definition contrib :: "'v fops \<Rightarrow> int \<Rightarrow> (int \<times> 'v) list \<Rightarrow> 'v list \<Rightarrow> 'v list" where
  "contrib F start xs upd =
     fold (\<lambda>(k, v) u. u[nat (k - start) := fadd F (u ! nat (k - start)) v]) xs upd"

definition round_update :: "'v fops \<Rightarrow> int \<Rightarrow> nat \<Rightarrow> (int \<times> 'v) list list \<Rightarrow> 'v list" where
  "round_update F start len xss = fold (contrib F start) xss (replicate len (fzero F))"

definition apply_round :: "'v fops \<Rightarrow> int \<Rightarrow> (int \<times> 'v) list list \<Rightarrow> 'v list \<Rightarrow> 'v list" where
  "apply_round F start xss ps =
     map2 (\<lambda>p u. fadd F p (fdiv F u (fof_int F (int (length xss))))) ps
       (round_update F start (length ps) xss)"

definition pull_reply :: "'v server \<Rightarrow> int \<Rightarrow> int list \<Rightarrow> int \<times> 'v Message" where
  "pull_reply st to ks =
     (to, key_value_message (local_id st) to ks (map (\<lambda>k. parameters st ! nat (k - start_key st)) ks))"

lemma length_contrib [simp]: "length (contrib F start xs upd) = length upd"
  unfolding contrib_def by (induction xs arbitrary: upd) (auto split: prod.split)

lemma length_fold_contrib: "length (fold (contrib F start) xss u) = length u"
  by (induction xss arbitrary: u) auto

lemma length_round_update [simp]: "length (round_update F start len xss) = len"
  by (simp add: round_update_def length_fold_contrib)

lemma length_apply_round [simp]: "length (apply_round F start xss ps) = length ps"
  by (simp add: apply_round_def)

text \<open>
  The update vector key by key: position \<open>i\<close> holds the sum, in the order of arrival, of the
  values that the pairs give the key \<open>start + i\<close>.
\<close>

lemma nth_contrib:
  assumes "i < length upd" "\<forall>x\<in>set xs. start \<le> fst x"
  shows "contrib F start xs upd ! i =
      foldl (fadd F) (upd ! i) (map snd (filter (\<lambda>x. fst x = start + int i) xs))"
  using assms unfolding contrib_def
proof (induction xs arbitrary: upd)
  case (Cons x xs)
  obtain k v where x: "x = (k, v)" by force
  let ?u = "upd[nat (k - start) := fadd F (upd ! nat (k - start)) v]"
  have "start \<le> k" using Cons.prems(2) by (simp add: x)
  then have "nat (k - start) = i \<longleftrightarrow> k = start + int i" by auto
  then have "?u ! i = (if k = start + int i then fadd F (upd ! i) v else upd ! i)"
    using Cons.prems(1) by (simp add: nth_list_update)
  moreover have "fold (\<lambda>(k, v) u. u[nat (k - start) := fadd F (u ! nat (k - start)) v]) xs ?u ! i =
      foldl (fadd F) (?u ! i) (map snd (filter (\<lambda>x. fst x = start + int i) xs))"
    by (rule Cons.IH) (use Cons.prems in simp_all)
  ultimately show ?case by (simp add: x)
qed simp

lemma nth_round_update:
  assumes "i < len" "\<forall>xs\<in>set xss. \<forall>x\<in>set xs. start \<le> fst x"
  shows "round_update F start len xss ! i =
      foldl (fadd F) (fzero F) (map snd (filter (\<lambda>x. fst x = start + int i) (concat xss)))"
proof -
  have "fold (contrib F start) xss u ! i =
      foldl (fadd F) (u ! i) (map snd (filter (\<lambda>x. fst x = start + int i) (concat xss)))"
    if "i < length u" for u
    using that assms(2)
  proof (induction xss arbitrary: u)
    case (Cons xs xss)
    have "contrib F start xs u ! i =
        foldl (fadd F) (u ! i) (map snd (filter (\<lambda>x. fst x = start + int i) xs))"
      by (rule nth_contrib) (use Cons.prems in auto)
    moreover have "fold (contrib F start) xss (contrib F start xs u) ! i =
        foldl (fadd F) (contrib F start xs u ! i)
          (map snd (filter (\<lambda>x. fst x = start + int i) (concat xss)))"
      by (rule Cons.IH) (use Cons.prems in simp_all)
    ultimately show ?case by simp
  qed simp
  with assms(1) show ?thesis by (simp add: round_update_def)
qed

lemma nth_apply_round:
  assumes "i < length ps" "\<forall>xs\<in>set xss. \<forall>x\<in>set xs. start \<le> fst x"
  shows "apply_round F start xss ps ! i =
      fadd F (ps ! i) (fdiv F (foldl (fadd F) (fzero F)
          (map snd (filter (\<lambda>x. fst x = start + int i) (concat xss))))
        (fof_int F (int (length xss))))"
  using assms by (simp add: apply_round_def nth_round_update)

section \<open>The update of a round\<close>

text \<open>An update whose keys all index a vector of length \<open>n\<close> from \<open>start\<close> on.\<close>

definition fits :: "int \<Rightarrow> nat \<Rightarrow> int \<Rightarrow> bool" where
  "fits start n k \<longleftrightarrow> start \<le> k \<and> k - start < int n \<and> in_i32 (k - start)"

text \<open>One pair of an update, added to the vector at its key.\<close>

definition add_pair :: "'v fops \<Rightarrow> int \<Rightarrow> int \<times> 'v \<Rightarrow> 'v list \<Rightarrow> 'v list res" where
  "add_pair F start = (\<lambda>(k, v) u. bind_res (i32 (k - start)) (\<lambda>index.
     bind_res (vec_get u index) (\<lambda>x. vec_set u index (fadd F x v))))"

lemma accumulate_pairs:
  assumes "wf_kv l"
  shows "accumulate F start l upd = fold_res (add_pair F start) (kv_pairs l) upd"
proof -
  let ?xs = "kv_pairs l"
  have len: "KeyValueList_Length l = int (length ?xs)" "length ?xs = length (kv_keys l)"
    using assms(1) by (simp_all add: wf_kv_def KeyValueList_Length_def kv_pairs_def)
  show ?thesis
    unfolding accumulate_def len(1)
  proof (rule fold_res_nth)
    fix j u
    assume "j < length ?xs"
    then show "bind_res (KeyValueList_Key l (int j)) (\<lambda>k. bind_res (i32 (k - start)) (\<lambda>index.
        bind_res (KeyValueList_Value l (int j)) (\<lambda>v.
        bind_res (vec_get u index) (\<lambda>x. vec_set u index (fadd F x v))))) = add_pair F start (?xs ! j) u"
      using assms(1) len(2)
      by (simp add: KeyValueList_at add_pair_def) (simp add: kv_pairs_def wf_kv_def bind_res_def split: sum.split)
  qed
qed

lemma add_pair_fits:
  "fits start (length u) k \<Longrightarrow>
   add_pair F start (k, v) u = Inr (u[nat (k - start) := fadd F (u ! nat (k - start)) v])"
  by (simp add: add_pair_def fits_def)

lemma kv_pairs_key: "x \<in> set (kv_pairs l) \<Longrightarrow> fst x \<in> set (kv_keys l)"
  by (cases x) (auto simp: kv_pairs_def dest: set_zip_leftD)

lemma accumulate_contrib:
  assumes "wf_kv l" "\<And>k. k \<in> set (kv_keys l) \<Longrightarrow> fits start (length upd) k"
  shows "accumulate F start l upd = Inr (contrib F start (kv_pairs l) upd)"
proof -
  let ?g = "\<lambda>(k, v) u. u[nat (k - start) := fadd F (u ! nat (k - start)) v]"
  have "fold_res (add_pair F start) (kv_pairs l) upd = Inr (fold ?g (kv_pairs l) upd) \<and>
      length (fold ?g (kv_pairs l) upd) = length upd"
  proof (rule fold_res_pure [where I = "\<lambda>u. length u = length upd"])
    fix x and u :: "'a list"
    assume x: "x \<in> set (kv_pairs l)" and u: "length u = length upd"
    have "fits start (length u) (fst x)" using assms(2) [OF kv_pairs_key [OF x]] by (simp add: u)
    then show "add_pair F start x u = Inr (?g x u) \<and> length (?g x u) = length upd"
      by (cases x) (simp add: add_pair_fits u)
  qed simp
  then show ?thesis by (simp add: accumulate_pairs [OF assms(1)] contrib_def)
qed

text \<open>A key outside the vector makes the update fault.\<close>

lemma accumulate_fault:
  assumes "wf_kv l" "\<forall>k\<in>set (kv_keys l). in_i32 (k - start)"
    and "\<exists>k\<in>set (kv_keys l). \<not> fits start (length upd) k"
  shows "accumulate F start l upd = Inl OutOfBounds"
proof -
  have "fold_res (add_pair F start) xs u = Inl OutOfBounds"
    if "\<forall>x\<in>set xs. in_i32 (fst x - start)" "\<exists>x\<in>set xs. \<not> fits start (length u) (fst x)" for xs u
    using that
  proof (induction xs arbitrary: u)
    case (Cons x xs)
    obtain k v where x: "x = (k, v)" by force
    show ?case
    proof (cases "fits start (length u) k")
      case True
      with Cons show ?thesis by (simp add: x add_pair_fits)
    next
      case False
      with Cons.prems(1) have "add_pair F start x u = Inl OutOfBounds"
        by (auto simp: x add_pair_def fits_def vec_get_out not_less)
      then show ?thesis by simp
    qed
  qed simp
  moreover have "fst ` set (kv_pairs l) = set (kv_keys l)"
    using assms(1) by (simp add: kv_pairs_def wf_kv_def flip: set_map)
  then have "\<forall>x\<in>set (kv_pairs l). in_i32 (fst x - start)" "\<exists>x\<in>set (kv_pairs l). \<not> fits start (length upd) (fst x)"
    using assms(2,3) by (auto simp flip: \<open>fst ` _ = _\<close>)
  ultimately show ?thesis by (simp add: accumulate_pairs [OF assms(1)])
qed

text \<open>Every agent's front update is taken off its queue and added, in index order.\<close>

lemma merge_prefix:
  assumes "n \<le> length vb" "\<And>q. q \<in> set (take n vb) \<Longrightarrow> q \<noteq> [] \<and> wf_kv (hd q) \<and>
      (\<forall>k\<in>set (kv_keys (hd q)). fits start (length upd) k)"
  shows "fold_res (merge_agent F start) [0..int n - 1] (vb, upd) =
      Inr (map tl (take n vb) @ drop n vb, fold (contrib F start) (map (\<lambda>q. kv_pairs (hd q)) (take n vb)) upd)"
proof -
  let ?upd = "\<lambda>j. fold (contrib F start) (map (\<lambda>q. kv_pairs (hd q)) (take j vb)) upd"
  let ?h = "\<lambda>j. (map tl (take j vb) @ drop j vb, ?upd j)"
  have "fold_res (merge_agent F start) [0..int n - 1] (?h 0) = Inr (?h n)"
  proof (rule fold_res_count)
    fix j
    assume "j < n"
    then have j: "j < length vb" using assms(1) by simp
    let ?vb = "map tl (take j vb) @ drop j vb"
    have q: "?vb ! j = vb ! j" using j by (simp add: nth_append)
    have "j < length ?vb" using j by simp
    then have get: "vec_get ?vb (int j) = Inr (vb ! j)"
      and set: "vec_set ?vb (int j) v = Inr (?vb[j := v])" for v
      using q by (simp_all only: vec_get_of_nat vec_set_of_nat)
    have "vb ! j \<in> set (take n vb)" using j \<open>j < n\<close> by (auto simp: in_set_conv_nth)
    from assms(2) [OF this] have ok: "vb ! j \<noteq> []" "wf_kv (hd (vb ! j))"
      "\<And>k. k \<in> set (kv_keys (hd (vb ! j))) \<Longrightarrow> fits start (length (?upd j)) k"
      by (auto simp: length_fold_contrib)
    have "?vb[j := tl (vb ! j)] = map tl (take (Suc j) vb) @ drop (Suc j) vb"
      using j by (simp add: update_mid nth_take_Suc)
    with get set ok show "merge_agent F start (int j) (?h j) = Inr (?h (Suc j))"
      using j by (simp add: merge_agent_def accumulate_contrib nth_take_Suc)
  qed
  then show ?thesis by simp
qed

lemma merge_all:
  assumes "\<And>q. q \<in> set vb \<Longrightarrow> q \<noteq> [] \<and> wf_kv (hd q) \<and>
      (\<forall>k\<in>set (kv_keys (hd q)). fits start (length upd) k)"
  shows "fold_res (merge_agent F start) [0..int (length vb) - 1] (vb, upd) =
      Inr (map tl vb, fold (contrib F start) (map (\<lambda>q. kv_pairs (hd q)) vb) upd)"
  using merge_prefix [of "length vb" vb start upd F] assms by simp

text \<open>The first agent with a key outside the vector makes the merge fault.\<close>

lemma merge_fault:
  assumes j: "j < length vb" and before: "\<And>q. q \<in> set (take j vb) \<Longrightarrow> q \<noteq> [] \<and> wf_kv (hd q) \<and>
      (\<forall>k\<in>set (kv_keys (hd q)). fits start (length upd) k)"
    and l: "vb ! j \<noteq> []" "wf_kv (hd (vb ! j))" "\<forall>k\<in>set (kv_keys (hd (vb ! j))). in_i32 (k - start)"
      "\<exists>k\<in>set (kv_keys (hd (vb ! j))). \<not> fits start (length upd) k"
  shows "fold_res (merge_agent F start) [0..int (length vb) - 1] (vb, upd) = Inl OutOfBounds"
proof -
  have split: "[0..int (length vb) - 1] = [0..int j - 1] @ int j # [int j + 1..int (length vb) - 1]"
    using j by (intro upto_split3) simp_all
  let ?vb = "map tl (take j vb) @ drop j vb"
  have "j < length ?vb" "?vb ! j = vb ! j" using j by (simp_all add: nth_append)
  then have "vec_get ?vb (int j) = Inr (vb ! j)" by (simp only: vec_get_of_nat)
  moreover have "accumulate F start (hd (vb ! j)) u = Inl OutOfBounds" if "length u = length upd" for u
    using l that by (intro accumulate_fault) simp_all
  ultimately show ?thesis
    unfolding split fold_res_append using j before l(1)
    by (simp add: merge_prefix merge_agent_def length_fold_contrib)
qed

lemma apply_update_all:
  assumes "length upd = length ps"
  shows "fold_res (apply_update F n upd) [0..int (length ps) - 1] ps =
      Inr (map2 (\<lambda>p u. fadd F p (fdiv F u (fof_int F n))) ps upd)"
proof -
  let ?ps = "map2 (\<lambda>p u. fadd F p (fdiv F u (fof_int F n))) ps upd"
  let ?h = "\<lambda>j. take j ?ps @ drop j ps"
  have "fold_res (apply_update F n upd) [0..int (length ps) - 1] (?h 0) = Inr (?h (length ps))"
  proof (rule fold_res_count)
    fix j
    assume j: "j < length ps"
    then have "j < length (?h j)" "?h j ! j = ps ! j" using assms by (simp_all add: nth_append)
    then have "vec_get (?h j) (int j) = Inr (ps ! j)"
      and "vec_set (?h j) (int j) v = Inr ((?h j)[j := v])" for v
      by (simp_all only: vec_get_of_nat vec_set_of_nat)
    moreover have "(?h j)[j := fadd F (ps ! j) (fdiv F (upd ! j) (fof_int F n))] = ?h (Suc j)"
      using j assms by (simp add: update_mid nth_take_Suc)
    ultimately show "apply_update F n upd (int j) (?h j) = Inr (?h (Suc j))"
      using j assms by (simp add: apply_update_def)
  qed
  then show ?thesis using assms by simp
qed

text \<open>The updates that end the current round: the front of every buffer.\<close>

definition fronts :: "'v server \<Rightarrow> (int \<times> 'v) list list" where
  "fronts st = map (\<lambda>q. kv_pairs (hd q)) (version_buffer st)"

lemma UpdateParameter_apply_round:
  assumes "agent_num st = int (length (version_buffer st))"
    and "parameter_length st = int (length (parameters st))"
    and "\<And>q. q \<in> set (version_buffer st) \<Longrightarrow> q \<noteq> [] \<and> wf_kv (hd q) \<and>
      (\<forall>k\<in>set (kv_keys (hd q)). fits (start_key st) (length (parameters st)) k)"
    and "in_i32 (bottom_version st + 1)"
  shows "UpdateParameter F st = Inr (st\<lparr>
      version_buffer := map tl (version_buffer st),
      parameters := apply_round F (start_key st) (fronts st) (parameters st),
      bottom_version := bottom_version st + 1\<rparr>)"
proof -
  let ?zero = "replicate (length (parameters st)) (fzero F)"
  let ?upd = "fold (contrib F (start_key st)) (fronts st) ?zero"
  have upd: "?upd = round_update F (start_key st) (length (parameters st)) (fronts st)"
    by (simp add: round_update_def)
  have "fold_res (merge_agent F (start_key st)) [0..agent_num st - 1] (version_buffer st, ?zero) =
      Inr (map tl (version_buffer st), ?upd)"
    unfolding assms(1) fronts_def by (rule merge_all) (use assms(3) in simp)
  moreover have "fold_res (apply_update F (agent_num st) ?upd) [0..parameter_length st - 1]
      (parameters st) = Inr (apply_round F (start_key st) (fronts st) (parameters st))"
    unfolding assms(2) upd apply_round_def
    by (subst apply_update_all) (simp_all add: fronts_def assms(1))
  ultimately show ?thesis
    using assms(2,4) by (simp add: UpdateParameter_def zero_vector_def)
qed

lemma UpdateParameter_fault:
  assumes "agent_num st = int (length (version_buffer st))"
    and "parameter_length st = int (length (parameters st))" "j < length (version_buffer st)"
    and "\<And>q. q \<in> set (take j (version_buffer st)) \<Longrightarrow> q \<noteq> [] \<and> wf_kv (hd q) \<and>
      (\<forall>k\<in>set (kv_keys (hd q)). fits (start_key st) (length (parameters st)) k)"
    and "version_buffer st ! j \<noteq> []" "wf_kv (hd (version_buffer st ! j))"
    and "\<forall>k\<in>set (kv_keys (hd (version_buffer st ! j))). in_i32 (k - start_key st)"
      "\<exists>k\<in>set (kv_keys (hd (version_buffer st ! j))). \<not> fits (start_key st) (length (parameters st)) k"
  shows "UpdateParameter F st = Inl OutOfBounds"
  using merge_fault [of j "version_buffer st" "start_key st" "replicate (length (parameters st)) (fzero F)" F] assms
  by (simp add: UpdateParameter_def zero_vector_def)

section \<open>Replies\<close>

lemma respond_blocked_reply:
  assumes "wf_pull p"
    and "\<And>k. k \<in> set (pi_keys p) \<Longrightarrow> fits (start_key st) (length (parameters st)) k"
  shows "respond_blocked st p = Inr (pull_reply st (pi_id p) (pi_keys p))"
proof -
  let ?g = "\<lambda>k. (k, parameters st ! nat (k - start_key st))"
  have "map_res (\<lambda>i. bind_res (PullInfo_Key p i) (\<lambda>k. bind_res (i32 (k - start_key st)) (\<lambda>index.
        bind_res (vec_get (parameters st) index) (\<lambda>v. Inr (k, v)))))
      [0..int (length (pi_keys p)) - 1] = map_res (\<lambda>k. Inr (?g k)) (pi_keys p)"
    by (rule map_res_nth) (use assms(2) in \<open>auto simp: PullInfo_Key_def fits_def\<close>)
  also have "\<dots> = Inr (map ?g (pi_keys p))" by (rule map_res_pure) simp
  finally show ?thesis
    using assms(1) by (simp add: respond_blocked_def PullInfo_Length_def wf_pull_def get_id_def
        pull_reply_def comp_def)
qed

definition blocked_replies :: "'v server \<Rightarrow> 'v outgoing" where
  "blocked_replies st = map (\<lambda>p. pull_reply st (pi_id p) (pi_keys p)) (pull_request st)"

lemma RespondToAll_replies:
  assumes "\<And>p. p \<in> set (pull_request st) \<Longrightarrow> wf_pull p \<and>
      (\<forall>k\<in>set (pi_keys p). fits (start_key st) (length (parameters st)) k)"
  shows "RespondToAll st = Inr (st\<lparr>pull_request := []\<rparr>, blocked_replies st)"
proof -
  have "map_res (respond_blocked st) (pull_request st) = Inr (blocked_replies st)"
    unfolding blocked_replies_def
    by (rule map_res_pure, rule respond_blocked_reply) (use assms in auto)
  then show ?thesis by (simp add: RespondToAll_def)
qed

text \<open>The \<open>i\<close>-th predecessor on the ring of servers.\<close>

definition predecessor :: "'v server \<Rightarrow> int \<Rightarrow> int" where
  "predecessor st i = server_ids st ! nat ((local_index st - i) mod server_num st)"

definition backup_requests :: "'v server \<Rightarrow> 'v outgoing" where
  "backup_requests st = map (\<lambda>i. (predecessor st i, new_Message\<lparr>send_id := local_id st,
     recv_id := predecessor st i, message_type := Message_MessageType_request\<rparr>))
     [1..backup_size st]"

text \<open>What \<open>Initialize\<close> leaves of the positions on the ring of servers.\<close>

definition wf_ring :: "'v server \<Rightarrow> bool" where
  "wf_ring st \<longleftrightarrow> 0 \<le> local_index st \<and> local_index st < server_num st \<and>
     0 \<le> backup_size st \<and> backup_size st < server_num st \<and> in_i32 (2 * server_num st) \<and>
     int (length (server_ids st)) = server_num st \<and>
     int (length (backup_parameters st)) = backup_size st"

lemma ring_index:
  assumes "0 \<le> i" "i < n" "0 \<le> j" "j \<le> n" "in_i32 (2 * n)"
  shows "in_i32 (i - j)" "in_i32 (i - j + n)" "i32_rem (i - j + n) n = Inr ((i - j) mod n)"
proof -
  show "in_i32 (i - j)" "in_i32 (i - j + n)" using assms by (simp_all add: in_i32_iff)
  have "in_i32 n" using assms by (simp add: in_i32_iff)
  then show "i32_rem (i - j + n) n = Inr ((i - j) mod n)"
    using assms by (subst i32_rem_nonneg) simp_all
qed

lemma RequestBackup_requests:
  assumes "wf_ring st"
  shows "RequestBackup st = Inr (backup_requests st)"
  unfolding RequestBackup_def backup_requests_def
proof (rule map_res_pure)
  fix i
  assume "i \<in> set [1..backup_size st]"
  with assms have i: "0 \<le> local_index st" "local_index st < server_num st"
      "0 \<le> i" "i \<le> server_num st" "in_i32 (2 * server_num st)"
    and len: "int (length (server_ids st)) = server_num st"
    by (auto simp: wf_ring_def)
  have "0 \<le> (local_index st - i) mod server_num st"
    "(local_index st - i) mod server_num st < server_num st" using i by simp_all
  then have "vec_get (server_ids st) ((local_index st - i) mod server_num st) =
      Inr (predecessor st i)"
    by (simp add: predecessor_def len)
  then show "bind_res (i32 (local_index st - i)) (\<lambda>d. bind_res (i32 (d + server_num st)) (\<lambda>e.
      bind_res (i32_rem e (server_num st)) (\<lambda>target. bind_res (vec_get (server_ids st) target) (\<lambda>sid.
        Inr (sid, new_Message\<lparr>send_id := local_id st, recv_id := sid,
          message_type := Message_MessageType_request\<rparr>))))) =
    Inr (predecessor st i, new_Message\<lparr>send_id := local_id st, recv_id := predecessor st i,
          message_type := Message_MessageType_request\<rparr>)"
    using ring_index [OF i] by simp
qed

section \<open>Queueing a push\<close>

lemma push_list_pairs:
  assumes "wf_push r"
  shows "\<exists>l. push_list r = Inr l \<and> wf_kv l \<and> kv_keys l = rq_keys r \<and> kv_pairs l = request_pairs r"
proof -
  let ?xs = "request_pairs r"
  have len: "length ?xs = length (rq_keys r)"
    using assms by (simp add: request_pairs_def wf_push_def)
  have fst: "map fst ?xs = rq_keys r"
    using assms by (simp add: request_pairs_def wf_push_def map_fst_zip_take)
  have "push_list r = fold_res (\<lambda>(k, v). AddPair k v) ?xs new_KeyValueList"
    unfolding push_list_def len [symmetric]
    by (rule fold_res_nth) (use assms len in \<open>simp add: request_pairs_def wf_push_def\<close>)
  also have "\<dots> = Inr \<lparr> kv_length = int (length ?xs), kv_keys = map fst ?xs, kv_values = map snd ?xs \<rparr>"
    using assms len by (subst AddPair_all) (simp_all add: new_KeyValueList_def wf_kv_def wf_push_def)
  finally show ?thesis
    by (simp add: wf_kv_def fst len kv_pairs_def zip_map_fst_snd [of ?xs, unfolded fst])
qed

end
