(* ===== verification/Server_Invariant.thy ===== *)
theory Server_Invariant
  imports Server_Round Transition_Systems
begin

text \<open>
  The invariant of the parameter server between two messages, and the value of every handler in
  a state that satisfies it. \<open>server_inv\<close> is a conjunction of groups: the agents, the version
  buffers with the counters \<open>finish_count\<close>, the queued updates, the blocked requests, the
  parameter range and the ring of servers. The handlers return in every such state, so none
  of the container accesses of the source is out of bounds there.
\<close>

section \<open>The invariant\<close>

abbreviation bound :: "'v server \<Rightarrow> nat" where
  "bound st \<equiv> nat (consistency_bound st)"

definition wf_agents :: "'v server \<Rightarrow> bool" where
  "wf_agents st \<longleftrightarrow> 1 \<le> agent_num st \<and> in_i32 (agent_num st) \<and>
     int (length (version_buffer st)) = agent_num st \<and>
     set (agent_ids st) = dom (id_to_index st) \<and>
     ran (id_to_index st) = {0..<agent_num st} \<and>
     inj_on (id_to_index st) (dom (id_to_index st))"

text \<open>How many agents have more than \<open>i\<close> updates waiting.\<close>

definition ahead :: "nat \<Rightarrow> 'a list list \<Rightarrow> nat" where
  "ahead i vb = length (filter (\<lambda>q. i < length q) vb)"

definition wf_counts :: "'v server \<Rightarrow> bool" where
  "wf_counts st \<longleftrightarrow> 1 \<le> consistency_bound st \<and> in_i32 (consistency_bound st) \<and>
     length (finish_count st) = bound st \<and>
     (\<forall>i<bound st. finish_count st ! i = int (ahead i (version_buffer st))) \<and>
     (\<forall>q\<in>set (version_buffer st). length q \<le> bound st)"

definition wf_updates :: "'v server \<Rightarrow> bool" where
  "wf_updates st \<longleftrightarrow> (\<forall>q\<in>set (version_buffer st). \<forall>l\<in>set q.
     wf_kv l \<and> (\<forall>k\<in>set (kv_keys l). in_range st k))"

text \<open>A blocked request belongs to an agent whose buffer is full.\<close>

definition wf_blocked :: "'v server \<Rightarrow> bool" where
  "wf_blocked st \<longleftrightarrow> (\<forall>p\<in>set (pull_request st). wf_pull p \<and>
     (\<forall>k\<in>set (pi_keys p). in_range st k) \<and>
     (\<exists>i. id_to_index st (pi_id p) = Some i \<and>
       length (version_buffer st ! nat i) = bound st))"

definition wf_range :: "'v server \<Rightarrow> bool" where
  "wf_range st \<longleftrightarrow> 0 \<le> parameter_length st \<and> in_i32 (parameter_length st) \<and>
     in_i32 (start_key st) \<and> in_i32 (start_key st + parameter_length st) \<and>
     int (length (parameters st)) = parameter_length st"

text \<open>Every known server has its position on the ring.\<close>

definition wf_servers :: "'v server \<Rightarrow> bool" where
  "wf_servers st \<longleftrightarrow> wf_ring st \<and>
     (\<forall>s i. servers st s = Some i \<longleftrightarrow> 0 \<le> i \<and> i < server_num st \<and> server_ids st ! nat i = s)"

definition some_empty :: "'v server \<Rightarrow> bool" where
  "some_empty st \<longleftrightarrow> [] \<in> set (version_buffer st)"

definition server_inv :: "'v server \<Rightarrow> bool" where
  "server_inv st \<longleftrightarrow> wf_agents st \<and> wf_counts st \<and> wf_updates st \<and> wf_blocked st \<and>
     wf_range st \<and> wf_servers st \<and> some_empty st \<and> 0 \<le> bottom_version st"

lemma in_range_fits: "wf_range st \<Longrightarrow> in_range st k \<Longrightarrow> fits (start_key st) (length (parameters st)) k"
  by (simp add: wf_range_def in_range_def fits_def in_i32_iff)

section \<open>Counting the agents that are ahead\<close>

lemma ahead_le: "ahead i vb \<le> length vb"
  by (simp add: ahead_def)

lemma ahead_append:
  assumes "j < length vb"
  shows "ahead i (vb[j := vb ! j @ [x]]) = ahead i vb + (if i = length (vb ! j) then 1 else 0)"
proof -
  have vb: "vb = take j vb @ vb ! j # drop (Suc j) vb" using assms by (rule id_take_nth_drop)
  have "vb[j := vb ! j @ [x]] = take j vb @ (vb ! j @ [x]) # drop (Suc j) vb"
    using assms by (rule upd_conv_take_nth_drop)
  moreover have "ahead i vb = ahead i (take j vb) + (if i < length (vb ! j) then 1 else 0) +
      ahead i (drop (Suc j) vb)"
    by (subst vb) (simp add: ahead_def)
  ultimately show ?thesis by (simp add: ahead_def)
qed

lemma ahead_less: "j < length vb \<Longrightarrow> length (vb ! j) \<le> i \<Longrightarrow> ahead i vb < length vb"
  unfolding ahead_def by (rule length_filter_less [where x = "vb ! j"]) simp_all

lemma ahead_0_all: "ahead 0 vb = length vb \<longleftrightarrow> [] \<notin> set vb"
proof
  assume "ahead 0 vb = length vb"
  then show "[] \<notin> set vb"
    using ahead_less [of _ vb 0] by (fastforce simp: in_set_conv_nth)
next
  assume "[] \<notin> set vb"
  then have "filter (\<lambda>q. 0 < length q) vb = vb" by (auto simp: filter_id_conv)
  then show "ahead 0 vb = length vb" by (simp add: ahead_def)
qed

lemma ahead_tl: "ahead i (map tl vb) = ahead (Suc i) vb"
  by (simp add: ahead_def filter_map comp_def less_diff_conv)

lemma ahead_none: "(\<And>q. q \<in> set vb \<Longrightarrow> length q \<le> i) \<Longrightarrow> ahead i vb = 0"
  by (simp add: ahead_def filter_empty_conv not_less)

section \<open>The effect of a push\<close>

definition push_state :: "nat \<Rightarrow> 'v KeyValueList \<Rightarrow> 'v server \<Rightarrow> 'v server" where
  "push_state j l st = (let q = version_buffer st ! j in
     st\<lparr>finish_count := (finish_count st)[length q := finish_count st ! length q + 1],
        version_buffer := (version_buffer st)[j := q @ [l]]\<rparr>)"

definition round_state :: "'v fops \<Rightarrow> 'v server \<Rightarrow> 'v server" where
  "round_state F st = st\<lparr>finish_count := tl (finish_count st) @ [0],
     version_buffer := map tl (version_buffer st),
     parameters := apply_round F (start_key st) (fronts st) (parameters st),
     bottom_version := bottom_version st + 1\<rparr>"

text \<open>What holds between queueing the update and the end of \<open>ServePush\<close>.\<close>

definition pushed_inv :: "nat \<Rightarrow> 'v server \<Rightarrow> bool" where
  "pushed_inv j st \<longleftrightarrow> wf_agents st \<and> wf_counts st \<and> wf_updates st \<and> wf_blocked st \<and>
     wf_range st \<and> wf_servers st \<and> 0 \<le> bottom_version st \<and> j < length (version_buffer st) \<and>
     (some_empty st \<or> length (version_buffer st ! j) = 1)"

lemma wf_counts_push:
  assumes "wf_counts st" "j < length (version_buffer st)"
    and "length (version_buffer st ! j) < bound st"
  shows "wf_counts (push_state j l st)"
proof -
  let ?vb = "version_buffer st" and ?q = "version_buffer st ! j"
  have count: "finish_count st ! i = int (ahead i ?vb)" if "i < bound st" for i
    using assms(1) that by (simp add: wf_counts_def)
  have "(finish_count st)[length ?q := finish_count st ! length ?q + 1] ! i =
      int (ahead i (?vb[j := ?q @ [l]]))" if "i < bound st" for i
    using assms that count by (simp add: ahead_append nth_list_update wf_counts_def)
  moreover have "length q \<le> bound st" if "q \<in> set (?vb[j := ?q @ [l]])" for q
    using set_update_subset_insert [of ?vb j "?q @ [l]"] that assms
    by (auto simp: wf_counts_def)
  ultimately show ?thesis using assms(1) by (simp add: wf_counts_def push_state_def Let_def)
qed

lemma pushed_inv_push:
  assumes "server_inv st" "j < length (version_buffer st)"
    and "length (version_buffer st ! j) < bound st"
    and "wf_kv l" "\<And>k. k \<in> set (kv_keys l) \<Longrightarrow> in_range st k"
  shows "pushed_inv j (push_state j l st)"
proof -
  let ?vb = "version_buffer st" and ?q = "version_buffer st ! j"
  let ?st = "push_state j l st"
  note inv = assms(1) [unfolded server_inv_def]
  have sel: "id_to_index ?st = id_to_index st" "pull_request ?st = pull_request st"
    "consistency_bound ?st = consistency_bound st" "in_range ?st = in_range st"
    "version_buffer ?st = ?vb[j := ?q @ [l]]"
    by (simp_all add: push_state_def Let_def in_range_def fun_eq_iff)
  have "wf_agents ?st" using inv by (simp add: push_state_def Let_def wf_agents_def)
  moreover have "wf_counts ?st" using inv assms(2,3) by (simp add: wf_counts_push)
  moreover have "wf_updates ?st"
    unfolding wf_updates_def sel
  proof (intro ballI)
    fix q l' assume "q \<in> set (?vb[j := ?q @ [l]])" "l' \<in> set q"
    then have "q \<in> set ?vb \<or> q = ?q @ [l]" using set_update_subset_insert by fastforce
    with \<open>l' \<in> set q\<close> assms(2) have "l' = l \<or> (\<exists>q\<in>set ?vb. l' \<in> set q)" by auto
    then show "wf_kv l' \<and> (\<forall>k\<in>set (kv_keys l'). in_range st k)"
      using inv assms(4,5) by (auto simp: wf_updates_def)
  qed
  moreover have "wf_blocked ?st"
    unfolding wf_blocked_def sel
  proof (intro ballI)
    fix p assume "p \<in> set (pull_request st)"
    with inv obtain i where p: "wf_pull p" "\<forall>k\<in>set (pi_keys p). in_range st k"
      "id_to_index st (pi_id p) = Some i" "length (?vb ! nat i) = bound st"
      by (auto simp: wf_blocked_def)
    have "nat i \<noteq> j" using p(4) assms(3) by auto
    with p show "wf_pull p \<and> (\<forall>k\<in>set (pi_keys p). in_range st k) \<and>
        (\<exists>i. id_to_index st (pi_id p) = Some i \<and>
          length (?vb[j := ?q @ [l]] ! nat i) = bound st)"
      by auto
  qed
  moreover have "wf_range ?st" "wf_servers ?st" "0 \<le> bottom_version ?st"
    using inv by (simp_all add: push_state_def Let_def wf_range_def wf_servers_def wf_ring_def)
  moreover have "some_empty ?st \<or> length (version_buffer ?st ! j) = 1"
  proof (cases "?q = []")
    case False
    from inv obtain i where i: "i < length ?vb" "?vb ! i = []"
      by (auto simp: some_empty_def in_set_conv_nth)
    then have "i \<noteq> j" using False by metis
    with i(2) have "?vb[j := ?q @ [l]] ! i = []" by simp
    with i(1) show ?thesis by (auto simp: some_empty_def sel in_set_conv_nth)
  qed (use assms(2) in \<open>simp add: sel\<close>)
  ultimately show ?thesis using assms(2) by (simp add: pushed_inv_def sel)
qed

lemma wf_counts_round:
  assumes "wf_counts st"
  shows "wf_counts (round_state F st)"
proof -
  let ?fc = "finish_count st" and ?vb = "version_buffer st"
  have len: "length ?fc = bound st" "1 \<le> consistency_bound st"
    and count: "\<And>i. i < bound st \<Longrightarrow> ?fc ! i = int (ahead i ?vb)"
    and le: "\<And>q. q \<in> set ?vb \<Longrightarrow> length q \<le> bound st"
    using assms by (simp_all add: wf_counts_def)
  have "(tl ?fc @ [0]) ! i = int (ahead i (map tl ?vb))" if "i < bound st" for i
  proof (cases "Suc i < bound st")
    case True
    then have "i < length (tl ?fc)" using len by simp
    with True show ?thesis using count [of "Suc i"] by (simp add: nth_append nth_tl ahead_tl)
  next
    case False
    with that have "bound st = Suc i" by simp
    with len le show ?thesis by (simp add: nth_append ahead_tl ahead_none)
  qed
  moreover have "length q \<le> bound st" if "q \<in> set (map tl ?vb)" for q
    using that le by (fastforce intro: le_trans [OF diff_le_self])
  ultimately show ?thesis using assms len by (simp add: wf_counts_def round_state_def)
qed

lemma server_inv_round:
  assumes "pushed_inv j st" "\<not> some_empty st"
  shows "server_inv (round_state F st\<lparr>pull_request := []\<rparr>)"
proof -
  let ?st = "round_state F st\<lparr>pull_request := []\<rparr>" and ?vb = "version_buffer st"
  note inv = assms(1) [unfolded pushed_inv_def]
  have "wf_agents ?st" using inv by (simp add: round_state_def wf_agents_def)
  moreover have "wf_counts ?st"
    using inv wf_counts_round [of st F] by (simp add: wf_counts_def)
  moreover have "wf_updates ?st"
  proof -
    have "in_range ?st = in_range st" by (simp add: round_state_def in_range_def fun_eq_iff)
    moreover have "set (tl q) \<subseteq> set q" for q :: "'a KeyValueList list" by (cases q) auto
    ultimately show ?thesis using inv unfolding wf_updates_def by (force simp: round_state_def)
  qed
  moreover have "wf_blocked ?st" by (simp add: wf_blocked_def)
  moreover have "wf_range ?st" "wf_servers ?st" "0 \<le> bottom_version ?st"
    using inv by (simp_all add: round_state_def wf_range_def wf_servers_def wf_ring_def)
  moreover have "some_empty ?st"
  proof -
    have "length (?vb ! j) = 1" "?vb ! j \<in> set ?vb" using inv assms(2) by auto
    then have "tl (?vb ! j) = []" by (cases "?vb ! j") auto
    with \<open>?vb ! j \<in> set ?vb\<close> show ?thesis by (force simp: some_empty_def round_state_def)
  qed
  ultimately show ?thesis by (simp add: server_inv_def)
qed

section \<open>Push requests\<close>

lemma known_index:
  assumes "wf_agents st" "a \<in> set (agent_ids st)"
  obtains j where "id_to_index st a = Some (int j)" "j < length (version_buffer st)"
proof -
  from assms obtain i where i: "id_to_index st a = Some i" by (auto simp: wf_agents_def)
  then have "i \<in> ran (id_to_index st)" by (rule ranI)
  with assms have "0 \<le> i" "i < int (length (version_buffer st))" by (simp_all add: wf_agents_def)
  with i that [of "nat i"] show ?thesis by simp
qed

lemma enqueue_push_full:
  assumes "wf_counts st" "j < length (version_buffer st)"
    and "bound st \<le> length (version_buffer st ! j)"
  shows "enqueue_push (int j) r st = Inr st"
proof -
  have "consistency_bound st \<le> int (length (version_buffer st ! j))" using assms(3) by simp
  with assms(1,2) show ?thesis
    by (simp add: enqueue_push_def size_t_of_int_nonneg wf_counts_def)
qed

lemma enqueue_push_room:
  assumes "server_inv st" "j < length (version_buffer st)"
    and "length (version_buffer st ! j) < bound st" "push_list r = Inr l"
  shows "enqueue_push (int j) r st = Inr (push_state j l st)"
proof -
  let ?vb = "version_buffer st"
  let ?n = "length (?vb ! j)"
  have counts: "wf_counts st" "wf_agents st" using assms(1) by (simp_all add: server_inv_def)
  then have size: "size_t_of_int (consistency_bound st) = consistency_bound st"
    by (simp add: size_t_of_int_nonneg wf_counts_def)
  have fc: "finish_count st ! ?n = int (ahead ?n ?vb)" "?n < length (finish_count st)"
    using counts(1) assms(3) by (simp_all add: wf_counts_def)
  have "ahead ?n ?vb < length ?vb" using assms(2) by (rule ahead_less) simp
  then have "in_i32 (finish_count st ! ?n + 1)"
    using counts(2) fc by (simp add: wf_agents_def in_i32_iff)
  moreover have "\<not> consistency_bound st \<le> int ?n" using assms(3) by simp
  ultimately show ?thesis
    using assms(2,4) fc(2) size by (simp add: enqueue_push_def push_state_def Let_def)
qed

lemma finish_round_waits:
  assumes "wf_counts st" "wf_agents st" "some_empty st"
  shows "finish_round F st = Inr (st, [])"
proof -
  have fc: "vec_get (finish_count st) 0 = Inr (int (ahead 0 (version_buffer st)))"
    using assms(1) by (simp add: wf_counts_def vec_get_def)
  have "ahead 0 (version_buffer st) \<noteq> length (version_buffer st)"
    using assms(3) by (simp add: ahead_0_all some_empty_def)
  then show ?thesis using assms(2) fc by (simp add: finish_round_def wf_agents_def)
qed

lemma finish_round_ends:
  assumes inv: "pushed_inv j st" and "\<not> some_empty st" "in_i32 (bottom_version st + 1)"
  shows "finish_round F st = Inr (round_state F st\<lparr>pull_request := []\<rparr>,
      blocked_replies (round_state F st) @ backup_requests st)"
proof -
  let ?st0 = "st\<lparr>finish_count := tl (finish_count st) @ [0]\<rparr>" and ?st1 = "round_state F st"
  have wf: "wf_agents st" "wf_counts st" "wf_updates st" "wf_blocked st" "wf_range st" "wf_ring st"
    using inv by (simp_all add: pushed_inv_def wf_servers_def)
  have fc: "vec_get (finish_count st) 0 = Inr (int (ahead 0 (version_buffer st)))"
    using wf(2) by (simp add: wf_counts_def vec_get_def)
  have full: "ahead 0 (version_buffer st) = length (version_buffer st)"
    using assms(2) by (simp add: ahead_0_all some_empty_def)
  have upd: "UpdateParameter F ?st0 = Inr ?st1"
  proof (subst UpdateParameter_apply_round)
    fix q assume q: "q \<in> set (version_buffer ?st0)"
    with assms(2) have "q \<noteq> []" by (auto simp: some_empty_def)
    then have "hd q \<in> set q" by simp
    with q wf(3) have "wf_kv (hd q)" "\<forall>k\<in>set (kv_keys (hd q)). in_range st k"
      by (auto simp: wf_updates_def)
    with \<open>q \<noteq> []\<close> wf(5) show "q \<noteq> [] \<and> wf_kv (hd q) \<and>
        (\<forall>k\<in>set (kv_keys (hd q)). fits (start_key ?st0) (length (parameters ?st0)) k)"
      by (simp add: in_range_fits)
  qed (use wf assms(3) in \<open>simp_all add: wf_agents_def wf_range_def round_state_def fronts_def\<close>)
  have resp: "RespondToAll ?st1 = Inr (?st1\<lparr>pull_request := []\<rparr>, blocked_replies ?st1)"
  proof (rule RespondToAll_replies)
    fix p assume "p \<in> set (pull_request ?st1)"
    then have "p \<in> set (pull_request st)" by (simp add: round_state_def)
    with wf(4,5) show "wf_pull p \<and>
        (\<forall>k\<in>set (pi_keys p). fits (start_key ?st1) (length (parameters ?st1)) k)"
      by (auto simp: wf_blocked_def in_range_fits round_state_def)
  qed
  have "RequestBackup (?st1\<lparr>pull_request := []\<rparr>) = Inr (backup_requests (?st1\<lparr>pull_request := []\<rparr>))"
    by (rule RequestBackup_requests) (use wf(6) in \<open>simp add: wf_ring_def round_state_def\<close>)
  moreover have "backup_requests (?st1\<lparr>pull_request := []\<rparr>) = backup_requests st"
    by (simp add: backup_requests_def predecessor_def round_state_def)
  ultimately show ?thesis
    using fc full upd resp wf(1) by (simp add: finish_round_def wf_agents_def)
qed

text \<open>An update with a key outside the range that completes the round.\<close>

lemma ServePush_fault:
  assumes inv: "server_inv st" and a: "a \<in> set (agent_ids st)"
    and i: "id_to_index st a = Some (int j)" "j < length (version_buffer st)"
    and turn: "version_buffer st ! j = []" "\<And>i. i < length (version_buffer st) \<Longrightarrow> i \<noteq> j \<Longrightarrow> version_buffer st ! i \<noteq> []"
    and r: "push_list r = Inr l" "wf_kv l" "\<forall>k\<in>set (kv_keys l). in_i32 (k - start_key st)"
      "\<exists>k\<in>set (kv_keys l). \<not> in_range st k"
  shows "ServePush F a r st = Inl OutOfBounds"
proof -
  let ?st = "push_state j l st" and ?vb = "version_buffer st"
  let ?fin = "?st\<lparr>finish_count := tl (finish_count ?st) @ [0]\<rparr>"
  have wf: "wf_agents st" "wf_counts st" "wf_updates st" "wf_range st" using inv by (simp_all add: server_inv_def)
  then have "0 < bound st" by (simp add: wf_counts_def)
  then have room: "length (?vb ! j) < bound st" using turn(1) by simp
  note enq = enqueue_push_room [OF inv i(2) room r(1)]
  have vb: "version_buffer ?fin = ?vb[j := [l]]" by (simp add: push_state_def Let_def turn(1))
  have "?vb[j := [l]] ! i \<noteq> []" if "i < length ?vb" for i using turn(2) that by (cases "i = j") simp_all
  then have "ahead 0 (version_buffer ?st) = length ?vb"
    using vb ahead_0_all [of "?vb[j := [l]]"] by (simp add: in_set_conv_nth)
  moreover have "wf_counts ?st" by (rule wf_counts_push [OF wf(2) i(2) room])
  ultimately have fc: "vec_get (finish_count ?st) 0 = Inr (int (length ?vb))"
    by (simp add: wf_counts_def vec_get_def)
  have "UpdateParameter F ?fin = Inl OutOfBounds"
  proof (rule UpdateParameter_fault [of _ j])
    fix q assume "q \<in> set (take j (version_buffer ?fin))"
    then obtain i where "i < j" "q = ?vb ! i" by (auto simp: vb in_set_conv_nth)
    then have q: "q \<in> set ?vb" "q \<noteq> []" using turn(2) [of i] i(2) by auto
    then have "hd q \<in> set q" by simp
    with q wf(3) have "wf_kv (hd q)" "\<forall>k\<in>set (kv_keys (hd q)). in_range st k" unfolding wf_updates_def by blast+
    with q(2) wf(4) show "q \<noteq> [] \<and> wf_kv (hd q) \<and>
        (\<forall>k\<in>set (kv_keys (hd q)). fits (start_key ?fin) (length (parameters ?fin)) k)"
      by (simp add: in_range_fits push_state_def Let_def)
  next
    show "\<exists>k\<in>set (kv_keys (hd (version_buffer ?fin ! j))). \<not> fits (start_key ?fin) (length (parameters ?fin)) k"
    proof -
      from r(4) obtain k where "k \<in> set (kv_keys l)" "\<not> in_range st k" by blast
      with i(2) wf(4) show ?thesis
        unfolding vb by (intro bexI [of _ k]) (auto simp: push_state_def Let_def fits_def in_range_def wf_range_def)
    qed
  qed (use wf i(2) r(2,3) turn(1) in \<open>simp_all add: vb wf_agents_def wf_range_def push_state_def Let_def\<close>)
  moreover have "agent_num ?st = int (length ?vb)" using wf(1) by (simp add: wf_agents_def push_state_def Let_def)
  ultimately have "finish_round F ?st = Inl OutOfBounds" using fc by (simp add: finish_round_def)
  then show ?thesis using a i(1) enq by (simp add: ServePush_def)
qed

text \<open>The result of \<open>ServePush\<close> on every branch.\<close>

definition push_result ::
    "'v fops \<Rightarrow> nat \<Rightarrow> 'v KeyValueList \<Rightarrow> 'v server \<Rightarrow> 'v server \<times> 'v outgoing" where
  "push_result F j l st =
     (if bound st \<le> length (version_buffer st ! j) then (st, [])
      else let st1 = push_state j l st in
        if some_empty st1 then (st1, [])
        else (round_state F st1\<lparr>pull_request := []\<rparr>,
              blocked_replies (round_state F st1) @ backup_requests st))"

definition valid_push :: "'v server \<Rightarrow> 'v RequestMessage \<Rightarrow> bool" where
  "valid_push st r \<longleftrightarrow> wf_push r \<and> (\<forall>k\<in>set (rq_keys r). in_range st k)"

lemma ServePush_result:
  assumes inv: "server_inv st" and a: "a \<in> set (agent_ids st)"
    and i: "id_to_index st a = Some (int j)" "j < length (version_buffer st)"
    and r: "valid_push st r" "push_list r = Inr l" "wf_kv l" "kv_keys l = rq_keys r"
    and version: "in_i32 (bottom_version st + 1)"
  shows "ServePush F a r st = Inr (push_result F j l st)"
proof -
  have self: "st\<lparr>id_to_index := id_to_index st\<rparr> = st" by simp
  have wf: "wf_counts st" "wf_agents st" "some_empty st" using inv by (simp_all add: server_inv_def)
  show ?thesis
  proof (cases "bound st \<le> length (version_buffer st ! j)")
    case True
    then show ?thesis
      using a i wf self by (simp add: ServePush_def enqueue_push_full finish_round_waits push_result_def)
  next
    case False
    let ?st = "push_state j l st"
    from False have room: "length (version_buffer st ! j) < bound st" by simp
    have p: "pushed_inv j ?st"
      by (rule pushed_inv_push [OF inv i(2) room r(3)]) (use r in \<open>simp add: valid_push_def\<close>)
    have enq: "enqueue_push (int j) r st = Inr ?st"
      by (rule enqueue_push_room [OF inv i(2) room r(2)])
    have same: "bottom_version ?st = bottom_version st" "backup_requests ?st = backup_requests st"
      by (simp_all add: push_state_def Let_def backup_requests_def predecessor_def)
    show ?thesis
    proof (cases "some_empty ?st")
      case True
      have "wf_counts ?st" "wf_agents ?st" using p by (simp_all add: pushed_inv_def)
      with True show ?thesis
        using a i enq False by (simp add: ServePush_def push_result_def finish_round_waits Let_def)
    next
      case nonempty: False
      from finish_round_ends [OF p this] version same
      show ?thesis using a i enq False nonempty by (simp add: ServePush_def push_result_def Let_def)
    qed
  qed
qed

lemma push_result_inv:
  assumes "server_inv st" "j < length (version_buffer st)" "wf_kv l"
    and "\<And>k. k \<in> set (kv_keys l) \<Longrightarrow> in_range st k"
  shows "server_inv (fst (push_result F j l st))"
proof (cases "bound st \<le> length (version_buffer st ! j)")
  case False
  then have p: "pushed_inv j (push_state j l st)" by (intro pushed_inv_push assms) auto
  show ?thesis
  proof (cases "some_empty (push_state j l st)")
    case True
    with p False show ?thesis by (simp add: push_result_def server_inv_def pushed_inv_def)
  next
    case nonempty: False
    from server_inv_round [OF p this] False nonempty show ?thesis
      by (simp add: push_result_def Let_def)
  qed
qed (use assms in \<open>simp add: push_result_def\<close>)

end
