(* ===== verification/Server_Steps.thy ===== *)
theory Server_Steps
  imports Server_Invariant
begin

text \<open>
  The handlers other than \<open>ServePush\<close>, the turn of the receiving loop, and the server as a
  transition system: a step is one turn on an admissible message. Every turn in a state of the
  invariant returns, and leads to a state of the invariant again.
\<close>

section \<open>Pull requests\<close>

text \<open>The index \<open>ServePull\<close> uses: it wraps around the ring of keys.\<close>

definition pull_index :: "'v server \<Rightarrow> int \<Rightarrow> int" where
  "pull_index st k =
     (if k - start_key st < 0 then k - start_key st + key_range st else k - start_key st)"

definition pullable :: "'v server \<Rightarrow> int \<Rightarrow> bool" where
  "pullable st k \<longleftrightarrow> in_i32 (k - start_key st) \<and> in_i32 (pull_index st k) \<and>
     0 \<le> pull_index st k \<and> pull_index st k < int (length (parameters st))"

definition blocked_pull :: "int \<Rightarrow> 'v RequestMessage \<Rightarrow> PullInfo" where
  "blocked_pull a r =
     \<lparr> pi_length = int (length (rq_keys r)), pi_id = a, pi_keys = rq_keys r \<rparr>"

lemma ServePull_unknown: "id_to_index st a = None \<Longrightarrow> ServePull a r st = Inr (st, [])"
  by (simp add: ServePull_def)

lemma ServePull_blocked:
  assumes "wf_counts st" "id_to_index st a = Some (int j)" "j < length (version_buffer st)"
    and "bound st \<le> length (version_buffer st ! j)" "in_i32 (int (length (rq_keys r)))"
  shows "ServePull a r st = Inr (st\<lparr>pull_request := pull_request st @ [blocked_pull a r]\<rparr>, [])"
proof -
  have "size_t_of_int (consistency_bound st) \<le> int (length (version_buffer st ! j))"
    using assms(1,4) by (simp add: size_t_of_int_nonneg wf_counts_def)
  moreover have "fold_res AddKey (rq_keys r) (set_id a new_PullInfo) = Inr (blocked_pull a r)"
    using assms(5)
    by (subst AddKey_all) (simp_all add: set_id_def new_PullInfo_def wf_pull_def blocked_pull_def)
  ultimately show ?thesis using assms(2,3) by (simp add: ServePull_def)
qed

lemma ServePull_reply:
  assumes "wf_counts st" "id_to_index st a = Some (int j)" "j < length (version_buffer st)"
    and "length (version_buffer st ! j) < bound st"
    and "\<And>k. k \<in> set (rq_keys r) \<Longrightarrow> pullable st k"
  shows "ServePull a r st = Inr (st, [(a, key_value_message (local_id st) a (rq_keys r)
      (map (\<lambda>k. parameters st ! nat (pull_index st k)) (rq_keys r)))])"
proof -
  have "\<not> size_t_of_int (consistency_bound st) \<le> int (length (version_buffer st ! j))"
    using assms(1,4) by (simp add: size_t_of_int_nonneg wf_counts_def)
  moreover have "map_res (\<lambda>k. bind_res (i32 (k - start_key st)) (\<lambda>d.
        bind_res (if d < 0 then i32 (d + key_range st) else Inr d) (vec_get (parameters st))))
      (rq_keys r) = Inr (map (\<lambda>k. parameters st ! nat (pull_index st k)) (rq_keys r))"
  proof (rule map_res_pure)
    fix k assume "k \<in> set (rq_keys r)"
    from assms(5) [OF this] show "bind_res (i32 (k - start_key st)) (\<lambda>d.
        bind_res (if d < 0 then i32 (d + key_range st) else Inr d) (vec_get (parameters st))) =
        Inr (parameters st ! nat (pull_index st k))"
      by (simp add: pullable_def pull_index_def split: if_splits)
  qed
  ultimately show ?thesis using assms(2,3) by (simp add: ServePull_def)
qed

lemma in_range_pullable:
  assumes "wf_range st" "in_range st k"
  shows "pullable st k" "pull_index st k = k - start_key st"
  using assms by (simp_all add: wf_range_def in_range_def pullable_def pull_index_def in_i32_iff)

lemma ServePull_in_range:
  assumes "wf_counts st" "wf_range st" "id_to_index st a = Some (int j)"
    and "j < length (version_buffer st)" "length (version_buffer st ! j) < bound st"
    and "\<And>k. k \<in> set (rq_keys r) \<Longrightarrow> in_range st k"
  shows "ServePull a r st = Inr (st, [pull_reply st a (rq_keys r)])"
proof -
  have vs: "map (\<lambda>k. parameters st ! nat (pull_index st k)) (rq_keys r) =
      map (\<lambda>k. parameters st ! nat (k - start_key st)) (rq_keys r)"
    using assms(2,6) by (simp add: in_range_pullable)
  have "\<And>k. k \<in> set (rq_keys r) \<Longrightarrow> pullable st k" by (intro in_range_pullable assms)
  from ServePull_reply [OF assms(1,3-5) this] show ?thesis by (simp add: pull_reply_def vs)
qed

definition valid_pull :: "'v server \<Rightarrow> 'v RequestMessage \<Rightarrow> bool" where
  "valid_pull st r \<longleftrightarrow> in_i32 (int (length (rq_keys r))) \<and> (\<forall>k\<in>set (rq_keys r). in_range st k)"

text \<open>The result of \<open>ServePull\<close> for a known agent.\<close>

definition pull_result :: "nat \<Rightarrow> int \<Rightarrow> 'v RequestMessage \<Rightarrow> 'v server \<Rightarrow> 'v server \<times> 'v outgoing" where
  "pull_result j a r st =
     (if bound st \<le> length (version_buffer st ! j)
      then (st\<lparr>pull_request := pull_request st @ [blocked_pull a r]\<rparr>, [])
      else (st, [pull_reply st a (rq_keys r)]))"

lemma ServePull_result:
  assumes "wf_counts st" "wf_range st" "id_to_index st a = Some (int j)"
    and "j < length (version_buffer st)" "valid_pull st r"
  shows "ServePull a r st = Inr (pull_result j a r st)"
  using assms by (simp add: pull_result_def ServePull_blocked ServePull_in_range valid_pull_def)

lemma pull_result_inv:
  assumes inv: "server_inv st" and i: "id_to_index st a = Some (int j)"
    and "j < length (version_buffer st)" "valid_pull st r"
  shows "server_inv (fst (pull_result j a r st))"
proof (cases "bound st \<le> length (version_buffer st ! j)")
  case True
  let ?st = "st\<lparr>pull_request := pull_request st @ [blocked_pull a r]\<rparr>"
  have wf: "wf_agents st" "wf_counts st" "wf_updates st" "wf_blocked st" "wf_range st"
      "wf_servers st" "some_empty st" "0 \<le> bottom_version st"
    using inv by (simp_all add: server_inv_def)
  have "version_buffer st ! j \<in> set (version_buffer st)" using assms(3) by simp
  with wf(2) True have "length (version_buffer st ! j) = bound st"
    by (fastforce simp: wf_counts_def)
  then have "wf_blocked ?st"
    using wf(4) i assms(4)
    by (auto simp: wf_blocked_def blocked_pull_def wf_pull_def valid_pull_def)
  moreover have "wf_agents ?st" "wf_counts ?st" "wf_updates ?st" "wf_range ?st" "wf_servers ?st"
      "some_empty ?st" "0 \<le> bottom_version ?st"
    using wf by (simp_all add: wf_agents_def wf_counts_def wf_updates_def wf_range_def
        wf_servers_def wf_ring_def some_empty_def)
  ultimately show ?thesis using True by (simp add: pull_result_def server_inv_def)
qed (use inv in \<open>simp add: pull_result_def\<close>)

section \<open>Backup messages\<close>

text \<open>Where the parameters of the server at position \<open>pos\<close> are kept.\<close>

definition backup_slot :: "'v server \<Rightarrow> int \<Rightarrow> int" where
  "backup_slot st pos = (local_index st - 1 - pos) mod server_num st"

lemma Backup_result:
  assumes "wf_servers st" "servers st (send_id msg) = Some pos"
    and "backup_slot st pos < backup_size st"
  shows "Backup msg st = Inr (st\<lparr>backup_parameters :=
      (backup_parameters st)[nat (backup_slot st pos) := rq_values (the_request_msg msg)]\<rparr>)"
proof -
  have pos: "0 \<le> pos" "pos < server_num st"
    and ring: "0 \<le> local_index st" "local_index st < server_num st" "in_i32 (2 * server_num st)"
      "int (length (backup_parameters st)) = backup_size st"
    using assms(1,2) by (auto simp: wf_servers_def wf_ring_def)
  have "local_index st - (pos + 1) = local_index st - 1 - pos" by simp
  with ring_index [OF ring(1,2), of "pos + 1"] pos ring(3)
  have idx: "in_i32 (local_index st - 1 - pos)" "in_i32 (local_index st - 1 - pos + server_num st)"
      "i32_rem (local_index st - 1 - pos + server_num st) (server_num st) = Inr (backup_slot st pos)"
    by (simp_all add: backup_slot_def)
  have "in_i32 (local_index st - 1)" using ring by (simp add: in_i32_iff)
  moreover have "0 \<le> backup_slot st pos" using pos by (simp add: backup_slot_def)
  moreover have "st\<lparr>servers := servers st\<rparr> = st" by simp
  ultimately show ?thesis
    using assms(2,3) idx ring(4) by (simp add: Backup_def Let_def)
qed

definition backup_reply :: "int \<Rightarrow> 'v server \<Rightarrow> 'v Message" where
  "backup_reply to st = key_value_message (local_id st) to
     [start_key st..start_key st + parameter_length st - 1] (parameters st)"

lemma RespondBackup_result:
  assumes "wf_range st"
  shows "RespondBackup to st = Inr [(to, backup_reply to st)]"
proof -
  let ?n = "length (parameters st)"
  let ?kvs = "map (\<lambda>j. (start_key st + int j, parameters st ! j)) [0..<?n]"
  have len: "parameter_length st = int ?n" using assms by (simp add: wf_range_def)
  have "map_res (\<lambda>i. bind_res (i32 (start_key st + i)) (\<lambda>k.
      bind_res (vec_get (parameters st) i) (\<lambda>v. Inr (k, v)))) (map int [0..<?n]) = Inr ?kvs"
    unfolding map_res_map
  proof (rule map_res_pure)
    fix j assume "j \<in> set [0..<?n]"
    then have "in_i32 (start_key st + int j)" using assms len by (auto simp: wf_range_def in_i32_iff)
    with \<open>j \<in> _\<close> show "bind_res (i32 (start_key st + int j)) (\<lambda>k.
        bind_res (vec_get (parameters st) (int j)) (\<lambda>v. Inr (k, v))) =
        Inr (start_key st + int j, parameters st ! j)"
      by simp
  qed
  moreover have "map fst ?kvs = [start_key st..start_key st + parameter_length st - 1]"
    unfolding len by (rule nth_equalityI) (simp_all add: nth_upto)
  moreover have "map snd ?kvs = parameters st" by (simp add: comp_def map_nth)
  ultimately show ?thesis
    unfolding RespondBackup_def backup_reply_def len upto_of_nat by simp
qed

section \<open>A turn of the receiving loop\<close>

text \<open>
  The messages the system sends to a server whose key range does not wrap, between two
  reconfigurations: backups come from the predecessors that were asked, and requests name only
  keys of the server's range.
\<close>

definition admissible :: "'v server \<Rightarrow> 'v Message \<Rightarrow> bool" where
  "admissible st msg =
     (case servers st (send_id msg) of
        Some pos \<Rightarrow> request_msg msg = None \<or> backup_slot st pos < backup_size st
      | None \<Rightarrow> (case message_type msg of
          Message_MessageType_request \<Rightarrow>
            (case request_type (the_request_msg msg) of
               RequestType_key_value \<Rightarrow> valid_push st (the_request_msg msg)
             | RequestType_key \<Rightarrow> valid_pull st (the_request_msg msg)
             | _ \<Rightarrow> True)
        | Message_MessageType_config \<Rightarrow> False
        | _ \<Rightarrow> True))"

lemma wf_servers_backup:
  "wf_servers st \<Longrightarrow> length bp = length (backup_parameters st) \<Longrightarrow>
   wf_servers (st\<lparr>backup_parameters := bp\<rparr>)"
  by (simp add: wf_servers_def wf_ring_def)

lemma server_inv_backup:
  assumes "server_inv st" "length bp = length (backup_parameters st)"
  shows "server_inv (st\<lparr>backup_parameters := bp\<rparr>)"
  using assms wf_servers_backup [of st bp]
  by (simp add: server_inv_def wf_agents_def wf_counts_def wf_updates_def wf_blocked_def
      wf_range_def some_empty_def in_range_def)

lemma ServePush_returns:
  assumes "server_inv st" "valid_push st r" "in_i32 (bottom_version st + 1)"
  shows "returns (ServePush F a r st) (\<lambda>(st', out). server_inv st')"
proof (cases "a \<in> set (agent_ids st)")
  case True
  have "wf_agents st" using assms(1) by (simp add: server_inv_def)
  then obtain j where j: "id_to_index st a = Some (int j)" "j < length (version_buffer st)"
    using True by (rule known_index)
  obtain l where l: "push_list r = Inr l" "wf_kv l" "kv_keys l = rq_keys r"
    using push_list_pairs [of r] assms(2) by (auto simp: valid_push_def)
  have "server_inv (fst (push_result F j l st))"
    by (rule push_result_inv [OF assms(1) j(2) l(2)]) (use assms(2) l in \<open>simp add: valid_push_def\<close>)
  then show ?thesis
    using ServePush_result [OF assms(1) True j assms(2) l assms(3)]
    by (simp add: case_prod_beta)
qed (use assms in \<open>simp add: ServePush_def\<close>)

lemma ServePull_returns:
  assumes "server_inv st" "valid_pull st r"
  shows "returns (ServePull a r st) (\<lambda>(st', out). server_inv st')"
proof (cases "a \<in> set (agent_ids st)")
  case True
  have wf: "wf_agents st" "wf_counts st" "wf_range st" using assms(1) by (simp_all add: server_inv_def)
  from wf(1) True obtain j where j: "id_to_index st a = Some (int j)" "j < length (version_buffer st)"
    by (rule known_index)
  show ?thesis
    using ServePull_result [OF wf(2,3) j assms(2)] pull_result_inv [OF assms(1) j assms(2)]
    by (simp add: case_prod_beta)
next
  case False
  then have "id_to_index st a = None" using assms(1) by (auto simp: server_inv_def wf_agents_def)
  then show ?thesis using assms(1) by (simp add: ServePull_unknown)
qed

lemma Start_turn_returns:
  assumes inv: "server_inv st" and adm: "admissible st msg" and "in_i32 (bottom_version st + 1)"
  shows "returns (Start_turn F zc msg st) (\<lambda>(st', out). server_inv st')"
proof (cases "servers st (send_id msg)")
  case (Some pos)
  have wf: "wf_servers st" "wf_range st" using inv by (simp_all add: server_inv_def)
  show ?thesis
  proof (cases "request_msg msg = None")
    case True
    then show ?thesis using Some inv wf by (simp add: Start_turn_def RespondBackup_result)
  next
    case False
    then have "backup_slot st pos < backup_size st" using adm Some by (auto simp: admissible_def)
    from Backup_result [OF wf(1) Some this] show ?thesis
      using Some False inv by (simp add: Start_turn_def server_inv_backup)
  qed
next
  case None
  let ?r = "the_request_msg msg"
  show ?thesis
  proof (cases "message_type msg = Message_MessageType_request")
    case True
    then show ?thesis
      using None adm ServePush_returns [OF inv _ assms(3), of ?r F "send_id msg"]
        ServePull_returns [OF inv, of ?r "send_id msg"] inv
      by (cases "request_type ?r") (simp_all add: Start_turn_def admissible_def)
  next
    case False
    then have "message_type msg \<noteq> Message_MessageType_config"
      using None adm by (auto simp: admissible_def)
    with False None inv show ?thesis by (simp add: Start_turn_def)
  qed
qed

section \<open>The server as a transition system\<close>

text \<open>
  The version counter is an \<open>int32\<close>; the system is considered up to the round at which it
  would overflow.
\<close>

inductive server_step ::
    "'v fops \<Rightarrow> (socket \<Rightarrow> int) \<Rightarrow> 'v server \<Rightarrow> 'v server \<Rightarrow> bool" for F zc where
  turn: "admissible st msg \<Longrightarrow> bottom_version st < kInt32Max \<Longrightarrow>
    Start_turn F zc msg st = Inr (st', out) \<Longrightarrow> server_step F zc st st'"

lemma version_in_i32:
  "server_inv st \<Longrightarrow> bottom_version st < kInt32Max \<Longrightarrow> in_i32 (bottom_version st + 1)"
  by (simp add: server_inv_def in_i32_iff kInt32Max_def)

inductive_cases server_stepE: "server_step F zc st st'"

end
