(* ===== verification/Server_Config.thy ===== *)
theory Server_Config
  imports Server_Steps
begin

text \<open>
  Configuration of the parameter server: what \<open>Initialize\<close> makes of the configuration
  message, that the state it leaves satisfies the invariant, and the exchange of backups
  between two configured servers.
\<close>

section \<open>The ring of servers in a configuration\<close>

text \<open>The distance from the hash value of server \<open>i\<close> to the next one on the ring of keys.\<close>

definition ring_dist :: "ConfigMessage \<Rightarrow> int \<Rightarrow> int" where
  "ring_dist cfg i = (cf_partition cfg ! nat ((i + 1) mod cf_server_num cfg)
     - cf_partition cfg ! nat i) mod cf_key_range cfg"

definition wf_layout :: "ConfigMessage \<Rightarrow> bool" where
  "wf_layout cfg \<longleftrightarrow> 1 \<le> cf_server_num cfg \<and> in_i32 (2 * cf_server_num cfg) \<and>
     0 < cf_key_range cfg \<and> in_i32 (2 * cf_key_range cfg) \<and>
     int (length (cf_server_id cfg)) = cf_server_num cfg \<and> distinct (cf_server_id cfg) \<and>
     cf_server_num cfg \<le> int (length (cf_partition cfg)) \<and>
     (\<forall>p\<in>set (cf_partition cfg). 0 \<le> p \<and> p < cf_key_range cfg)"

lemma layout_partition:
  assumes "wf_layout cfg" "0 \<le> i" "i < cf_server_num cfg"
  shows "vec_get (cf_partition cfg) i = Inr (cf_partition cfg ! nat i)"
    and "0 \<le> cf_partition cfg ! nat i" "cf_partition cfg ! nat i < cf_key_range cfg"
proof -
  have "i < int (length (cf_partition cfg))" using assms by (auto simp: wf_layout_def)
  with assms(2) show "vec_get (cf_partition cfg) i = Inr (cf_partition cfg ! nat i)" by simp
  have "cf_partition cfg ! nat i \<in> set (cf_partition cfg)"
    using assms(2) \<open>i < int _\<close> by (intro nth_mem) linarith
  with assms(1) show "0 \<le> cf_partition cfg ! nat i" "cf_partition cfg ! nat i < cf_key_range cfg"
    by (simp_all add: wf_layout_def)
qed

lemma range_length_dist:
  assumes "wf_layout cfg" "0 \<le> i" "i < cf_server_num cfg"
  shows "range_length cfg (cf_key_range cfg) (cf_server_num cfg) i = Inr (ring_dist cfg i)"
proof -
  let ?n = "cf_server_num cfg" and ?kr = "cf_key_range cfg"
  have n: "1 \<le> ?n" "in_i32 (2 * ?n)" "0 < ?kr" "in_i32 (2 * ?kr)"
    using assms(1) by (simp_all add: wf_layout_def)
  then have small: "in_i32 ?n" "in_i32 ?kr" "in_i32 (i + 1)" using assms(2,3) by (simp_all add: in_i32_iff)
  let ?j = "(i + 1) mod ?n"
  have j: "0 \<le> ?j" "?j < ?n" using n by simp_all
  note a = layout_partition [OF assms] and b = layout_partition [OF assms(1) j]
  let ?d = "cf_partition cfg ! nat ?j - cf_partition cfg ! nat i"
  have "in_i32 ?d" "in_i32 (?d + ?kr)" "0 \<le> ?d + ?kr" using a b n(4) by (simp_all add: in_i32_iff)
  moreover have "i32_rem (i + 1) ?n = Inr ?j" using assms(2) n small by (simp add: i32_rem_nonneg)
  moreover have "i32_rem (?d + ?kr) ?kr = Inr (ring_dist cfg i)"
    using \<open>0 \<le> ?d + ?kr\<close> n small by (simp add: i32_rem_nonneg ring_dist_def)
  ultimately show ?thesis using a(1) b(1) small by (simp add: range_length_def)
qed

lemma ring_dist_bounds: "wf_layout cfg \<Longrightarrow> 0 \<le> ring_dist cfg i \<and> ring_dist cfg i < cf_key_range cfg"
  by (simp add: ring_dist_def wf_layout_def)

section \<open>The loop over the servers\<close>

text \<open>The state without the fields that the loop over the servers assigns.\<close>

definition others :: "'v server \<Rightarrow> 'v server" where
  "others st = st\<lparr>server_ids := [], servers := Map.empty, local_index := 0, start_key := 0,
     parameter_length := 0, backup_parameters := []\<rparr>"

lemma others_eqD:
  assumes "others st = others st'"
  shows "local_id st = local_id st'" "server_num st = server_num st'" "key_range st = key_range st'"
    "backup_size st = backup_size st'" "consistency_bound st = consistency_bound st'"
    "agent_num st = agent_num st'" "bottom_version st = bottom_version st'"
    "agent_ids st = agent_ids st'" "id_to_index st = id_to_index st'"
    "parameters st = parameters st'" "version_buffer st = version_buffer st'"
    "finish_count st = finish_count st'" "pull_request st = pull_request st'"
    "sender st = sender st'" "master_ids st = master_ids st'"
  using arg_cong [OF assms, of local_id] arg_cong [OF assms, of server_num]
    arg_cong [OF assms, of key_range] arg_cong [OF assms, of backup_size]
    arg_cong [OF assms, of consistency_bound] arg_cong [OF assms, of agent_num]
    arg_cong [OF assms, of bottom_version] arg_cong [OF assms, of agent_ids]
    arg_cong [OF assms, of id_to_index] arg_cong [OF assms, of parameters]
    arg_cong [OF assms, of version_buffer] arg_cong [OF assms, of finish_count]
    arg_cong [OF assms, of pull_request] arg_cong [OF assms, of sender]
    arg_cong [OF assms, of master_ids]
  by (simp_all add: others_def)

text \<open>What is known after \<open>j\<close> passes, when this server stands at position \<open>idx\<close>.\<close>

definition servers_added :: "ConfigMessage \<Rightarrow> nat \<Rightarrow> 'v server \<Rightarrow> nat \<Rightarrow> 'v server \<times> bool \<Rightarrow> bool" where
  "servers_added cfg idx st0 j x \<longleftrightarrow> (case x of (st, found) \<Rightarrow>
     others st = others st0 \<and> server_ids st = take j (cf_server_id cfg) \<and>
     (\<forall>s i. servers st s = Some i \<longleftrightarrow> 0 \<le> i \<and> i < int j \<and> cf_server_id cfg ! nat i = s) \<and>
     (found \<longleftrightarrow> idx < j) \<and>
     (idx < j \<longrightarrow> local_index st = int idx \<and> start_key st = cf_partition cfg ! idx \<and>
        parameter_length st = ring_dist cfg (int idx)))"

lemma servers_insert:
  assumes "distinct sids" "j < length sids"
    and "\<forall>s i. m s = Some i \<longleftrightarrow> 0 \<le> i \<and> i < int j \<and> sids ! nat i = s"
  shows "map_insert (sids ! j) (int j) m s = Some i \<longleftrightarrow> 0 \<le> i \<and> i < int (Suc j) \<and> sids ! nat i = s"
proof -
  have "m (sids ! j) = None"
  proof (rule ccontr)
    assume "m (sids ! j) \<noteq> None"
    then obtain i where "0 \<le> i" "i < int j" "sids ! nat i = sids ! j" using assms(3) by auto
    with assms(1,2) show False by (simp add: nth_eq_iff_index_eq)
  qed
  then have "map_insert (sids ! j) (int j) m s = (if s = sids ! j then Some (int j) else m s)"
    by (simp add: map_insert_lookup)
  moreover have "0 \<le> i \<and> i < int (Suc j) \<and> sids ! nat i = s \<longleftrightarrow>
      (i = int j \<and> s = sids ! j) \<or> (0 \<le> i \<and> i < int j \<and> sids ! nat i = s)"
    by (cases "i = int j") auto
  moreover have "\<not> (0 \<le> i \<and> i < int j \<and> sids ! nat i = sids ! j)"
    using assms(1,2) by (auto simp: nth_eq_iff_index_eq)
  ultimately show ?thesis using assms(3) by auto
qed

lemma add_server_adds:
  assumes cfg: "wf_layout cfg" "idx < length (cf_server_id cfg)"
    and st0: "local_id st0 = cf_server_id cfg ! idx" "server_num st0 = cf_server_num cfg"
      "key_range st0 = cf_key_range cfg"
    and j: "j < length (cf_server_id cfg)" and I: "servers_added cfg idx st0 j (st, found)"
  shows "returns (add_server cfg (int j) (st, found)) (\<lambda>(st', found').
      servers_added cfg idx st0 (Suc j) (st', found') \<and>
      backup_parameters st' = backup_parameters st)"
proof -
  let ?sid = "cf_server_id cfg ! j"
  let ?st1 = "st\<lparr>server_ids := server_ids st @ [?sid], servers := map_insert ?sid (int j) (servers st)\<rparr>"
  have o: "others st = others st0" using I by (simp add: servers_added_def)
  note sel = others_eqD [OF o]
  have dist: "distinct (cf_server_id cfg)" "int (length (cf_server_id cfg)) = cf_server_num cfg"
    using cfg(1) by (simp_all add: wf_layout_def)
  have ids: "server_ids ?st1 = take (Suc j) (cf_server_id cfg)"
    using I j by (simp add: servers_added_def nth_take_Suc)
  have servers: "\<forall>s i. servers ?st1 s = Some i \<longleftrightarrow>
      0 \<le> i \<and> i < int (Suc j) \<and> cf_server_id cfg ! nat i = s"
    using servers_insert [OF dist(1) j, of "servers st"] I by (simp add: servers_added_def)
  have others1: "others ?st1 = others st0" using o by (simp add: others_def)
  show ?thesis
  proof (cases "?sid = local_id st")
    case True
    then have "j = idx" using sel(1) st0(1) dist(1) j cfg(2) by (simp add: nth_eq_iff_index_eq)
    let ?st2 = "?st1\<lparr>local_index := int j, start_key := cf_partition cfg ! j,
        parameter_length := ring_dist cfg (int j)\<rparr>"
    have lt: "int j < cf_server_num cfg" using j dist(2) by simp
    have "range_length cfg (key_range ?st1) (server_num ?st1) (int j) = Inr (ring_dist cfg (int j))"
      using range_length_dist [OF cfg(1), of "int j"] lt sel st0 by simp
    moreover have "vec_get (cf_partition cfg) (int j) = Inr (cf_partition cfg ! j)"
      using layout_partition(1) [OF cfg(1), of "int j"] lt by simp
    ultimately have "add_server cfg (int j) (st, found) = Inr (?st2, True)"
      using True j by (simp add: add_server_def Let_def)
    moreover have "others ?st2 = others st0" using others1 by (simp add: others_def)
    ultimately show ?thesis
      using ids servers \<open>j = idx\<close> by (simp add: servers_added_def)
  next
    case False
    then have "j \<noteq> idx" using sel(1) st0(1) by auto
    then have "idx < Suc j \<longleftrightarrow> idx < j" by auto
    moreover have "add_server cfg (int j) (st, found) = Inr (?st1, found)"
      using False j by (simp add: add_server_def Let_def)
    ultimately show ?thesis using I ids servers others1 by (simp add: servers_added_def)
  qed
qed

section \<open>Initialize\<close>

text \<open>An object as the constructor of \<open>Server\<close> leaves it: every container is empty.\<close>

definition fresh_server :: "'v server \<Rightarrow> bool" where
  "fresh_server st \<longleftrightarrow> server_ids st = [] \<and> servers st = Map.empty \<and> backup_parameters st = [] \<and>
     agent_ids st = [] \<and> master_ids st = [] \<and> id_to_index st = Map.empty \<and> parameters st = [] \<and>
     finish_count st = [] \<and> version_buffer st = [] \<and> pull_request st = []"

definition wf_config :: "ConfigMessage \<Rightarrow> bool" where
  "wf_config cfg \<longleftrightarrow> wf_layout cfg \<and> 0 \<le> cf_backup_size cfg \<and>
     cf_backup_size cfg < cf_server_num cfg \<and> 1 \<le> cf_bound cfg \<and> in_i32 (cf_bound cfg) \<and>
     1 \<le> cf_worker_num cfg \<and> in_i32 (cf_worker_num cfg) \<and>
     int (length (cf_worker_id cfg)) = cf_worker_num cfg \<and> distinct (cf_worker_id cfg)"

definition backup_zeros :: "'v fops \<Rightarrow> ConfigMessage \<Rightarrow> nat \<Rightarrow> 'v list list" where
  "backup_zeros F cfg idx = map (\<lambda>j. replicate
     (nat (ring_dist cfg ((int idx - j) mod cf_server_num cfg))) (fzero F)) [1..cf_backup_size cfg]"

lemma init_backups_zeros:
  assumes "wf_layout cfg" "int idx < cf_server_num cfg"
    and "server_num st = cf_server_num cfg" "key_range st = cf_key_range cfg"
    and "backup_size st = cf_backup_size cfg" "cf_backup_size cfg < cf_server_num cfg"
  shows "init_backups F cfg (int idx) st =
      Inr (st\<lparr>backup_parameters := backup_parameters st @ backup_zeros F cfg idx\<rparr>)"
proof -
  let ?n = "cf_server_num cfg"
  let ?body = "\<lambda>j. bind_res (i32 (int idx - j)) (\<lambda>d. bind_res (i32 (d + server_num st)) (\<lambda>e.
      bind_res (i32_rem e (server_num st)) (\<lambda>target.
      bind_res (range_length cfg (key_range st) (server_num st) target) (zero_vector F))))"
  have "map_res ?body [1..backup_size st] = Inr (backup_zeros F cfg idx)"
    unfolding backup_zeros_def assms(5)
  proof (rule map_res_pure)
    fix j assume "j \<in> set [1..cf_backup_size cfg]"
    then have j: "0 \<le> j" "j \<le> ?n" using assms(6) by auto
    have n: "in_i32 (2 * ?n)" "0 < ?n" using assms(1) by (simp_all add: wf_layout_def)
    let ?t = "(int idx - j) mod ?n"
    have "0 \<le> ?t" "?t < ?n" using n by simp_all
    from range_length_dist [OF assms(1) this] ring_dist_bounds [OF assms(1), of ?t]
      ring_index [OF _ assms(2) j n(1)]
    show "?body j = Inr (replicate (nat (ring_dist cfg ?t)) (fzero F))"
      by (simp add: assms(3,4) zero_vector_def)
  qed
  then show ?thesis by (simp add: init_backups_def)
qed

lemma add_server_init_adds:
  assumes cfg: "wf_layout cfg" "idx < length (cf_server_id cfg)"
      "cf_backup_size cfg < cf_server_num cfg"
    and st0: "local_id st0 = cf_server_id cfg ! idx" "server_num st0 = cf_server_num cfg"
      "key_range st0 = cf_key_range cfg" "backup_size st0 = cf_backup_size cfg"
    and j: "j < length (cf_server_id cfg)"
    and I: "servers_added cfg idx st0 j x \<and>
      backup_parameters (fst x) = (if idx < j then backup_zeros F cfg idx else [])"
  shows "returns (add_server_init F cfg (int j) x) (\<lambda>x'.
      servers_added cfg idx st0 (Suc j) x' \<and>
      backup_parameters (fst x') = (if idx < Suc j then backup_zeros F cfg idx else []))"
proof -
  obtain st found where x: "x = (st, found)" by force
  have dist: "distinct (cf_server_id cfg)" "int (length (cf_server_id cfg)) = cf_server_num cfg"
    using cfg(1) by (simp_all add: wf_layout_def)
  have "servers_added cfg idx st0 j (st, found)" using I by (simp add: x)
  from add_server_adds [OF cfg(1,2) st0(1-3) j this] obtain st1 found1 where
    add: "add_server cfg (int j) x = Inr (st1, found1)"
    and I1: "servers_added cfg idx st0 (Suc j) (st1, found1)"
    and bp: "backup_parameters st1 = (if idx < j then backup_zeros F cfg idx else [])"
    using I by (auto simp: x returns_iff)
  have o: "others st1 = others st0" using I1 by (simp add: servers_added_def)
  note sel = others_eqD [OF o]
  show ?thesis
  proof (cases "j = idx")
    case True
    have "int idx < cf_server_num cfg" using cfg(2) dist(2) by simp
    then have "init_backups F cfg (int j) st1 =
        Inr (st1\<lparr>backup_parameters := backup_zeros F cfg idx\<rparr>)"
      using init_backups_zeros [OF cfg(1), of idx st1 F] sel st0 cfg(3) bp True by simp
    moreover have "servers_added cfg idx st0 (Suc j)
        (st1\<lparr>backup_parameters := backup_zeros F cfg idx\<rparr>, found1)"
      using I1 by (simp add: servers_added_def others_def)
    ultimately show ?thesis
      using add j sel(1) st0(1) True by (simp add: add_server_init_def)
  next
    case False
    then have "cf_server_id cfg ! j \<noteq> local_id st1"
      using sel(1) st0(1) dist(1) j cfg(2) by (simp add: nth_eq_iff_index_eq)
    moreover have "idx < Suc j \<longleftrightarrow> idx < j" using False by auto
    ultimately show ?thesis using add I1 bp j by (simp add: add_server_init_def)
  qed
qed

text \<open>The index of every agent, after the loop over \<open>worker_id\<close>.\<close>

lemma worker_index:
  assumes "distinct ws"
  defines "m \<equiv> map_of (rev (zip ws [0..int (length ws) - 1]))"
  shows "dom m = set ws" "ran m = {0..<int (length ws)}" "inj_on m (dom m)"
    and "\<forall>j<length ws. m (ws ! j) = Some (int j)"
proof -
  let ?ys = "[0..int (length ws) - 1]"
  have len: "length ?ys = length ws" by simp
  have key: "distinct (map fst (zip ws ?ys))" using assms(1) len by (simp add: map_fst_zip)
  then have m: "m = map_of (zip ws ?ys)"
    unfolding m_def by (intro map_of_inject_set [THEN iffD2]) (simp_all add: rev_map [symmetric] key)
  show "dom m = set ws" unfolding m using len by simp
  show "\<forall>j<length ws. m (ws ! j) = Some (int j)"
    unfolding m using assms(1) len map_of_zip_nth [of ws ?ys] by (simp add: nth_upto)
  show "ran m = {0..<int (length ws)}"
    unfolding m using assms(1) len by (subst ran_map_of_zip) auto
  show "inj_on m (dom m)"
  proof (rule inj_onI)
    fix a b assume "a \<in> dom m" and eq: "m a = m b"
    then obtain i where "m a = Some i" by blast
    with eq have "m b = Some i" by simp
    with \<open>m a = Some i\<close> have "(a, i) \<in> set (zip ws ?ys)" "(b, i) \<in> set (zip ws ?ys)"
      unfolding m by (auto dest: map_of_SomeD)
    then show "a = b" by (auto simp: set_zip nth_upto)
  qed
qed

lemma fold_set_insert: "set (fold set_insert xs ys) = set ys \<union> set xs"
  by (induction xs arbitrary: ys) auto

text \<open>What \<open>Initialize\<close> leaves when the configuration names this server at position \<open>idx\<close>.\<close>

definition configured :: "'v fops \<Rightarrow> ConfigMessage \<Rightarrow> nat \<Rightarrow> 'v server \<Rightarrow> bool" where
  "configured F cfg idx st \<longleftrightarrow> server_inv st \<and>
     local_id st = cf_server_id cfg ! idx \<and> local_index st = int idx \<and>
     server_ids st = cf_server_id cfg \<and> server_num st = cf_server_num cfg \<and>
     key_range st = cf_key_range cfg \<and> start_key st = cf_partition cfg ! idx \<and>
     parameter_length st = ring_dist cfg (int idx) \<and>
     parameters st = replicate (nat (ring_dist cfg (int idx))) (fzero F) \<and>
     backup_size st = cf_backup_size cfg \<and> backup_parameters st = backup_zeros F cfg idx \<and>
     bottom_version st = 0 \<and> consistency_bound st = cf_bound cfg \<and>
     agent_num st = cf_worker_num cfg \<and> set (agent_ids st) = set (cf_worker_id cfg) \<and>
     (\<forall>j<length (cf_worker_id cfg). id_to_index st (cf_worker_id cfg ! j) = Some (int j)) \<and>
     version_buffer st = replicate (nat (cf_worker_num cfg)) [] \<and> pull_request st = []"

lemma initial_inv:
  assumes cfg: "wf_config cfg" and idx: "idx < length (cf_server_id cfg)"
    and I: "servers_added cfg idx st0 (length (cf_server_id cfg)) (st, found)"
    and bp: "backup_parameters st = backup_zeros F cfg idx"
    and st0: "server_num st0 = cf_server_num cfg" "backup_size st0 = cf_backup_size cfg"
      "consistency_bound st0 = cf_bound cfg" "agent_num st0 = cf_worker_num cfg"
      "bottom_version st0 = 0" "pull_request st0 = []"
    and st': "st' = st\<lparr>agent_ids := as, master_ids := ms,
      id_to_index := map_of (rev (zip (cf_worker_id cfg) [0..cf_worker_num cfg - 1])),
      parameters := replicate (nat (ring_dist cfg (int idx))) (fzero F),
      finish_count := replicate (nat (cf_bound cfg)) 0,
      version_buffer := replicate (nat (cf_worker_num cfg)) []\<rparr>"
    and as: "set as = set (cf_worker_id cfg)"
  shows "server_inv st'"
proof -
  have layout: "wf_layout cfg" and w: "1 \<le> cf_worker_num cfg" "in_i32 (cf_worker_num cfg)"
      "int (length (cf_worker_id cfg)) = cf_worker_num cfg" "distinct (cf_worker_id cfg)"
    and b: "1 \<le> cf_bound cfg" "in_i32 (cf_bound cfg)"
    and bk: "0 \<le> cf_backup_size cfg" "cf_backup_size cfg < cf_server_num cfg"
    using cfg by (simp_all add: wf_config_def)
  have o: "others st = others st0" using I by (simp add: servers_added_def)
  note sel = others_eqD [OF o]
  have n: "int (length (cf_server_id cfg)) = cf_server_num cfg" "in_i32 (2 * cf_server_num cfg)"
      "in_i32 (2 * cf_key_range cfg)"
    using layout by (simp_all add: wf_layout_def)
  note index = worker_index [OF w(4), unfolded w(3)]
  have "wf_agents st'" using w index as by (simp add: wf_agents_def st' sel st0)
  moreover have "wf_counts st'"
    using b by (simp add: wf_counts_def st' sel st0 ahead_def)
  moreover have "wf_updates st'" by (simp add: wf_updates_def st')
  moreover have "wf_blocked st'" by (simp add: wf_blocked_def st' sel st0)
  moreover have "wf_range st'"
  proof -
    have "start_key st = cf_partition cfg ! idx" "parameter_length st = ring_dist cfg (int idx)"
      using I idx by (simp_all add: servers_added_def)
    with layout_partition [OF layout, of "int idx"] ring_dist_bounds [OF layout, of "int idx"] idx n
    show ?thesis by (simp add: wf_range_def st' in_i32_iff)
  qed
  moreover have "wf_servers st'"
  proof -
    have "length (backup_zeros F cfg idx) = nat (cf_backup_size cfg)" by (simp add: backup_zeros_def)
    then show ?thesis
      using I idx n bk bp by (simp add: wf_servers_def wf_ring_def servers_added_def st' sel st0)
  qed
  moreover have "some_empty st'" using w(1) by (simp add: some_empty_def st')
  moreover have "0 \<le> bottom_version st'" by (simp add: st' sel st0)
  ultimately show ?thesis by (simp add: server_inv_def)
qed

lemma configure_configured:
  assumes fresh: "fresh_server st" and m: "config_msg m = Some cfg" and cfg: "wf_config cfg"
    and idx: "idx < length (cf_server_id cfg)" "recv_id m = cf_server_id cfg ! idx"
  shows "returns (configure F m st) (\<lambda>(ok, st'). ok \<and> configured F cfg idx st')"
proof -
  let ?addrs = "cf_node_ip_port cfg"
  let ?st1 = "st\<lparr>local_id := recv_id m, bottom_version := 0, consistency_bound := cf_bound cfg,
      agent_num := cf_worker_num cfg, server_num := cf_server_num cfg,
      sender := fold (\<lambda>i c. snd (AddIdAddr i (?addrs ! nat i) c)) [1..int (length ?addrs) - 1] (sender st),
      backup_size := cf_backup_size cfg\<rparr>"
  let ?st0 = "?st1\<lparr>key_range := cf_key_range cfg\<rparr>"
  let ?n = "length (cf_server_id cfg)"
  have layout: "wf_layout cfg" and bk: "0 \<le> cf_backup_size cfg" "cf_backup_size cfg < cf_server_num cfg"
    and w: "int (length (cf_worker_id cfg)) = cf_worker_num cfg" "distinct (cf_worker_id cfg)"
    using cfg by (simp_all add: wf_config_def)
  have n: "cf_server_num cfg = int ?n" using layout by (simp add: wf_layout_def)
  have "returns (fold_res (add_server_init F cfg) [0..int ?n - 1] (?st0, False)) (\<lambda>x.
      servers_added cfg idx ?st0 ?n x \<and>
      backup_parameters (fst x) = (if idx < ?n then backup_zeros F cfg idx else []))"
  proof (rule returns_fold_count [where I = "\<lambda>j x. servers_added cfg idx ?st0 j x \<and>
      backup_parameters (fst x) = (if idx < j then backup_zeros F cfg idx else [])"])
    fix j x assume "j < ?n" "servers_added cfg idx ?st0 j x \<and>
      backup_parameters (fst x) = (if idx < j then backup_zeros F cfg idx else [])"
    then show "returns (add_server_init F cfg (int j) x) (\<lambda>x. servers_added cfg idx ?st0 (Suc j) x \<and>
      backup_parameters (fst x) = (if idx < Suc j then backup_zeros F cfg idx else []))"
      by (rule add_server_init_adds [OF layout idx(1) bk(2), rotated 4]) (simp_all add: idx)
  qed (use fresh in \<open>simp add: servers_added_def fresh_server_def\<close>)
  then obtain st2 found where
    loop: "fold_res (add_server_init F cfg) [0..int ?n - 1] (?st0, False) = Inr (st2, found)"
    and I: "servers_added cfg idx ?st0 ?n (st2, found)"
    and bp: "backup_parameters st2 = backup_zeros F cfg idx"
    using idx(1) by (auto simp: returns_iff)
  have o: "others st2 = others ?st0" using I by (simp add: servers_added_def)
  note sel = others_eqD [OF o]
  have found: found using I idx(1) by (simp add: servers_added_def)
  have ws: "map_res (vec_get (cf_worker_id cfg)) [0..agent_num st2 - 1] = Inr (cf_worker_id cfg)"
  proof -
    have "map_res (vec_get (cf_worker_id cfg)) [0..int (length (cf_worker_id cfg)) - 1] =
        map_res Inr (cf_worker_id cfg)" by (rule map_res_nth) simp
    also have "\<dots> = Inr (cf_worker_id cfg)" using map_res_pure [of "cf_worker_id cfg" Inr id] by simp
    finally show ?thesis using w(1) by (simp add: sel)
  qed
  have p2: "parameter_length st2 = ring_dist cfg (int idx)" "start_key st2 = cf_partition cfg ! idx"
      "local_index st2 = int idx" "server_ids st2 = cf_server_id cfg"
    using I idx(1) by (simp_all add: servers_added_def)
  define st3 where "st3 = st2\<lparr>
      agent_ids := fold set_insert (cf_worker_id cfg) [],
      master_ids := cf_master_id cfg,
      id_to_index := map_of (rev (zip (cf_worker_id cfg) [0..cf_worker_num cfg - 1])),
      parameters := replicate (nat (ring_dist cfg (int idx))) (fzero F),
      finish_count := replicate (nat (cf_bound cfg)) 0,
      version_buffer := replicate (nat (cf_worker_num cfg)) []\<rparr>"
  have "\<not> (cf_backup_size cfg < 0 \<or> cf_server_num cfg \<le> cf_backup_size cfg)" using bk by simp
  then have "configure F m st = Inr (True, st3)"
    using loop found ws fresh
    by (simp add: configure_def m Let_def n fresh_server_def sel p2 st3_def)
  moreover have "server_inv st3"
    by (rule initial_inv [OF cfg idx(1) I bp _ _ _ _ _ _ st3_def])
      (use fresh in \<open>simp_all add: fresh_server_def fold_set_insert\<close>)
  moreover have "configured F cfg idx st3"
    using \<open>server_inv st3\<close> p2 bp fresh idx(2) worker_index(4) [OF w(2), unfolded w(1)]
    by (simp add: configured_def st3_def sel fold_set_insert fresh_server_def)
  ultimately show ?thesis by simp
qed

end
