(* ===== verification/Server_SSP.thy ===== *)
theory Server_SSP
  imports Server_Config
begin

text \<open>
  The consistency model of the server as an abstract machine, and the refinement.

  The abstract state is the history \<open>h\<close>: for every agent the list of all its accepted
  updates. An agent's clock is the length of its list. Stale synchronous parallelism with bound
  \<open>s\<close> accepts an update only while the agent is fewer than \<open>s\<close> updates ahead of the slowest
  one, and the parameters are those of the rounds that every agent has finished. The server keeps
  neither the history nor the clocks: \<open>ssp_rep\<close> relates its queues, its version counter and
  its vector to the history, and every push preserves it.
\<close>

section \<open>The abstract machine\<close>

type_synonym 'v history = "(int \<times> 'v) list list list"

definition min_clock :: "'v history \<Rightarrow> nat" where
  "min_clock h = Min (length ` set h)"

definition ssp_push :: "nat \<Rightarrow> nat \<Rightarrow> (int \<times> 'v) list \<Rightarrow> 'v history \<Rightarrow> 'v history" where
  "ssp_push s j u h = (if length (h ! j) < min_clock h + s then h[j := h ! j @ [u]] else h)"

definition ssp_round :: "'v history \<Rightarrow> nat \<Rightarrow> (int \<times> 'v) list list" where
  "ssp_round h v = map (\<lambda>us. us ! v) h"

text \<open>The parameters after the first \<open>v\<close> rounds.\<close>

definition ssp_params :: "'v fops \<Rightarrow> int \<Rightarrow> nat \<Rightarrow> 'v history \<Rightarrow> nat \<Rightarrow> 'v list" where
  "ssp_params F start len h v =
     fold (\<lambda>v. apply_round F start (ssp_round h v)) [0..<v] (replicate len (fzero F))"

lemma min_clock_le: "us \<in> set h \<Longrightarrow> min_clock h \<le> length us"
  by (simp add: min_clock_def)

lemma min_clock_eqI:
  assumes "us \<in> set h" "length us = n" "\<And>us. us \<in> set h \<Longrightarrow> n \<le> length us"
  shows "min_clock h = n"
  using assms by (auto simp: min_clock_def intro!: Min_eqI)

lemma length_ssp_push [simp]: "length (ssp_push s j u h) = length h"
  by (simp add: ssp_push_def)

lemma nth_ssp_push:
  assumes "j < length h" "i < length h"
  shows "length (h ! i) \<le> length (ssp_push s j u h ! i)"
    and "0 < s \<Longrightarrow> min_clock h < length (ssp_push s j u h ! j)"
  using assms min_clock_le [of "h ! j" h]
  by (auto simp: ssp_push_def nth_list_update)

lemma min_clock_greater:
  assumes "h \<noteq> []" "\<And>i. i < length h \<Longrightarrow> n < length (h ! i)"
  shows "n < min_clock h"
  using assms by (auto simp: min_clock_def in_set_conv_nth)

lemma min_clock_ssp_push:
  assumes "j < length h"
  shows "min_clock h \<le> min_clock (ssp_push s j u h)"
proof -
  have "min_clock h \<le> length us" if "us \<in> set (ssp_push s j u h)" for us
  proof -
    from that obtain i where i: "i < length h" "us = ssp_push s j u h ! i"
      by (auto simp: in_set_conv_nth)
    then have "length (h ! i) \<le> length us" using nth_ssp_push(1) [OF assms i(1)] by simp
    moreover have "min_clock h \<le> length (h ! i)" using i(1) by (simp add: min_clock_le)
    ultimately show ?thesis by simp
  qed
  moreover have "ssp_push s j u h \<noteq> []" using length_ssp_push [of s j u h] assms by force
  ultimately show ?thesis by (simp add: min_clock_def)
qed

text \<open>Once every agent has pushed, the slowest agent has moved on.\<close>

lemma ssp_pushes_advance:
  assumes "0 < s" "\<forall>x\<in>set xs. fst x < length h"
  shows "length (fold (\<lambda>(j, u). ssp_push s j u) xs h) = length h"
    and "\<And>i. i < length h \<Longrightarrow> length (h ! i) \<le> length (fold (\<lambda>(j, u). ssp_push s j u) xs h ! i)"
    and "\<And>i. i < length h \<Longrightarrow> i \<in> fst ` set xs \<Longrightarrow>
      min_clock h < length (fold (\<lambda>(j, u). ssp_push s j u) xs h ! i)"
proof -
  have "length (fold (\<lambda>(j, u). ssp_push s j u) xs h) = length h \<and>
      (\<forall>i<length h. length (h ! i) \<le> length (fold (\<lambda>(j, u). ssp_push s j u) xs h ! i)) \<and>
      (\<forall>i<length h. i \<in> fst ` set xs \<longrightarrow>
        min_clock h < length (fold (\<lambda>(j, u). ssp_push s j u) xs h ! i))"
    using assms(2)
  proof (induction xs arbitrary: h)
    case (Cons x xs)
    obtain j u where x: "x = (j, u)" by force
    let ?h = "ssp_push s j u h" and ?g = "fold (\<lambda>(j, u). ssp_push s j u) xs"
    have j: "j < length h" using Cons.prems by (simp add: x)
    have IH: "length (?g ?h) = length h"
        "\<And>i. i < length h \<Longrightarrow> length (?h ! i) \<le> length (?g ?h ! i)"
        "\<And>i. i < length h \<Longrightarrow> i \<in> fst ` set xs \<Longrightarrow> min_clock ?h < length (?g ?h ! i)"
      using Cons.IH [of ?h] Cons.prems by simp_all
    have "length (h ! i) \<le> length (?g ?h ! i)" if "i < length h" for i
      using nth_ssp_push(1) [OF j that] IH(2) [OF that] by (rule le_trans)
    moreover have "min_clock h < length (?g ?h ! i)" if "i < length h" "i \<in> fst ` set (x # xs)" for i
    proof (cases "i \<in> fst ` set xs")
      case True
      from min_clock_ssp_push [OF j] IH(3) [OF that(1) True] show ?thesis by (rule le_less_trans)
    next
      case False
      with that have "i = j" by (simp add: x)
      with nth_ssp_push(2) [OF j j assms(1)] IH(2) [OF j] show ?thesis by (auto intro: less_le_trans)
    qed
    ultimately show ?case using IH(1) by (simp add: x)
  qed simp
  then show "length (fold (\<lambda>(j, u). ssp_push s j u) xs h) = length h"
    and "\<And>i. i < length h \<Longrightarrow> length (h ! i) \<le> length (fold (\<lambda>(j, u). ssp_push s j u) xs h ! i)"
    and "\<And>i. i < length h \<Longrightarrow> i \<in> fst ` set xs \<Longrightarrow>
      min_clock h < length (fold (\<lambda>(j, u). ssp_push s j u) xs h ! i)"
    by blast+
qed

section \<open>The refinement relation\<close>

definition ssp_rep :: "'v fops \<Rightarrow> 'v history \<Rightarrow> 'v server \<Rightarrow> bool" where
  "ssp_rep F h st \<longleftrightarrow> length h = length (version_buffer st) \<and>
     (\<forall>j<length h. nat (bottom_version st) \<le> length (h ! j) \<and>
        drop (nat (bottom_version st)) (h ! j) = map kv_pairs (version_buffer st ! j)) \<and>
     parameters st = ssp_params F (start_key st) (nat (parameter_length st)) h
       (nat (bottom_version st))"

lemma ssp_rep_clock:
  assumes "ssp_rep F h st" "j < length h"
  shows "length (h ! j) = nat (bottom_version st) + length (version_buffer st ! j)"
proof -
  have "nat (bottom_version st) \<le> length (h ! j)"
    and d: "drop (nat (bottom_version st)) (h ! j) = map kv_pairs (version_buffer st ! j)"
    using assms by (simp_all add: ssp_rep_def)
  moreover have "length (h ! j) - nat (bottom_version st) = length (version_buffer st ! j)"
    using arg_cong [OF d, of length] by (simp del: nat_le_iff)
  ultimately show ?thesis by linarith
qed

lemma ssp_rep_min_clock:
  assumes rep: "ssp_rep F h st" and "some_empty st"
  shows "min_clock h = nat (bottom_version st)"
proof -
  from assms obtain j where j: "j < length h" "version_buffer st ! j = []"
    by (auto simp: some_empty_def in_set_conv_nth ssp_rep_def)
  show ?thesis
  proof (rule min_clock_eqI)
    show "h ! j \<in> set h" using j by simp
    show "length (h ! j) = nat (bottom_version st)" using ssp_rep_clock [OF rep j(1)] j(2) by simp
    show "nat (bottom_version st) \<le> length us" if "us \<in> set h" for us
      using that rep by (auto simp: in_set_conv_nth ssp_rep_def)
  qed
qed

lemma ssp_params_append:
  assumes "v \<le> length (h ! j)" "j < length h"
  shows "ssp_params F start len (h[j := h ! j @ [u]]) v = ssp_params F start len h v"
proof -
  have "ssp_round (h[j := h ! j @ [u]]) w = ssp_round h w" if "w < v" for w
    using assms that by (intro nth_equalityI) (auto simp: ssp_round_def nth_list_update nth_append)
  then show ?thesis unfolding ssp_params_def by (intro fold_cong) auto
qed

lemma ssp_params_Suc:
  "ssp_params F start len h (Suc v) = apply_round F start (ssp_round h v) (ssp_params F start len h v)"
  by (simp add: ssp_params_def)

lemma ssp_rep_push_state:
  assumes rep: "ssp_rep F h st" and j: "j < length h"
  shows "ssp_rep F (h[j := h ! j @ [kv_pairs l]]) (push_state j l st)"
proof -
  let ?b = "nat (bottom_version st)" and ?h = "h[j := h ! j @ [kv_pairs l]]"
  have h: "length h = length (version_buffer st)"
      "\<And>i. i < length h \<Longrightarrow> ?b \<le> length (h ! i) \<and> drop ?b (h ! i) = map kv_pairs (version_buffer st ! i)"
      "parameters st = ssp_params F (start_key st) (nat (parameter_length st)) h ?b"
    using rep by (simp_all add: ssp_rep_def)
  have "?b \<le> length (?h ! i) \<and> drop ?b (?h ! i) =
      map kv_pairs ((version_buffer st)[j := version_buffer st ! j @ [l]] ! i)" if "i < length h" for i
    using h(1) h(2) [OF that] h(2) [OF j] j that by (cases "i = j") auto
  moreover have "ssp_params F (start_key st) (nat (parameter_length st)) ?h ?b = parameters st"
    using h(3) ssp_params_append [of ?b h j] h(2) [OF j] j by simp
  ultimately show ?thesis using h(1) by (simp add: ssp_rep_def push_state_def Let_def)
qed

lemma ssp_rep_round_state:
  assumes rep: "ssp_rep F h st" and full: "\<not> some_empty st" and "0 \<le> bottom_version st"
  shows "ssp_rep F h (round_state F st\<lparr>pull_request := []\<rparr>)"
proof -
  let ?b = "nat (bottom_version st)" and ?vb = "version_buffer st"
  have h: "length h = length ?vb"
      "\<And>i. i < length h \<Longrightarrow> drop ?b (h ! i) = map kv_pairs (?vb ! i)"
      "parameters st = ssp_params F (start_key st) (nat (parameter_length st)) h ?b"
    using rep by (simp_all add: ssp_rep_def)
  have ne: "?vb ! i \<noteq> []" if "i < length h" for i
    using that full h(1) nth_mem [of i ?vb] by (metis some_empty_def)
  have clock: "length (h ! i) = ?b + length (?vb ! i)" if "i < length h" for i
    by (rule ssp_rep_clock [OF rep that])
  have step: "Suc ?b \<le> length (h ! i) \<and> drop (Suc ?b) (h ! i) = map kv_pairs (tl (?vb ! i)) \<and>
      h ! i ! ?b = kv_pairs (hd (?vb ! i))" if i: "i < length h" for i
  proof -
    have "?b < length (h ! i)" using clock [OF i] ne [OF i] by simp
    then have "map kv_pairs (?vb ! i) = h ! i ! ?b # drop (Suc ?b) (h ! i)"
      using h(2) [OF i] by (simp add: Cons_nth_drop_Suc)
    with \<open>?b < length (h ! i)\<close> ne [OF i] show ?thesis by (cases "?vb ! i") auto
  qed
  have "fronts st = ssp_round h ?b"
    by (rule nth_equalityI) (use h(1) step in \<open>simp_all add: fronts_def ssp_round_def\<close>)
  moreover have "nat (bottom_version st + 1) = Suc ?b" using assms(3) by simp
  ultimately show ?thesis
    using h step by (simp add: ssp_rep_def round_state_def ssp_params_Suc)
qed

text \<open>One accepted or rejected push, on both levels.\<close>

lemma push_result_refines:
  assumes inv: "server_inv st" and rep: "ssp_rep F h st"
    and j: "j < length (version_buffer st)"
  shows "ssp_rep F (ssp_push (bound st) j (kv_pairs l) h) (fst (push_result F j l st))"
proof -
  have wf: "some_empty st" "0 \<le> bottom_version st" using inv by (simp_all add: server_inv_def)
  have j': "j < length h" using rep j by (simp add: ssp_rep_def)
  have guard: "length (h ! j) < min_clock h + bound st \<longleftrightarrow> length (version_buffer st ! j) < bound st"
    using ssp_rep_clock [OF rep j'] ssp_rep_min_clock [OF rep wf(1)] by simp
  show ?thesis
  proof (cases "length (version_buffer st ! j) < bound st")
    case True
    let ?st = "push_state j l st"
    have "bottom_version ?st = bottom_version st" by (simp add: push_state_def Let_def)
    with True show ?thesis
      using guard ssp_rep_push_state [OF rep j', of l] ssp_rep_round_state [of F _ ?st] wf(2)
      by (simp add: push_result_def ssp_push_def Let_def)
  next
    case False
    with guard rep show ?thesis by (simp add: push_result_def ssp_push_def)
  qed
qed

section \<open>Turns of the receiving loop\<close>

text \<open>What no turn changes between two reconfigurations.\<close>

definition static :: "'v server \<Rightarrow> 'v server \<Rightarrow> bool" where
  "static st st' \<longleftrightarrow> agent_ids st' = agent_ids st \<and> id_to_index st' = id_to_index st \<and>
     agent_num st' = agent_num st \<and> consistency_bound st' = consistency_bound st \<and>
     start_key st' = start_key st \<and> parameter_length st' = parameter_length st \<and>
     servers st' = servers st \<and> server_ids st' = server_ids st \<and> server_num st' = server_num st \<and>
     local_id st' = local_id st \<and> local_index st' = local_index st \<and> backup_size st' = backup_size st \<and> key_range st' = key_range st"

lemma static_refl [simp]: "static st st"
  by (simp add: static_def)

lemma static_trans: "static a b \<Longrightarrow> static b c \<Longrightarrow> static a c"
  by (simp add: static_def)

lemma static_admissible: "static st st' \<Longrightarrow> admissible st' msg = admissible st msg"
  by (simp add: static_def admissible_def valid_push_def valid_pull_def in_range_def backup_slot_def
      cong: option.case_cong MessageType.case_cong RequestType.case_cong)

lemma static_push_result: "static st (fst (push_result F j l st))"
  by (simp add: static_def push_result_def push_state_def round_state_def Let_def)

lemma version_push_result:
  "bottom_version (fst (push_result F j l st)) \<in> {bottom_version st, bottom_version st + 1}"
  by (simp add: push_result_def push_state_def round_state_def Let_def)

definition agent_index :: "'v server \<Rightarrow> int \<Rightarrow> nat" where
  "agent_index st a = nat (the (id_to_index st a))"

lemma agent_index_less:
  assumes "wf_agents st" "a \<in> set (agent_ids st)"
  shows "agent_index st a < length (version_buffer st)"
    "id_to_index st a = Some (int (agent_index st a))"
proof -
  from assms obtain j where "id_to_index st a = Some (int j)" "j < length (version_buffer st)"
    by (rule known_index)
  then show "agent_index st a < length (version_buffer st)"
    "id_to_index st a = Some (int (agent_index st a))" by (simp_all add: agent_index_def)
qed

lemma agent_index_inj:
  assumes "wf_agents st" "a \<in> set (agent_ids st)" "b \<in> set (agent_ids st)" "agent_index st a = agent_index st b"
  shows "a = b"
proof -
  have "id_to_index st a = id_to_index st b" using agent_index_less(2) [OF assms(1)] assms(2-4) by simp
  then show ?thesis using assms(1-3) by (auto simp: wf_agents_def dest: inj_onD)
qed

lemma agent_with_index:
  assumes "wf_agents st" "j < length (version_buffer st)"
  obtains a where "a \<in> set (agent_ids st)" "agent_index st a = j"
proof -
  have "int j \<in> ran (id_to_index st)" using assms by (simp add: wf_agents_def)
  then obtain a where "id_to_index st a = Some (int j)" by (auto simp: ran_def)
  with assms(1) show thesis by (intro that [of a]) (auto simp: wf_agents_def agent_index_def)
qed

text \<open>The messages that push an update, and what they do to the history.\<close>

definition pushes :: "'v server \<Rightarrow> 'v Message \<Rightarrow> bool" where
  "pushes st msg \<longleftrightarrow> servers st (send_id msg) = None \<and> send_id msg \<in> set (agent_ids st) \<and>
     message_type msg = Message_MessageType_request \<and>
     request_type (the_request_msg msg) = RequestType_key_value"

definition ssp_turn :: "'v server \<Rightarrow> 'v Message \<Rightarrow> 'v history \<Rightarrow> 'v history" where
  "ssp_turn st msg h =
     (if pushes st msg
      then ssp_push (bound st) (agent_index st (send_id msg)) (request_pairs (the_request_msg msg)) h
      else h)"

lemma fold_ssp_turn:
  "fold (ssp_turn st) msgs h = fold (\<lambda>(j, u). ssp_push (bound st) j u)
     (map (\<lambda>msg. (agent_index st (send_id msg), request_pairs (the_request_msg msg))) (filter (pushes st) msgs)) h"
  by (induction msgs arbitrary: h) (simp_all add: ssp_turn_def)

lemma ServePush_refines:
  assumes inv: "server_inv st" and rep: "ssp_rep F h st" and a: "a \<in> set (agent_ids st)"
    and r: "valid_push st r" and v: "in_i32 (bottom_version st + 1)"
  shows "returns (ServePush F a r st) (\<lambda>(st', out).
      ssp_rep F (ssp_push (bound st) (agent_index st a) (request_pairs r) h) st' \<and>
      static st st' \<and> bottom_version st' \<in> {bottom_version st, bottom_version st + 1})"
proof -
  let ?j = "agent_index st a"
  have "wf_agents st" using inv by (simp add: server_inv_def)
  note j = agent_index_less [OF this a]
  obtain l where l: "push_list r = Inr l" "wf_kv l" "kv_keys l = rq_keys r"
      "kv_pairs l = request_pairs r"
    using push_list_pairs [of r] r by (auto simp: valid_push_def)
  from ServePush_result [OF inv a j(2,1) r l(1-3) v] push_result_refines [OF inv rep j(1), of l]
    static_push_result [of st F ?j l] version_push_result [of F ?j l st] l(4)
  show ?thesis by (simp add: case_prod_beta)
qed

lemma ssp_rep_unchanged:
  assumes "ssp_rep F h st" "version_buffer st' = version_buffer st" "parameters st' = parameters st"
    and "bottom_version st' = bottom_version st" "static st st'"
  shows "ssp_rep F h st'"
  using assms by (simp add: ssp_rep_def static_def)

text \<open>Handlers other than \<open>ServePush\<close> change neither the buffers nor the parameters.\<close>

definition quiet :: "'v server \<Rightarrow> 'v server \<Rightarrow> bool" where
  "quiet st st' \<longleftrightarrow> version_buffer st' = version_buffer st \<and> parameters st' = parameters st \<and>
     bottom_version st' = bottom_version st \<and> static st st' \<and>
     set (pull_request st) \<subseteq> set (pull_request st')"

lemma ServePull_quiet:
  assumes "server_inv st" "valid_pull st r"
  shows "returns (ServePull a r st) (\<lambda>(st', out). quiet st st')"
proof (cases "a \<in> set (agent_ids st)")
  case True
  have wf: "wf_agents st" "wf_counts st" "wf_range st" using assms(1) by (simp_all add: server_inv_def)
  note j = agent_index_less [OF wf(1) True]
  from ServePull_result [OF wf(2,3) j(2,1) assms(2)] show ?thesis
    by (auto simp: pull_result_def quiet_def static_def)
next
  case False
  then have "id_to_index st a = None" using assms(1) by (auto simp: server_inv_def wf_agents_def)
  then show ?thesis by (simp add: ServePull_unknown quiet_def)
qed

lemma Start_turn_quiet:
  assumes inv: "server_inv st" and adm: "admissible st msg" and "\<not> pushes st msg"
  shows "returns (Start_turn F zc msg st) (\<lambda>(st', out). quiet st st')"
proof (cases "servers st (send_id msg)")
  case (Some pos)
  have wf: "wf_servers st" "wf_range st" using inv by (simp_all add: server_inv_def)
  show ?thesis
  proof (cases "request_msg msg = None")
    case True
    then show ?thesis using Some wf by (simp add: Start_turn_def RespondBackup_result quiet_def)
  next
    case False
    then have "backup_slot st pos < backup_size st" using adm Some by (auto simp: admissible_def)
    from Backup_result [OF wf(1) Some this] show ?thesis
      using Some False by (simp add: Start_turn_def quiet_def static_def)
  qed
next
  case None
  let ?r = "the_request_msg msg"
  show ?thesis
  proof (cases "message_type msg = Message_MessageType_request")
    case True
    then show ?thesis
      using None adm assms(3) ServePull_quiet [OF inv, of ?r "send_id msg"]
      by (cases "request_type ?r")
        (simp_all add: Start_turn_def admissible_def pushes_def ServePush_def quiet_def)
  next
    case False
    then have "message_type msg \<noteq> Message_MessageType_config"
      using None adm by (auto simp: admissible_def)
    with False None show ?thesis by (simp add: Start_turn_def quiet_def)
  qed
qed

lemma Start_turn_refines:
  assumes inv: "server_inv st" and rep: "ssp_rep F h st" and adm: "admissible st msg"
    and v: "in_i32 (bottom_version st + 1)"
  shows "returns (Start_turn F zc msg st) (\<lambda>(st', out). server_inv st' \<and>
      ssp_rep F (ssp_turn st msg h) st' \<and> static st st' \<and>
      bottom_version st' \<in> {bottom_version st, bottom_version st + 1})"
proof (cases "pushes st msg")
  case True
  then have p: "servers st (send_id msg) = None" "send_id msg \<in> set (agent_ids st)"
      "message_type msg = Message_MessageType_request"
      "request_type (the_request_msg msg) = RequestType_key_value"
    by (simp_all add: pushes_def)
  then have "valid_push st (the_request_msg msg)" using adm by (simp add: admissible_def)
  note refines = ServePush_refines [OF inv rep p(2) this v]
  have "Start_turn F zc msg st = ServePush F (send_id msg) (the_request_msg msg) st"
    using p by (simp add: Start_turn_def)
  with refines Start_turn_returns [OF inv adm v, of F zc] True show ?thesis
    by (auto simp: returns_iff ssp_turn_def)
next
  case False
  from Start_turn_quiet [OF inv adm False, of F zc] Start_turn_returns [OF inv adm v, of F zc] rep False
  show ?thesis by (auto simp: returns_iff quiet_def ssp_turn_def intro: ssp_rep_unchanged)
qed

text \<open>Any number of turns.\<close>

definition serve_turns ::
    "'v fops \<Rightarrow> (socket \<Rightarrow> int) \<Rightarrow> 'v Message list \<Rightarrow> 'v server \<Rightarrow> 'v server res" where
  "serve_turns F zc = fold_res (\<lambda>msg st. bind_res (Start_turn F zc msg st) (\<lambda>(st', _). Inr st'))"

lemma static_ssp_turn: "static st st' \<Longrightarrow> ssp_turn st' = ssp_turn st"
  by (intro ext) (simp add: static_def ssp_turn_def pushes_def agent_index_def)

lemma serve_turns_refine:
  assumes "server_inv st" "ssp_rep F h st" "\<forall>msg\<in>set msgs. admissible st msg"
    and "in_i32 (bottom_version st + int (length msgs))"
  shows "returns (serve_turns F zc msgs st) (\<lambda>st'. server_inv st' \<and>
      ssp_rep F (fold (ssp_turn st) msgs h) st' \<and> static st st')"
  using assms
proof (induction msgs arbitrary: st h)
  case (Cons msg msgs)
  have pos: "0 \<le> bottom_version st" using Cons.prems(1) by (simp add: server_inv_def)
  then have v: "in_i32 (bottom_version st + 1)" using Cons.prems(4) by (simp add: in_i32_iff)
  from Cons.prems(3) have adm: "admissible st msg" by simp
  obtain st1 out where turn: "Start_turn F zc msg st = Inr (st1, out)" and inv: "server_inv st1"
    and rep: "ssp_rep F (ssp_turn st msg h) st1" and stat: "static st st1"
    and ver: "bottom_version st1 \<in> {bottom_version st, bottom_version st + 1}"
    using Start_turn_refines [OF Cons.prems(1,2) adm v, of zc] by (auto simp: returns_iff)
  have "returns (serve_turns F zc msgs st1) (\<lambda>st'. server_inv st' \<and>
      ssp_rep F (fold (ssp_turn st1) msgs (ssp_turn st msg h)) st' \<and> static st1 st')"
  proof (rule Cons.IH [OF inv rep])
    show "\<forall>msg\<in>set msgs. admissible st1 msg"
      using Cons.prems(3) stat by (simp add: static_admissible)
    show "in_i32 (bottom_version st1 + int (length msgs))"
      using Cons.prems(4) ver pos by (auto simp: in_i32_iff)
  qed
  then show ?case
    using turn stat static_ssp_turn [OF stat]
    by (auto simp: serve_turns_def wp elim!: returns_mono intro: static_trans)
qed (simp add: serve_turns_def)

text \<open>On the abstract level: once every agent has pushed, the slowest one has moved on.\<close>

lemma ssp_turns_advance:
  assumes "0 < bound st" "h \<noteq> []"
    and "\<And>msg. msg \<in> set msgs \<Longrightarrow> pushes st msg \<Longrightarrow> agent_index st (send_id msg) < length h"
    and "\<And>j. j < length h \<Longrightarrow> \<exists>msg\<in>set msgs. pushes st msg \<and> agent_index st (send_id msg) = j"
  shows "min_clock h < min_clock (fold (ssp_turn st) msgs h)"
proof -
  let ?xs = "map (\<lambda>msg. (agent_index st (send_id msg), request_pairs (the_request_msg msg)))
      (filter (pushes st) msgs)"
  have ok: "\<forall>x\<in>set ?xs. fst x < length h" using assms(3) by auto
  moreover have "j \<in> fst ` set ?xs" if "j < length h" for j
    using assms(4) [OF that] by force
  ultimately show ?thesis
    unfolding fold_ssp_turn using ssp_pushes_advance [OF assms(1) ok] assms(2) by (intro min_clock_greater) auto
qed

lemma configured_rep:
  assumes "configured F cfg idx st"
  shows "ssp_rep F (replicate (nat (agent_num st)) []) st"
  using assms by (simp add: configured_def ssp_rep_def ssp_params_def)

section \<open>Reachable states\<close>

text \<open>A server after \<open>Initialize\<close> with a well-formed configuration that names it.\<close>

inductive server_start :: "'v fops \<Rightarrow> 'v server \<Rightarrow> bool" for F where
  "fresh_server st \<Longrightarrow> config_msg m = Some cfg \<Longrightarrow> wf_config cfg \<Longrightarrow>
   recv_id m \<in> set (cf_server_id cfg) \<Longrightarrow> ip \<noteq> [] \<Longrightarrow>
   Server_Initialize F ip port master (Some m) st = Inr (True, st', out) \<Longrightarrow> server_start F st'"

inductive_cases server_startE: "server_start F st"

lemma Server_Initialize_configured:
  assumes "fresh_server st" "config_msg m = Some cfg" "wf_config cfg"
    and "idx < length (cf_server_id cfg)" "recv_id m = cf_server_id cfg ! idx" "ip \<noteq> []"
  shows "returns (Server_Initialize F ip port master (Some m) st)
      (\<lambda>(ok, st', out). ok \<and> configured F cfg idx st')"
proof -
  let ?st = "st\<lparr>sender := snd (AddIdAddr 0 master (sender st)), local_address := ip\<rparr>"
  have "fresh_server ?st" using assms(1) by (simp add: fresh_server_def)
  from configure_configured [OF this assms(2-5), of F] show ?thesis
    using assms(6) by (auto simp: Server_Initialize_def Let_def wp elim!: returns_mono)
qed

lemma server_start_configured:
  assumes "server_start F st"
  obtains cfg idx where "wf_config cfg" "configured F cfg idx st"
  using assms
proof (rule server_startE)
  fix st0 m cfg ip port master out
  assume a: "fresh_server st0" "config_msg m = Some cfg" "wf_config cfg"
      "recv_id m \<in> set (cf_server_id cfg)" "ip \<noteq> []"
    and init: "Server_Initialize F ip port master (Some m) st0 = Inr (True, st, out)"
  from a(4) obtain idx where idx: "idx < length (cf_server_id cfg)" "recv_id m = cf_server_id cfg ! idx"
    by (auto simp: in_set_conv_nth)
  from Server_Initialize_configured [OF a(1-3) idx a(5), of F port master] init
  have "configured F cfg idx st" by simp
  with a(3) show thesis by (rule that)
qed

end
