(* ===== verification/Server_Examples.thy ===== *)
theory Server_Examples
  imports Server_SSP
begin

text \<open>
  A small concrete system on which the theorems about the server are instantiated: two
  servers on a ring of ten keys, two agents, bound 1, one backup, values in the integers.
\<close>

definition int_ops :: "int fops" where
  "int_ops = \<lparr> fzero = 0, fadd = (\<lambda>x y. x + y), fdiv = (\<lambda>x y. x div y), fof_int = (\<lambda>x. x) \<rparr>"

definition example_fresh :: "int server" where
  "example_fresh = \<lparr> local_address = [], local_index = 0, local_id = 0, start_key = 0,
     parameter_length = 0, consistency_bound = 0, bottom_version = 0, agent_num = 0,
     server_num = 0, key_range = 0, backup_size = 0, master_ids = [], server_ids = [],
     servers = Map.empty, agent_ids = [], parameters = [], backup_parameters = [],
     version_buffer = [], finish_count = [], pull_request = [], id_to_index = Map.empty,
     sender = example_comm \<rparr>"

definition example_server :: "int server" where
  "example_server = \<lparr> local_address = ''10.0.0.1'', local_index = 0, local_id = 1, start_key = 2,
     parameter_length = 4, consistency_bound = 1, bottom_version = 0, agent_num = 2,
     server_num = 2, key_range = 10, backup_size = 1, master_ids = [0], server_ids = [1, 2],
     servers = [1 \<mapsto> 0, 2 \<mapsto> 1], agent_ids = [3, 4], parameters = [0, 0, 0, 0],
     backup_parameters = [[0, 0, 0, 0, 0, 0]],
     version_buffer = [[], []], finish_count = [0], pull_request = [],
     id_to_index = [3 \<mapsto> 0, 4 \<mapsto> 1],
     sender = fold (\<lambda>i c. snd (AddIdAddr i (cf_node_ip_port example_config ! nat i) c)) [1..4]
       (snd (AddIdAddr 0 ''a:1'' example_comm)) \<rparr>"

lemma example_upto:
  "[0..1::int] = [0, 1]" "[1..1::int] = [1]" "[0..0::int] = [0]" "[0..-1::int] = []" "[0..3::int] = [0,1,2,3]"
  by code_simp+

lemma example_rem: "i32_rem 1 2 = Inr 1" "i32_rem 2 2 = Inr 0" "i32_rem 14 10 = Inr 4"
  "i32_rem 6 10 = Inr 6"
  by code_simp+

lemma example_initialize:
  "Server_Initialize int_ops ''10.0.0.1'' 8888 ''a:1'' (Some (example_config_message 1)) example_fresh
     = Inr (True, example_server, [(0, new_Message\<lparr>message_type := Message_MessageType_register,
         recv_id := 0, send_id := -1, register_msg := Some \<lparr> rg_ip = ''10.0.0.1'', rg_port = 8888,
         rg_is_server = True \<rparr>\<rparr>)])"
  by (simp add: Server_Initialize_def configure_def example_config_message_def Let_def
      example_config_def example_fresh_def example_upto add_server_init_def add_server_def
      range_length_def init_backups_def zero_vector_def example_rem in_i32_iff
      map_insert_def set_insert_def example_server_def int_ops_def vec_get_def numeral_eq_Suc)

end
