(* ===== verification/Server_Properties.thy ===== *)
theory Server_Properties
  imports Server_Examples
begin

text \<open>
  The theorems about the parameter server: bounded staleness, absence of faults, refinement of
  the abstract consistency model, progress, the value of every handler on each of its branches,
  and the exchange of backups. Each is instantiated on the system of \<open>Server_Examples\<close>.
\<close>

section \<open>The server as an invariant system\<close>

text \<open>Reachable states satisfy the invariant and represent some history.\<close>

definition server_rep :: "'v fops \<Rightarrow> 'v server \<Rightarrow> bool" where
  "server_rep F st \<longleftrightarrow> server_inv st \<and> (\<exists>h. ssp_rep F h st)"

interpretation param: invariant_system "server_start F" "server_step F zc" "server_rep F" for F zc
proof
  fix st
  assume "server_start F st"
  then obtain cfg idx where c: "configured F cfg idx st" by (rule server_start_configured)
  then have "server_inv st" by (simp add: configured_def)
  with configured_rep [OF c] show "server_rep F st" by (auto simp: server_rep_def)
next
  fix st st'
  assume rep: "server_rep F st" and "server_step F zc st st'"
  from this(2) show "server_rep F st'"
  proof (rule server_stepE)
    fix msg out
    assume adm: "admissible st msg" and ver: "bottom_version st < kInt32Max"
      and turn: "Start_turn F zc msg st = Inr (st', out)"
    from rep obtain h where inv: "server_inv st" and h: "ssp_rep F h st" by (auto simp: server_rep_def)
    from Start_turn_refines [OF inv h adm version_in_i32 [OF inv ver], of zc] turn
    show ?thesis by (auto simp: server_rep_def)
  qed
qed

lemma example_start: "server_start int_ops example_server"
proof (rule server_start.intros [OF _ _ _ _ _ example_initialize])
  show "fresh_server example_fresh" by (simp add: fresh_server_def example_fresh_def)
  show "config_msg (example_config_message 1) = Some example_config"
    by (simp add: example_config_message_def)
  show "wf_config example_config"
    by (simp add: wf_config_def wf_layout_def example_config_def in_i32_iff)
  show "recv_id (example_config_message 1) \<in> set (cf_server_id example_config)"
    by (simp add: example_config_message_def example_config_def)
qed simp

lemma example_rep: "server_rep int_ops example_server"
  by (rule param.reach_invar, rule reach_init, rule example_start)

section \<open>Bounded staleness\<close>

text \<open>How many updates the server has accepted from an agent.\<close>

definition agent_clock :: "'v server \<Rightarrow> int \<Rightarrow> int" where
  "agent_clock st a = bottom_version st + int (length (version_buffer st ! agent_index st a))"

lemma agent_clock_bounds:
  assumes "server_inv st" "a \<in> set (agent_ids st)"
  shows "bottom_version st \<le> agent_clock st a"
    and "agent_clock st a \<le> bottom_version st + consistency_bound st"
proof -
  have wf: "wf_agents st" "wf_counts st" using assms(1) by (simp_all add: server_inv_def)
  have "version_buffer st ! agent_index st a \<in> set (version_buffer st)"
    using agent_index_less [OF wf(1) assms(2)] by simp
  then have "length (version_buffer st ! agent_index st a) \<le> bound st"
    using wf(2) by (simp add: wf_counts_def)
  then show "bottom_version st \<le> agent_clock st a"
    and "agent_clock st a \<le> bottom_version st + consistency_bound st"
    using wf(2) by (auto simp: agent_clock_def wf_counts_def)
qed

lemma slowest_agent:
  assumes "server_inv st"
  obtains a where "a \<in> set (agent_ids st)" "agent_clock st a = bottom_version st"
proof -
  have wf: "wf_agents st" "some_empty st" using assms(1) by (simp_all add: server_inv_def)
  from wf(2) obtain j where j: "j < length (version_buffer st)" "version_buffer st ! j = []"
    by (auto simp: some_empty_def in_set_conv_nth)
  then have "int j \<in> ran (id_to_index st)" using wf(1) by (simp add: wf_agents_def)
  then obtain a where a: "id_to_index st a = Some (int j)" by (auto simp: ran_def)
  then have "a \<in> set (agent_ids st)" using wf(1) by (auto simp: wf_agents_def)
  moreover have "agent_clock st a = bottom_version st"
    using a j(2) by (simp add: agent_clock_def agent_index_def)
  ultimately show ?thesis by (rule that)
qed

text \<open>
  C3: in every reachable state of a server, between two reconfigurations, the number of updates
  accepted from any two agents differs by at most the consistency bound, no agent is behind
  \<open>bottom_version\<close>, and some agent is exactly there.
\<close>

theorem bounded_staleness:
  assumes "reach (server_start F) (server_step F zc) st"
  shows "(\<forall>a\<in>set (agent_ids st). \<forall>b\<in>set (agent_ids st).
      agent_clock st a \<le> agent_clock st b + consistency_bound st) \<and>
    (\<forall>a\<in>set (agent_ids st). bottom_version st \<le> agent_clock st a) \<and>
    (\<exists>a\<in>set (agent_ids st). agent_clock st a = bottom_version st)"
proof -
  have inv: "server_inv st" using param.reach_invar [OF assms] by (simp add: server_rep_def)
  obtain a where "a \<in> set (agent_ids st)" "agent_clock st a = bottom_version st"
    using inv by (rule slowest_agent)
  moreover note agent_clock_bounds [OF inv]
  ultimately show ?thesis by force
qed

theorem bounded_staleness_witness:
  "agent_clock example_server 3 \<le> agent_clock example_server 4 + 1"
proof -
  have "reach (server_start int_ops) (server_step int_ops (\<lambda>_. 0)) example_server"
    by (rule reach_init) (rule example_start)
  from bounded_staleness [OF this] show ?thesis by (simp add: example_server_def)
qed

text \<open>
  C4: in a reachable state no admissible message makes a turn of the receiving loop fault: no
  index is outside its container, no \<open>int32\<close> operation overflows, no queue is popped empty
  (while the version counter is below its maximum).
\<close>

theorem turns_never_fault:
  assumes "reach (server_start F) (server_step F zc) st" "admissible st msg"
    and "bottom_version st < kInt32Max"
  shows "\<exists>st' out. Start_turn F zc msg st = Inr (st', out)"
proof -
  have inv: "server_inv st" using param.reach_invar [OF assms(1)] by (simp add: server_rep_def)
  from Start_turn_returns [OF inv assms(2) version_in_i32 [OF inv assms(3)], of F zc]
  show ?thesis by (auto simp: returns_iff)
qed

text \<open>Agent 3 pushes the values 10 and 4 for the keys 2 and 5.\<close>

definition example_push :: "int \<Rightarrow> int Message" where
  "example_push a = new_Message\<lparr>send_id := a, recv_id := 1,
     message_type := Message_MessageType_request,
     request_msg := Some \<lparr> request_type = RequestType_key_value, rq_keys = [2, 5],
       rq_values = [10, 4] \<rparr>\<rparr>"

lemma example_push_admissible: "a \<in> {3, 4} \<Longrightarrow> admissible example_server (example_push a)"
  by (auto simp: admissible_def example_push_def example_server_def valid_push_def wf_push_def
      in_range_def in_i32_iff)

theorem turns_never_fault_witness:
  "\<exists>st' out. Start_turn int_ops (\<lambda>_. 0) (example_push 3) example_server = Inr (st', out)"
proof (rule turns_never_fault)
  show "reach (server_start int_ops) (server_step int_ops (\<lambda>_. 0)) example_server"
    by (rule reach_init) (rule example_start)
  show "admissible example_server (example_push 3)" by (simp add: example_push_admissible)
  show "bottom_version example_server < kInt32Max" by (simp add: example_server_def kInt32Max_def)
qed

section \<open>Refinement of the consistency model\<close>

text \<open>
  C1: a server that \<open>Initialize\<close> has configured, after any sequence of admissible
  messages (pushes, pulls and backups in any order), represents the history that the abstract
  machine of stale synchronous parallelism reaches on the same pushes: its version is the clock
  of the slowest agent, the queue of an agent holds the updates that the agent is ahead, and
  the parameters are, bit for bit, those of the finished rounds.
\<close>

theorem server_refines_ssp:
  assumes "server_start F st" "\<forall>msg\<in>set msgs. admissible st msg" "in_i32 (int (length msgs))"
  defines "h \<equiv> fold (ssp_turn st) msgs (replicate (nat (agent_num st)) [])"
  shows "\<exists>st'. serve_turns F zc msgs st = Inr st' \<and>
    bottom_version st' = int (min_clock h) \<and>
    (\<forall>j<nat (agent_num st). map kv_pairs (version_buffer st' ! j) = drop (min_clock h) (h ! j)) \<and>
    parameters st' = ssp_params F (start_key st) (nat (parameter_length st)) h (min_clock h)"
proof -
  from assms(1) obtain cfg idx where c: "configured F cfg idx st" by (rule server_start_configured)
  then have inv: "server_inv st" and "bottom_version st = 0" by (simp_all add: configured_def)
  with assms(3) have "in_i32 (bottom_version st + int (length msgs))" by simp
  from serve_turns_refine [OF inv configured_rep [OF c] assms(2) this, of zc]
  obtain st' where run: "serve_turns F zc msgs st = Inr st'" and inv': "server_inv st'"
    and rep: "ssp_rep F h st'" and stat: "static st st'"
    by (auto simp: returns_iff h_def)
  have min: "min_clock h = nat (bottom_version st')"
    using ssp_rep_min_clock [OF rep] inv' by (simp add: server_inv_def)
  have "int (length (version_buffer st')) = agent_num st"
    using inv' stat by (simp add: server_inv_def wf_agents_def static_def)
  then have "nat (agent_num st) = length h" using rep by (simp add: ssp_rep_def)
  then show ?thesis
    using run rep min inv' stat by (auto simp: ssp_rep_def static_def server_inv_def)
qed

theorem server_refines_ssp_witness:
  "\<exists>st'. serve_turns int_ops (\<lambda>_. 0) [example_push 3, example_push 4] example_server = Inr st' \<and>
     bottom_version st' = 1 \<and> parameters st' = [10, 0, 0, 4]"
proof -
  let ?msgs = "[example_push 3, example_push 4]"
  let ?h = "fold (ssp_turn example_server) ?msgs (replicate (nat (agent_num example_server)) [])"
  have h: "?h = [[[(2, 10), (5, 4)]], [[(2, 10), (5, 4)]]]"
    by (simp add: ssp_turn_def pushes_def ssp_push_def min_clock_def example_push_def
        example_server_def agent_index_def request_pairs_def numeral_eq_Suc)
  have "min_clock ?h = 1" unfolding h by (simp add: min_clock_def)
  moreover have "ssp_params int_ops 2 4 ?h 1 = [10, 0, 0, 4]" unfolding h by code_simp
  moreover have "start_key example_server = 2" "nat (parameter_length example_server) = 4"
    by (simp_all add: example_server_def)
  ultimately show ?thesis
    using server_refines_ssp [OF example_start, of ?msgs "\<lambda>_. 0"] example_push_admissible
    by (auto simp: in_i32_iff)
qed

text \<open>
  C11: progress. From any reachable state, once every agent has sent one more admissible push,
  with any other admissible messages in between, the server has finished at least one more
  round.
\<close>

theorem round_completes:
  assumes "reach (server_start F) (server_step F zc) st" "\<forall>msg\<in>set msgs. admissible st msg"
    and "\<forall>a\<in>set (agent_ids st). \<exists>msg\<in>set msgs. pushes st msg \<and> send_id msg = a"
    and "bottom_version st + int (length msgs) \<le> kInt32Max"
  shows "\<exists>st'. serve_turns F zc msgs st = Inr st' \<and> bottom_version st < bottom_version st'"
proof -
  from param.reach_invar [OF assms(1)] obtain h where inv: "server_inv st" and rep: "ssp_rep F h st"
    by (auto simp: server_rep_def)
  have wf: "wf_agents st" "wf_counts st" "some_empty st" "0 \<le> bottom_version st"
    using inv by (simp_all add: server_inv_def)
  have "in_i32 (bottom_version st + int (length msgs))"
    using assms(4) wf(4) by (simp add: in_i32_iff kInt32Max_def)
  from serve_turns_refine [OF inv rep assms(2) this, of zc]
  obtain st' where run: "serve_turns F zc msgs st = Inr st'" and inv': "server_inv st'"
    and rep': "ssp_rep F (fold (ssp_turn st) msgs h) st'"
    by (auto simp: returns_iff)
  have len: "length h = length (version_buffer st)" using rep by (simp add: ssp_rep_def)
  have "min_clock h < min_clock (fold (ssp_turn st) msgs h)"
  proof (rule ssp_turns_advance)
    show "0 < bound st" using wf(2) by (simp add: wf_counts_def)
    show "h \<noteq> []" using len wf(1) by (auto simp: wf_agents_def)
    show "agent_index st (send_id msg) < length h" if "pushes st msg" for msg
      using that agent_index_less [OF wf(1)] len by (simp add: pushes_def)
    show "\<exists>msg\<in>set msgs. pushes st msg \<and> agent_index st (send_id msg) = j" if "j < length h" for j
      using agent_with_index [OF wf(1), of j] that len assms(3) by metis
  qed
  moreover have "min_clock h = nat (bottom_version st)"
    by (rule ssp_rep_min_clock [OF rep wf(3)])
  moreover have "min_clock (fold (ssp_turn st) msgs h) = nat (bottom_version st')"
    using ssp_rep_min_clock [OF rep'] inv' by (simp add: server_inv_def)
  ultimately show ?thesis using run by auto
qed

theorem round_completes_witness:
  "\<exists>st'. serve_turns int_ops (\<lambda>_. 0) [example_push 4, example_push 3] example_server = Inr st' \<and>
     bottom_version example_server < bottom_version st'"
proof (rule round_completes)
  show "reach (server_start int_ops) (server_step int_ops (\<lambda>_. 0)) example_server"
    by (rule reach_init) (rule example_start)
  show "\<forall>msg\<in>set [example_push 4, example_push 3]. admissible example_server msg"
    by (simp add: example_push_admissible)
  show "\<forall>a\<in>set (agent_ids example_server). \<exists>msg\<in>set [example_push 4, example_push 3].
      pushes example_server msg \<and> send_id msg = a"
    by (simp add: pushes_def example_push_def example_server_def)
  show "bottom_version example_server + int (length [example_push 4, example_push 3]) \<le> kInt32Max"
    by (simp add: example_server_def kInt32Max_def)
qed

section \<open>The handlers branch by branch\<close>

text \<open>
  C14: the result of a push request in a reachable state. An unknown sender changes nothing.
  From a known agent, the update is dropped when the agent's buffer is full, queued otherwise;
  when the last agent has delivered its update the round ends: the front updates of all agents
  are merged and averaged into the parameters, the counters shift, the version is incremented,
  the blocked pulls are answered with the new parameters and the backups are requested.
\<close>

theorem push_request_result:
  assumes "reach (server_start F) (server_step F zc) st" "bottom_version st < kInt32Max"
    and "valid_push st r"
  shows "(a \<notin> set (agent_ids st) \<longrightarrow> ServePush F a r st = Inr (st, [])) \<and>
    (a \<in> set (agent_ids st) \<longrightarrow> (\<exists>l. kv_pairs l = request_pairs r \<and>
       ServePush F a r st = Inr (push_result F (agent_index st a) l st)))"
proof -
  have inv: "server_inv st" using param.reach_invar [OF assms(1)] by (simp add: server_rep_def)
  have "wf_agents st" using inv by (simp add: server_inv_def)
  obtain l where l: "push_list r = Inr l" "wf_kv l" "kv_keys l = rq_keys r"
      "kv_pairs l = request_pairs r"
    using push_list_pairs [of r] assms(3) by (auto simp: valid_push_def)
  have "ServePush F a r st = Inr (push_result F (agent_index st a) l st)" if "a \<in> set (agent_ids st)"
    using agent_index_less [OF \<open>wf_agents st\<close> that]
    by (intro ServePush_result [OF inv that _ _ assms(3) l(1-3) version_in_i32 [OF inv assms(2)]])
  with l(4) show ?thesis by (auto simp: ServePush_def)
qed

theorem push_request_result_witness:
  "\<exists>l. kv_pairs l = [(2, 10), (5, 4)] \<and>
     ServePush int_ops 3 (the_request_msg (example_push 3)) example_server =
       Inr (push_state 0 l example_server, [])"
proof -
  have "reach (server_start int_ops) (server_step int_ops (\<lambda>_. 0)) example_server"
    by (rule reach_init) (rule example_start)
  moreover have "bottom_version example_server < kInt32Max"
    by (simp add: example_server_def kInt32Max_def)
  moreover have "valid_push example_server (the_request_msg (example_push 3))"
    by (simp add: example_server_def example_push_def valid_push_def wf_push_def in_range_def in_i32_iff)
  moreover have "push_result int_ops 0 l example_server = (push_state 0 l example_server, [])" for l
    by (simp add: push_result_def example_server_def push_state_def some_empty_def)
  moreover have "request_pairs (the_request_msg (example_push 3)) = [(2, 10), (5, 4)]"
    by (simp add: request_pairs_def example_push_def)
  moreover have "agent_index example_server 3 = 0" "3 \<in> set (agent_ids example_server)"
    by (simp_all add: agent_index_def example_server_def)
  ultimately show ?thesis
    using push_request_result [of int_ops "\<lambda>_. 0" example_server
        "the_request_msg (example_push 3)" 3] by simp
qed

text \<open>
  C15: the merge of a round is the average. When every agent has an update waiting,
  \<open>UpdateParameter\<close> takes the oldest update of each agent, and parameter \<open>i\<close> grows by the
  sum of all values these updates give to the key \<open>start_key + i\<close>, in the order of the agents,
  divided by the number of agents.
\<close>

theorem UpdateParameter_averages:
  assumes "wf_agents st" "wf_range st" "wf_updates st" "\<not> some_empty st"
    and "in_i32 (bottom_version st + 1)"
  shows "\<exists>st'. UpdateParameter F st = Inr st' \<and>
    version_buffer st' = map tl (version_buffer st) \<and>
    bottom_version st' = bottom_version st + 1 \<and>
    length (parameters st') = length (parameters st) \<and>
    (\<forall>i<length (parameters st). parameters st' ! i = fadd F (parameters st ! i)
      (fdiv F (foldl (fadd F) (fzero F) (map snd (filter (\<lambda>x. fst x = start_key st + int i)
          (concat (map (\<lambda>q. kv_pairs (hd q)) (version_buffer st))))))
        (fof_int F (agent_num st))))"
proof -
  have front: "q \<noteq> [] \<and> wf_kv (hd q) \<and> (\<forall>k\<in>set (kv_keys (hd q)). in_range st k)"
    if "q \<in> set (version_buffer st)" for q
  proof -
    have "q \<noteq> []" using that assms(4) by (auto simp: some_empty_def)
    then have "hd q \<in> set q" by simp
    with that assms(3) \<open>q \<noteq> []\<close> show ?thesis unfolding wf_updates_def by blast
  qed
  have keys: "\<forall>xs\<in>set (fronts st). \<forall>x\<in>set xs. start_key st \<le> fst x"
    using front by (fastforce simp: fronts_def kv_pairs_def in_range_def dest: set_zip_leftD)
  have "agent_num st = int (length (fronts st))"
    using assms(1) by (simp add: fronts_def wf_agents_def)
  moreover have "UpdateParameter F st = Inr (st\<lparr>
      version_buffer := map tl (version_buffer st),
      parameters := apply_round F (start_key st) (fronts st) (parameters st),
      bottom_version := bottom_version st + 1\<rparr>)"
    by (rule UpdateParameter_apply_round)
      (use assms front in_range_fits [OF assms(2)] in \<open>auto simp: wf_agents_def wf_range_def\<close>)
  ultimately show ?thesis
    using nth_apply_round [OF _ keys, of _ "parameters st" F] by (simp add: fronts_def)
qed

text \<open>Both agents have delivered one update for the keys 2 and 5.\<close>

definition example_full :: "int server" where
  "example_full = example_server\<lparr>finish_count := [2], parameters := [1, 2, 3, 4],
     version_buffer := [[\<lparr> kv_length = 2, kv_keys = [2, 5], kv_values = [10, 4] \<rparr>],
       [\<lparr> kv_length = 2, kv_keys = [5, 5], kv_values = [6, 2] \<rparr>]]\<rparr>"

theorem UpdateParameter_averages_witness:
  "\<exists>st'. UpdateParameter int_ops example_full = Inr st' \<and> parameters st' ! 3 = 4 + (4 + 6 + 2) div 2"
proof -
  have "wf_agents example_full"
    by (auto simp: wf_agents_def example_full_def example_server_def in_i32_iff inj_on_def)
  moreover have "wf_range example_full" "wf_updates example_full" "\<not> some_empty example_full"
      "in_i32 (bottom_version example_full + 1)"
    by (simp_all add: wf_range_def wf_updates_def some_empty_def wf_kv_def in_range_def in_i32_iff
        example_full_def example_server_def)
  ultimately obtain st' where "UpdateParameter int_ops example_full = Inr st'"
    and avg: "\<forall>i<length (parameters example_full). parameters st' ! i =
      fadd int_ops (parameters example_full ! i)
      (fdiv int_ops (foldl (fadd int_ops) (fzero int_ops)
        (map snd (filter (\<lambda>x. fst x = start_key example_full + int i)
          (concat (map (\<lambda>q. kv_pairs (hd q)) (version_buffer example_full))))))
        (fof_int int_ops (agent_num example_full)))"
    using UpdateParameter_averages [of example_full int_ops] by blast
  moreover have "parameters st' ! 3 = 4 + (4 + 6 + 2) div 2"
    using avg by (simp add: example_full_def example_server_def int_ops_def kv_pairs_def)
  ultimately show ?thesis by blast
qed

text \<open>
  C16: the result of a pull request in a reachable state. An unknown sender gets no answer. An
  agent that is \<open>consistency_bound\<close> updates ahead of the slowest one is blocked: its request
  is queued with its keys and nothing is sent. Any other agent is answered at once with the
  current values of the keys it asked for, in the order of its request.
\<close>

theorem pull_request_result:
  assumes "reach (server_start F) (server_step F zc) st" "valid_pull st r"
  shows "ServePull a r st = Inr
    (if a \<notin> set (agent_ids st) then (st, [])
     else if agent_clock st a = bottom_version st + consistency_bound st
       then (st\<lparr>pull_request := pull_request st @ [blocked_pull a r]\<rparr>, [])
       else (st, [(a, key_value_message (local_id st) a (rq_keys r)
         (map (\<lambda>k. parameters st ! nat (k - start_key st)) (rq_keys r)))]))"
proof -
  have inv: "server_inv st" using param.reach_invar [OF assms(1)] by (simp add: server_rep_def)
  then have wf: "wf_agents st" "wf_counts st" "wf_range st" by (simp_all add: server_inv_def)
  show ?thesis
  proof (cases "a \<in> set (agent_ids st)")
    case True
    note j = agent_index_less [OF wf(1) True]
    have "agent_clock st a = bottom_version st + consistency_bound st \<longleftrightarrow>
        bound st \<le> length (version_buffer st ! agent_index st a)"
      using agent_clock_bounds(2) [OF inv True] by (auto simp: agent_clock_def)
    with True ServePull_result [OF wf(2,3) j(2,1) assms(2)] show ?thesis
      by (simp add: pull_result_def pull_reply_def)
  next
    case False
    then have "id_to_index st a = None" using wf(1) by (auto simp: wf_agents_def)
    with False show ?thesis by (simp add: ServePull_unknown)
  qed
qed

theorem pull_request_result_witness:
  "ServePull 4 \<lparr> request_type = RequestType_key, rq_keys = [5, 2], rq_values = [] \<rparr> example_server =
     Inr (example_server, [(4, key_value_message 1 4 [5, 2] [0, 0])])"
proof -
  have "reach (server_start int_ops) (server_step int_ops (\<lambda>_. 0)) example_server"
    by (rule reach_init) (rule example_start)
  from pull_request_result [OF this, of "\<lparr> request_type = RequestType_key, rq_keys = [5, 2],
      rq_values = [] \<rparr>" 4]
  show ?thesis
    by (simp add: example_server_def valid_pull_def in_range_def in_i32_iff agent_clock_def
        agent_index_def)
qed

text \<open>
  C17: a blocked pull request is never forgotten. In a reachable state every blocked request
  comes from an agent that is exactly \<open>consistency_bound\<close> updates ahead of the slowest one;
  and a turn on an admissible message either keeps the request in the queue, or sends its agent
  the values that its keys have in the new state. A turn that ends a round leaves no request
  blocked.
\<close>

theorem blocked_pulls_are_answered:
  assumes "reach (server_start F) (server_step F zc) st" "admissible st msg"
    and "bottom_version st < kInt32Max"
  shows "(\<forall>p\<in>set (pull_request st). pi_id p \<in> set (agent_ids st) \<and>
      agent_clock st (pi_id p) = bottom_version st + consistency_bound st) \<and>
    (\<exists>st' out. Start_turn F zc msg st = Inr (st', out) \<and>
      (\<forall>p\<in>set (pull_request st). p \<in> set (pull_request st') \<or>
        pull_reply st' (pi_id p) (pi_keys p) \<in> set out) \<and>
      (bottom_version st' = bottom_version st \<or> pull_request st' = []))"
proof
  have inv: "server_inv st" using param.reach_invar [OF assms(1)] by (simp add: server_rep_def)
  have wf: "wf_agents st" "wf_counts st" "wf_blocked st" using inv by (simp_all add: server_inv_def)
  show "\<forall>p\<in>set (pull_request st). pi_id p \<in> set (agent_ids st) \<and>
      agent_clock st (pi_id p) = bottom_version st + consistency_bound st"
    using wf by (auto simp: wf_blocked_def wf_agents_def wf_counts_def agent_clock_def agent_index_def)
  show "\<exists>st' out. Start_turn F zc msg st = Inr (st', out) \<and>
      (\<forall>p\<in>set (pull_request st). p \<in> set (pull_request st') \<or>
        pull_reply st' (pi_id p) (pi_keys p) \<in> set out) \<and>
      (bottom_version st' = bottom_version st \<or> pull_request st' = [])"
  proof (cases "pushes st msg")
    case True
    let ?a = "send_id msg" and ?r = "the_request_msg msg"
    from True have p: "servers st ?a = None" "?a \<in> set (agent_ids st)"
        "message_type msg = Message_MessageType_request" "request_type ?r = RequestType_key_value"
      by (simp_all add: pushes_def)
    then have r: "valid_push st ?r" using assms(2) by (simp add: admissible_def)
    obtain l where l: "push_list ?r = Inr l" "wf_kv l" "kv_keys l = rq_keys ?r"
      using push_list_pairs [of ?r] r by (auto simp: valid_push_def)
    note j = agent_index_less [OF wf(1) p(2)]
    have "Start_turn F zc msg st = Inr (push_result F (agent_index st ?a) l st)"
      using ServePush_result [OF inv p(2) j(2,1) r l version_in_i32 [OF inv assms(3)]] p
      by (simp add: Start_turn_def)
    then show ?thesis
      by (auto simp: push_result_def Let_def push_state_def round_state_def blocked_replies_def
          pull_reply_def)
  next
    case False
    from Start_turn_quiet [OF inv assms(2) False, of F zc] show ?thesis
      by (auto simp: returns_iff quiet_def)
  qed
qed

theorem blocked_pulls_are_answered_witness:
  "\<exists>st' out. Start_turn int_ops (\<lambda>_. 0) (example_push 3) example_server = Inr (st', out) \<and>
     (bottom_version st' = 0 \<or> pull_request st' = [])"
proof -
  have "reach (server_start int_ops) (server_step int_ops (\<lambda>_. 0)) example_server"
    by (rule reach_init) (rule example_start)
  from blocked_pulls_are_answered [OF this, of "example_push 3"] example_push_admissible [of 3]
  show ?thesis by (auto simp: example_server_def kInt32Max_def)
qed

section \<open>Backups\<close>

text \<open>
  C26: the exchange of backups. When server \<open>A\<close> asks its \<open>i\<close>-th predecessor \<open>B\<close> on the ring
  for a backup, \<open>B\<close> answers \<open>A\<close> with its whole parameter vector and stays as it is, and on this
  answer \<open>A\<close> stores exactly \<open>B\<close>'s parameters as its backup number \<open>i - 1\<close>, the other backups
  and all other state unchanged.
\<close>

theorem backup_exchange:
  assumes "server_inv A" "server_inv B" "1 \<le> i" "i \<le> backup_size A"
    and "local_id B = predecessor A i" "servers B (local_id A) \<noteq> None"
  shows "\<exists>reply.
    Start_turn F zc (snd (backup_requests A ! nat (i - 1))) B = Inr (B, [(local_id A, reply)]) \<and>
    Start_turn F zc reply A = Inr (A\<lparr>backup_parameters :=
      (backup_parameters A)[nat (i - 1) := parameters B]\<rparr>, [])"
proof -
  let ?n = "server_num A" and ?pos = "(local_index A - i) mod server_num A"
  have wf: "wf_servers A" "wf_range B" using assms(1,2) by (simp_all add: server_inv_def)
  then have ring: "0 \<le> local_index A" "local_index A < ?n" "backup_size A < ?n"
    by (simp_all add: wf_servers_def wf_ring_def)
  have pos: "0 \<le> ?pos" "?pos < ?n" using ring by simp_all
  then have srv: "servers A (local_id B) = Some ?pos"
    using wf(1) assms(5) by (simp add: wf_servers_def predecessor_def)
  have "backup_slot A ?pos = (local_index A - 1 - (local_index A - i)) mod ?n"
    by (simp add: backup_slot_def mod_diff_right_eq)
  also have "\<dots> = i - 1" using assms(3,4) ring(3) by (simp add: mod_pos_pos_trivial)
  finally have slot: "backup_slot A ?pos = i - 1" .
  have nth: "[1..backup_size A] ! nat (i - 1) = i" "nat (i - 1) < length [1..backup_size A]"
    using assms(3,4) by (simp_all add: nth_upto)
  let ?req = "snd (backup_requests A ! nat (i - 1))"
  have req: "send_id ?req = local_id A" "request_msg ?req = None"
    using nth by (simp_all add: backup_requests_def new_Message_def)
  have "Start_turn F zc ?req B = Inr (B, [(local_id A, backup_reply (local_id A) B)])"
    using assms(6) req RespondBackup_result [OF wf(2)] by (simp add: Start_turn_def)
  moreover have "Start_turn F zc (backup_reply (local_id A) B) A = Inr (A\<lparr>backup_parameters :=
      (backup_parameters A)[nat (i - 1) := parameters B]\<rparr>, [])"
    using Backup_result [OF wf(1), of "backup_reply (local_id A) B" ?pos] srv slot assms(4)
    by (simp add: Start_turn_def backup_reply_def key_value_message_def)
  ultimately show ?thesis by blast
qed

text \<open>The second server of the example, after some rounds.\<close>

definition example_server2 :: "int server" where
  "example_server2 = example_server\<lparr>local_index := 1, local_id := 2, start_key := 6,
     parameter_length := 6, parameters := [1, 2, 3, 4, 5, 6], backup_parameters := [[0, 0, 0, 0]]\<rparr>"

lemma example_ring:
  "(\<forall>s i. servers example_server s = Some i \<longleftrightarrow>
     0 \<le> i \<and> i < server_num example_server \<and> server_ids example_server ! nat i = s)"
proof (intro allI)
  fix s i
  have "0 \<le> i \<and> i < 2 \<longleftrightarrow> i = 0 \<or> i = (1 :: int)" by auto
  then show "servers example_server s = Some i \<longleftrightarrow>
      0 \<le> i \<and> i < server_num example_server \<and> server_ids example_server ! nat i = s"
    by (auto simp: example_server_def)
qed

lemma example_server2_inv: "server_inv example_server2"
proof -
  have inv: "server_inv example_server" using example_rep by (simp add: server_rep_def)
  then have "wf_agents example_server2" "wf_counts example_server2" "some_empty example_server2"
      "0 \<le> bottom_version example_server2"
    by (simp_all add: server_inv_def wf_agents_def wf_counts_def some_empty_def example_server2_def)
  moreover have "wf_updates example_server2" "wf_blocked example_server2" "wf_range example_server2"
    by (simp_all add: wf_updates_def wf_blocked_def wf_range_def example_server2_def
        example_server_def in_i32_iff)
  moreover have "wf_servers example_server2"
    using example_ring
    by (simp add: wf_servers_def wf_ring_def example_server2_def) (simp add: example_server_def in_i32_iff)
  ultimately show ?thesis by (simp add: server_inv_def)
qed

theorem backup_exchange_witness:
  "\<exists>reply.
    Start_turn int_ops (\<lambda>_. 0) (snd (backup_requests example_server ! 0)) example_server2 =
      Inr (example_server2, [(1, reply)]) \<and>
    Start_turn int_ops (\<lambda>_. 0) reply example_server =
      Inr (example_server\<lparr>backup_parameters := [[1, 2, 3, 4, 5, 6]]\<rparr>, [])"
proof -
  have "server_inv example_server" using example_rep by (simp add: server_rep_def)
  moreover have "local_id example_server2 = predecessor example_server 1"
      "servers example_server2 (local_id example_server) \<noteq> None" "1 \<le> backup_size example_server"
    by (simp_all add: predecessor_def example_server_def example_server2_def)
  moreover have "local_id example_server = 1" "(backup_parameters example_server)[0 := parameters
      example_server2] = [[1, 2, 3, 4, 5, 6]]"
    by (simp_all add: example_server_def example_server2_def)
  ultimately show ?thesis
    using backup_exchange [OF _ example_server2_inv, of example_server 1 int_ops "\<lambda>_. 0"] by simp
qed

section \<open>A cluster with one server\<close>

lemma single_server_dist: "cf_server_num cfg = 1 \<Longrightarrow> ring_dist cfg 0 = 0"
  by (simp add: ring_dist_def)

text \<open>
  C33: a cluster with one server, the default of the flag \<open>server_num\<close>, holds no parameters. The
  next hash value on the ring is the server's own, and \<open>Initialize\<close> takes their distance modulo the
  number of keys, which is 0 and not the whole ring. \<open>Initialize\<close> returns true; a pull of any key
  by any of the agents then reads out of bounds.
\<close>

theorem single_server_has_no_parameters:
  assumes "fresh_server st" "config_msg m = Some cfg" "wf_config cfg" "cf_server_num cfg = 1"
    and "recv_id m = cf_server_id cfg ! 0" "ip \<noteq> []"
    and "a \<in> set (cf_worker_id cfg)" "rq_keys request = k # ks" "0 \<le> k" "k < cf_key_range cfg"
  shows "\<exists>st' out. Server_Initialize F ip port master (Some m) st = Inr (True, st', out) \<and>
    parameters st' = [] \<and> ServePull a request st' = Inl OutOfBounds"
proof -
  have layout: "wf_layout cfg" using assms(3) by (simp add: wf_config_def)
  then have "0 < length (cf_server_id cfg)" using assms(4) by (simp add: wf_layout_def)
  from Server_Initialize_configured [OF assms(1-3) this assms(5,6), of F port master] obtain st' out where
    init: "Server_Initialize F ip port master (Some m) st = Inr (True, st', out)"
    and c: "configured F cfg 0 st'"
    by (auto simp: returns_iff)
  have ps: "parameters st' = []" using c single_server_dist [OF assms(4)] by (simp add: configured_def)
  have "id_to_index st' a \<noteq> None" "ran (id_to_index st') = {0..<agent_num st'}"
    using c assms(7) by (auto simp: configured_def server_inv_def wf_agents_def)
  then obtain i where i: "id_to_index st' a = Some i" "0 \<le> i" "i < agent_num st'"
    by (metis atLeastLessThan_iff not_None_eq ranI)
  have q: "vec_get (version_buffer st') i = Inr []"
    using c i(2,3) by (simp add: configured_def vec_get_def)
  have b: "0 < size_t_of_int (consistency_bound st')"
    using c assms(3) by (simp add: configured_def wf_config_def size_t_of_int_nonneg)
  have "start_key st' \<in> set (cf_partition cfg)"
    using c layout assms(4) nth_mem [of 0 "cf_partition cfg"] by (simp add: configured_def wf_layout_def Suc_le_eq)
  then have "0 \<le> start_key st'" "start_key st' < cf_key_range cfg" "in_i32 (2 * cf_key_range cfg)"
    using layout by (auto simp: wf_layout_def)
  then have "in_i32 (k - start_key st')" "in_i32 (k - start_key st' + key_range st')"
    using c assms(9,10) by (auto simp: configured_def in_i32_iff)
  then have "ServePull a request st' = Inl OutOfBounds"
    using i(1) q b ps assms(8) by (auto simp: ServePull_def vec_get_def)
  with init ps show ?thesis by blast
qed

theorem single_server_has_no_parameters_witness:
  "\<exists>st' out. Server_Initialize int_ops ''10.0.0.1'' 8888 ''a:1''
      (Some (new_Message\<lparr>recv_id := 1, config_msg := Some (example_config\<lparr>cf_server_num := 1,
         cf_backup_size := 0, cf_server_id := [1], cf_partition := [2]\<rparr>)\<rparr>)) example_fresh = Inr (True, st', out) \<and>
    parameters st' = [] \<and>
    ServePull 3 \<lparr> request_type = RequestType_key, rq_keys = [4], rq_values = [] \<rparr> st' = Inl OutOfBounds"
  by (rule single_server_has_no_parameters [where cfg = "example_config\<lparr>cf_server_num := 1,
         cf_backup_size := 0, cf_server_id := [1], cf_partition := [2]\<rparr>" and k = 4 and ks = "[]"])
    (simp_all add: fresh_server_def example_fresh_def wf_config_def wf_layout_def example_config_def in_i32_iff)

end
