(* ===== verification/Server_Reconfigure.thy ===== *)
theory Server_Reconfigure
  imports Server_Properties
begin

text \<open>
  Reconfiguration of a running server (\<open>Server::Reconfigure\<close> and \<open>Server::ExtendParameter\<close> of
  \<open>src/server/server.cc\<close>): the blocked requests are answered, the position on the ring and the
  addresses are renewed, and the parameters are extended by the backups.
\<close>

section \<open>ExtendParameter\<close>

text \<open>Backups go in front of the parameters, one after the other, until the length is right.\<close>

fun prepend_until :: "nat \<Rightarrow> 'a list list \<Rightarrow> 'a list \<Rightarrow> 'a list" where
  "prepend_until n [] ps = ps"
| "prepend_until n (b # bs) ps = (if length ps = n then ps else prepend_until n bs (b @ ps))"

lemma prepend_until_full: "length ps = n \<Longrightarrow> prepend_until n bs ps = ps"
  by (cases bs) simp_all

lemma prepend_until_suffix: "\<exists>qs. prepend_until n bs ps = qs @ ps"
  by (induction n bs ps rule: prepend_until.induct) auto

lemma extend_loop_result:
  assumes "backup_parameters st = bs0 @ bs" "0 \<le> parameter_length st" "in_i32 (parameter_length st)"
  shows "extend_loop (map int [length bs0..<length (bs0 @ bs)]) st =
      Inr (st\<lparr>parameters := prepend_until (nat (parameter_length st)) bs (parameters st)\<rparr>)"
  using assms
proof (induction bs arbitrary: bs0 st)
  case (Cons b bs)
  have size: "size_t_of_int (parameter_length st) = parameter_length st"
    using Cons.prems(2,3) by (simp add: size_t_of_int_nonneg)
  have upt: "[length bs0..<length (bs0 @ b # bs)] = length bs0 # [length (bs0 @ [b])..<length ((bs0 @ [b]) @ bs)]"
    by (simp add: upt_rec)
  show ?case
  proof (cases "length (parameters st) = nat (parameter_length st)")
    case True
    then have "int (length (parameters st)) = parameter_length st" using Cons.prems(2) by simp
    then show ?thesis unfolding upt using size True by simp
  next
    case False
    then have "int (length (parameters st)) \<noteq> parameter_length st" using Cons.prems(2) by auto
    moreover have "vec_get (backup_parameters st) (int (length bs0)) = Inr b"
      using Cons.prems(1) by simp
    moreover have "extend_loop (map int [length (bs0 @ [b])..<length ((bs0 @ [b]) @ bs)])
        (st\<lparr>parameters := b @ parameters st\<rparr>) = Inr (st\<lparr>parameters :=
          prepend_until (nat (parameter_length st)) bs (b @ parameters st)\<rparr>)"
      using Cons.IH [of "st\<lparr>parameters := b @ parameters st\<rparr>" "bs0 @ [b]"] Cons.prems by simp
    ultimately show ?thesis unfolding upt using size False by simp
  qed
qed simp

lemma ExtendParameter_result:
  assumes "int (length (backup_parameters st)) = backup_size st"
    and "0 \<le> parameter_length st" "in_i32 (parameter_length st)"
  shows "ExtendParameter st = Inr (st\<lparr>parameters :=
      prepend_until (nat (parameter_length st)) (backup_parameters st) (parameters st)\<rparr>)"
  using extend_loop_result [of st "[]" "backup_parameters st"] assms
  by (simp add: ExtendParameter_def upto_of_nat flip: assms(1))

section \<open>The agents\<close>

lemma drop_agents_same:
  "set as \<subseteq> set ws \<Longrightarrow> fold_res (drop_agent ws) as st = Inr st"
  by (induction as) (simp_all add: drop_agent_def)

lemma add_agents_same:
  assumes "\<forall>w\<in>set ws. id_to_index st w \<noteq> None" "\<forall>i\<in>set is. 0 \<le> i \<and> i < int (length ws)"
  shows "fold_res (add_agent ws) is st = Inr st"
  using assms(2)
proof (induction "is")
  case (Cons i "is")
  then have "ws ! nat i \<in> set ws" by (auto simp: nat_less_iff)
  with Cons assms(1) show ?case by (auto simp: add_agent_def)
qed simp

section \<open>Reconfigure\<close>

lemma blocked_answerable:
  assumes "server_inv st"
  shows "RespondToAll st = Inr (st\<lparr>pull_request := []\<rparr>, blocked_replies st)"
proof (rule RespondToAll_replies)
  fix p assume "p \<in> set (pull_request st)"
  with assms show "wf_pull p \<and> (\<forall>k\<in>set (pi_keys p). fits (start_key st) (length (parameters st)) k)"
    using in_range_fits [of st] by (auto simp: server_inv_def wf_blocked_def)
qed

text \<open>The state after a reconfiguration in which the agents stay the same.\<close>

definition reconfigured :: "(socket \<Rightarrow> int) \<Rightarrow> ConfigMessage \<Rightarrow> nat \<Rightarrow> 'v server \<Rightarrow> 'v server \<Rightarrow> bool" where
  "reconfigured zmq_close cfg idx st st' \<longleftrightarrow>
     local_index st' = int idx \<and> start_key st' = cf_partition cfg ! idx \<and>
     parameter_length st' = ring_dist cfg (int idx) \<and> server_ids st' = cf_server_id cfg \<and>
     (\<forall>s i. servers st' s = Some i \<longleftrightarrow> 0 \<le> i \<and> i < cf_server_num cfg \<and> cf_server_id cfg ! nat i = s) \<and>
     server_num st' = cf_server_num cfg \<and> key_range st' = cf_key_range cfg \<and>
     id_to_addr (sender st') = id_to_addr (refresh_addrs zmq_close (cf_node_ip_port cfg) (sender st)) \<and>
     master_ids st' = cf_master_id cfg \<and> set (agent_ids st') = set (cf_worker_id cfg) \<and>
     agent_num st' = cf_worker_num cfg \<and>
     parameters st' = prepend_until (nat (ring_dist cfg (int idx))) (backup_parameters st) (parameters st) \<and>
     local_id st' = local_id st \<and> consistency_bound st' = consistency_bound st \<and>
     bottom_version st' = bottom_version st \<and> version_buffer st' = version_buffer st \<and>
     finish_count st' = finish_count st \<and> id_to_index st' = id_to_index st \<and>
     backup_size st' = backup_size st \<and> backup_parameters st' = backup_parameters st \<and>
     pull_request st' = []"

lemma add_servers_loop:
  assumes "wf_layout cfg" "idx < length (cf_server_id cfg)"
    and "local_id st = cf_server_id cfg ! idx" "server_num st = cf_server_num cfg"
    and "key_range st = cf_key_range cfg" "server_ids st = []" "servers st = Map.empty"
  shows "\<exists>st'. fold_res (add_server cfg) [0..cf_server_num cfg - 1] (st, False) = Inr (st', True) \<and>
      servers_added cfg idx st (length (cf_server_id cfg)) (st', True) \<and>
      backup_parameters st' = backup_parameters st"
proof -
  let ?n = "length (cf_server_id cfg)"
  have n: "cf_server_num cfg = int ?n" using assms(1) by (simp add: wf_layout_def)
  let ?I = "\<lambda>j x. servers_added cfg idx st j x \<and> backup_parameters (fst x) = backup_parameters st"
  have "returns (fold_res (add_server cfg) [0..int ?n - 1] (st, False)) (?I ?n)"
  proof (rule returns_fold_count)
    show "?I 0 (st, False)" using assms(6,7) by (simp add: servers_added_def)
  next
    fix j x assume j: "j < ?n" and I: "?I j x"
    obtain st1 found where x: "x = (st1, found)" by force
    from add_server_adds [OF assms(1-5) j, of st1 found] I
    show "returns (add_server cfg (int j) x) (?I (Suc j))"
      by (auto simp: x returns_iff)
  qed
  then show ?thesis using assms(2) unfolding n by (auto simp: returns_iff servers_added_def)
qed

lemma Reconfigure_reconfigured:
  assumes inv: "server_inv st" and cfg: "wf_layout cfg" "idx < length (cf_server_id cfg)"
    and lid: "local_id st = cf_server_id cfg ! idx"
    and agents: "set (cf_worker_id cfg) = set (agent_ids st)"
      "int (length (cf_worker_id cfg)) = agent_num st"
  shows "\<exists>st'. Reconfigure zmq_close cfg st = Inr (st', blocked_replies st) \<and>
      reconfigured zmq_close cfg idx st st'"
proof -
  let ?st1 = "st\<lparr>pull_request := [], server_num := cf_server_num cfg, key_range := cf_key_range cfg,
      server_ids := [], servers := Map.empty\<rparr>"
  from add_servers_loop [OF cfg, of ?st1] lid obtain st2 where
    loop: "fold_res (add_server cfg) [0..cf_server_num cfg - 1] (?st1, False) = Inr (st2, True)"
    and I: "servers_added cfg idx ?st1 (length (cf_server_id cfg)) (st2, True)"
    and bp: "backup_parameters st2 = backup_parameters st"
    by auto
  have "others st2 = others ?st1" using I by (simp add: servers_added_def)
  note sel = others_eqD [OF this]
  have n: "cf_server_num cfg = int (length (cf_server_id cfg))" using cfg(1) by (simp add: wf_layout_def)
  have st2: "server_ids st2 = cf_server_id cfg" "local_index st2 = int idx"
      "start_key st2 = cf_partition cfg ! idx" "parameter_length st2 = ring_dist cfg (int idx)"
      "\<forall>s i. servers st2 s = Some i \<longleftrightarrow> 0 \<le> i \<and> i < cf_server_num cfg \<and> cf_server_id cfg ! nat i = s"
    using I cfg(2) n by (simp_all add: servers_added_def)
  define st5 where "st5 = st2\<lparr>sender := refresh_addrs zmq_close (cf_node_ip_port cfg) (sender st2),
      master_ids := cf_master_id cfg, agent_ids := fold set_insert (cf_worker_id cfg) []\<rparr>"
  let ?st3 = "st2\<lparr>sender := refresh_addrs zmq_close (cf_node_ip_port cfg) (sender st2),
      master_ids := cf_master_id cfg\<rparr>"
  have drop: "fold_res (drop_agent (cf_worker_id cfg)) (agent_ids ?st3) ?st3 = Inr ?st3"
    using agents(1) sel by (intro drop_agents_same) simp
  have "id_to_index st5 w \<noteq> None" if "w \<in> set (cf_worker_id cfg)" for w
    using that inv agents(1) sel by (auto simp: st5_def server_inv_def wf_agents_def)
  then have add: "fold_res (add_agent (cf_worker_id cfg)) [0..agent_num ?st3 - 1] st5 = Inr st5"
    using agents(2) sel by (intro add_agents_same) auto
  have "int (length (backup_parameters st5)) = backup_size st5"
    using inv bp sel by (auto simp: st5_def server_inv_def wf_servers_def wf_ring_def)
  moreover have "0 \<le> parameter_length st5" "in_i32 (parameter_length st5)"
    using ring_dist_bounds [OF cfg(1), of "int idx"] cfg(1) st2(4)
    by (simp_all add: st5_def wf_layout_def in_i32_iff)
  ultimately have extend: "ExtendParameter st5 = Inr (st5\<lparr>parameters :=
      prepend_until (nat (parameter_length st5)) (backup_parameters st5) (parameters st5)\<rparr>)"
    by (rule ExtendParameter_result)
  have "Reconfigure zmq_close cfg st = Inr (st5\<lparr>parameters := prepend_until (nat (parameter_length st5))
      (backup_parameters st5) (parameters st5), agent_num := cf_worker_num cfg\<rparr>, blocked_replies st)"
    using blocked_answerable [OF inv] loop drop add extend
    by (simp add: Reconfigure_def st5_def Let_def)
  then show ?thesis
    using st2 sel bp by (simp add: reconfigured_def st5_def fold_set_insert)
qed

lemma reconfigured_inv:
  assumes inv: "server_inv st" and cfg: "wf_layout cfg" "idx < length (cf_server_id cfg)"
    and r: "reconfigured zmq_close cfg idx st st'"
    and same: "cf_partition cfg ! idx = start_key st" "ring_dist cfg (int idx) = parameter_length st"
      "cf_worker_num cfg = agent_num st" "set (cf_worker_id cfg) = set (agent_ids st)"
      "backup_size st < cf_server_num cfg"
  shows "server_inv st' \<and> parameters st' = parameters st"
proof -
  have len: "int (length (parameters st)) = parameter_length st"
    using inv by (simp add: server_inv_def wf_range_def)
  then have ps: "parameters st' = parameters st"
    using r same(2) by (simp add: reconfigured_def prepend_until_full)
  have range: "in_range st' = in_range st"
    using r same(1,2) by (simp add: reconfigured_def in_range_def fun_eq_iff)
  have n: "cf_server_num cfg = int (length (cf_server_id cfg))" "in_i32 (2 * cf_server_num cfg)"
    using cfg(1) by (simp_all add: wf_layout_def)
  have "wf_servers st'"
    using inv r cfg(2) same(5) n
    by (simp add: server_inv_def wf_servers_def wf_ring_def reconfigured_def)
  moreover have "wf_range st'"
    using inv r same(1,2) ps by (simp add: server_inv_def wf_range_def reconfigured_def)
  moreover have "wf_agents st'" "wf_counts st'" "wf_updates st'" "wf_blocked st'" "some_empty st'"
      "0 \<le> bottom_version st'"
    using inv r same(3,4)
    by (simp_all add: server_inv_def wf_agents_def wf_counts_def wf_updates_def range
      wf_blocked_def some_empty_def reconfigured_def)
  ultimately show ?thesis using ps by (simp add: server_inv_def)
qed

text \<open>
  C25: reconfiguration of a server by a configuration that names the same agents and names
  this server at position \<open>idx\<close>. Every blocked pull request is answered from the current
  parameters; the server takes its position, key range and neighbours from the configuration and
  the new addresses; version, queued updates and backups stay. The parameters are extended in
  front by the backups until they fill the new range, so when the range is the old one they stay
  as they are, and the invariant holds again.
\<close>

theorem Reconfigure_same_agents:
  assumes "server_inv st" "wf_layout cfg" "idx < length (cf_server_id cfg)"
    and "local_id st = cf_server_id cfg ! idx" "set (cf_worker_id cfg) = set (agent_ids st)"
    and "int (length (cf_worker_id cfg)) = agent_num st" "cf_worker_num cfg = agent_num st"
    and "backup_size st < cf_server_num cfg"
  shows "\<exists>st'. Reconfigure zmq_close cfg st = Inr (st', blocked_replies st) \<and>
      reconfigured zmq_close cfg idx st st' \<and>
      (cf_partition cfg ! idx = start_key st \<and> ring_dist cfg (int idx) = parameter_length st \<longrightarrow>
         server_inv st' \<and> parameters st' = parameters st)"
proof -
  from Reconfigure_reconfigured [OF assms(1-6)] obtain st' where
    st': "Reconfigure zmq_close cfg st = Inr (st', blocked_replies st)" "reconfigured zmq_close cfg idx st st'"
    by blast
  with reconfigured_inv [OF assms(1-3) st'(2)] assms(5,7,8) show ?thesis by blast
qed

theorem Reconfigure_same_agents_witness:
  "\<exists>st'. Reconfigure (\<lambda>_. 0) example_config example_server = Inr (st', []) \<and>
     parameters st' = [0, 0, 0, 0] \<and> start_key st' = 2 \<and> server_inv st'"
proof -
  have inv: "server_inv example_server" using example_rep by (simp add: server_rep_def)
  have layout: "wf_layout example_config" by (simp add: wf_layout_def example_config_def in_i32_iff)
  have "\<exists>st'. Reconfigure (\<lambda>_. 0) example_config example_server = Inr (st', blocked_replies example_server) \<and>
      reconfigured (\<lambda>_. 0) example_config 0 example_server st' \<and>
      (cf_partition example_config ! 0 = start_key example_server \<and>
         ring_dist example_config (int 0) = parameter_length example_server \<longrightarrow>
         server_inv st' \<and> parameters st' = parameters example_server)"
    by (rule Reconfigure_same_agents [OF inv layout])
      (auto simp: example_config_def example_server_def)
  moreover have "ring_dist example_config 0 = 4" "cf_partition example_config ! 0 = 2"
    by (simp_all add: ring_dist_def example_config_def)
  ultimately show ?thesis
    by (auto simp: reconfigured_def example_server_def blocked_replies_def)
qed

section \<open>The loss of an agent\<close>

lemma ahead_clear:
  assumes "j < length vb"
  shows "int (ahead i (vb[j := []])) = int (ahead i vb) - (if i < length (vb ! j) then 1 else 0)"
proof -
  have vb: "vb = take j vb @ vb ! j # drop (Suc j) vb" using assms by (rule id_take_nth_drop)
  have "vb[j := []] = take j vb @ [] # drop (Suc j) vb" using assms by (rule upd_conv_take_nth_drop)
  then show ?thesis
    by (subst (2) vb) (simp add: ahead_def)
qed

text \<open>What the loop over the agents keeps: the counts, and an index into the buffers for every agent.\<close>

definition droppable :: "int \<Rightarrow> 'v server \<Rightarrow> bool" where
  "droppable n st \<longleftrightarrow> agent_num st = n \<and> wf_counts st \<and> version_buffer st \<noteq> [] \<and>
     in_i32 (int (length (version_buffer st))) \<and>
     (\<forall>i\<in>ran (id_to_index st). 0 \<le> i \<and> i < int (length (version_buffer st)))"

lemma decrement_counts:
  assumes "k \<le> length fc" "\<forall>i<length fc. in_i32 (fc ! i) \<and> (i < k \<longrightarrow> 1 \<le> fc ! i)"
  shows "returns (fold_res (\<lambda>i fc. bind_res (vec_get fc i) (\<lambda>n. bind_res (i32 (n - 1)) (vec_set fc i)))
      [0..int k - 1] fc)
    (\<lambda>fc'. length fc' = length fc \<and> (\<forall>i<length fc. fc' ! i = fc ! i - (if i < k then 1 else 0)))"
proof (rule returns_fold_count)
  fix j fc'
  assume j: "j < k" and I: "length fc' = length fc \<and> (\<forall>i<length fc. fc' ! i = fc ! i - (if i < j then 1 else 0))"
  have "j < length fc" using j assms(1) by simp
  then have "fc' ! j = fc ! j" "j < length fc'" "in_i32 (fc ! j)" "1 \<le> fc ! j" using I j assms(2) by auto
  moreover from this have "in_i32 (fc ! j - 1)" by (simp add: in_i32_iff)
  ultimately show "returns (bind_res (vec_get fc' (int j)) (\<lambda>n. bind_res (i32 (n - 1)) (vec_set fc' (int j))))
      (\<lambda>fc'. length fc' = length fc \<and> (\<forall>i<length fc. fc' ! i = fc ! i - (if i < Suc j then 1 else 0)))"
    using I by (auto simp: wp nth_list_update)
qed simp

lemma drop_agent_keeps:
  assumes "droppable n st"
  shows "returns (drop_agent ws aid st) (droppable n)"
proof (cases "aid \<in> set ws")
  case False
  obtain idx m where at: "map_at (id_to_index st) aid = (idx, m)" by force
  let ?vb = "version_buffer st" and ?fc = "finish_count st"
  have idx: "0 \<le> idx" "idx < int (length ?vb)"
    using assms at by (auto simp: droppable_def map_at_def ranI split: option.splits)
  have ran: "\<forall>i\<in>ran (m(aid := None)). 0 \<le> i \<and> i < int (length ?vb)"
    using assms at by (fastforce simp: droppable_def map_at_def ran_def split: option.splits if_splits)
  let ?q = "?vb ! nat idx"
  have q: "?q \<in> set ?vb" using idx by simp
  have counts: "length ?fc = bound st" "\<forall>i<bound st. ?fc ! i = int (ahead i ?vb)"
      "\<forall>q\<in>set ?vb. length q \<le> bound st" "in_i32 (int (length ?vb))"
    using assms by (simp_all add: droppable_def wf_counts_def)
  have "1 \<le> ahead i ?vb" if "i < length ?q" for i
    using q that by (auto simp: ahead_def Suc_le_eq length_greater_0_conv filter_empty_conv)
  moreover have "in_i32 (int (ahead i ?vb))" for i
    using ahead_le [of i ?vb] counts(4) by (auto simp: in_i32_iff)
  ultimately have "returns (fold_res (\<lambda>i fc. bind_res (vec_get fc i) (\<lambda>n. bind_res (i32 (n - 1)) (vec_set fc i)))
      [0..int (length ?q) - 1] ?fc)
    (\<lambda>fc'. length fc' = length ?fc \<and> (\<forall>i<length ?fc. fc' ! i = ?fc ! i - (if i < length ?q then 1 else 0)))"
    using counts q by (intro decrement_counts) auto
  then obtain fc' where fc': "fold_res (\<lambda>i fc. bind_res (vec_get fc i) (\<lambda>n. bind_res (i32 (n - 1)) (vec_set fc i)))
      [0..int (length ?q) - 1] ?fc = Inr fc'" "length fc' = length ?fc"
      "\<forall>i<length ?fc. fc' ! i = ?fc ! i - (if i < length ?q then 1 else 0)"
    by (auto simp: returns_iff)
  let ?st = "st\<lparr>finish_count := fc', version_buffer := ?vb[nat idx := []], id_to_index := m(aid := None)\<rparr>"
  have "\<forall>i<bound st. fc' ! i = int (ahead i (?vb[nat idx := []]))"
    using fc'(3) counts(1,2) idx ahead_clear [of "nat idx" ?vb] by auto
  then have "wf_counts ?st"
    using assms fc'(2) counts(1,3) set_update_subset_insert [of ?vb "nat idx" "[]"]
    by (auto simp: droppable_def wf_counts_def)
  then have "droppable n ?st" using assms ran by (auto simp: droppable_def)
  then show ?thesis using False at idx fc'(1) by (simp add: drop_agent_def vec_set_def)
qed (use assms in \<open>simp add: drop_agent_def\<close>)

lemma add_agents_short:
  assumes "int (length ws) < n"
  shows "fold_res (add_agent ws) [0..n - 1] st = Inl OutOfBounds"
proof -
  have split: "[0..n - 1] = [0..int (length ws) - 1] @ int (length ws) # [int (length ws) + 1..n - 1]"
    using assms upto_split3 [of 0 "int (length ws)" "n - 1"] by simp
  have "returns (fold_res (add_agent ws) [0..int (length ws) - 1] st) (\<lambda>_. True)"
    by (rule returns_fold_res) (auto simp: add_agent_def wp)
  then obtain st' where "fold_res (add_agent ws) [0..int (length ws) - 1] st = Inr st'"
    by (auto simp: returns_iff)
  then show ?thesis
    unfolding split by (simp add: fold_res_append add_agent_def vec_get_out)
qed


text \<open>
  C36: a server does not survive the loss of an agent. When a configuration that names the server
  names fewer agents than before, which is what the master delivers after it has removed a dead
  agent, \<open>Reconfigure\<close> renews the ring, drops the updates of the lost agents, and then reads the
  list of agents up to the old number of agents: the access is out of bounds, in every state the
  server can be in.
\<close>

theorem Reconfigure_lost_agent_faults:
  assumes "server_inv st" "wf_layout cfg" "idx < length (cf_server_id cfg)"
    and "local_id st = cf_server_id cfg ! idx" "int (length (cf_worker_id cfg)) < agent_num st"
  shows "Reconfigure zmq_close cfg st = Inl OutOfBounds"
proof -
  let ?st1 = "st\<lparr>pull_request := [], server_num := cf_server_num cfg, key_range := cf_key_range cfg,
      server_ids := [], servers := Map.empty\<rparr>"
  from add_servers_loop [OF assms(2,3), of ?st1] assms(4) obtain st2 where
    loop: "fold_res (add_server cfg) [0..cf_server_num cfg - 1] (?st1, False) = Inr (st2, True)"
    and I: "servers_added cfg idx ?st1 (length (cf_server_id cfg)) (st2, True)"
    by auto
  have "others st2 = others ?st1" using I by (simp add: servers_added_def)
  note sel = others_eqD [OF this]
  let ?st3 = "st2\<lparr>sender := refresh_addrs zmq_close (cf_node_ip_port cfg) (sender st2),
      master_ids := cf_master_id cfg\<rparr>"
  have "droppable (agent_num st) st" using assms(1)
    by (auto simp: droppable_def server_inv_def wf_agents_def)
  then have "droppable (agent_num st) ?st3" using sel by (simp add: droppable_def wf_counts_def)
  then have "returns (fold_res (drop_agent (cf_worker_id cfg)) (agent_ids ?st3) ?st3) (droppable (agent_num st))"
    by (rule returns_fold_res) (rule drop_agent_keeps)
  then obtain st4 where
    drop: "fold_res (drop_agent (cf_worker_id cfg)) (agent_ids ?st3) ?st3 = Inr st4" "agent_num st4 = agent_num st"
    by (auto simp: returns_iff droppable_def)
  then show ?thesis
    using blocked_answerable [OF assms(1)] loop
    by (simp add: Reconfigure_def Let_def add_agents_short [OF assms(5)])
qed

theorem Reconfigure_lost_agent_faults_witness:
  "Reconfigure (\<lambda>_. 0) (example_config\<lparr>cf_worker_id := [4]\<rparr>) example_server = Inl OutOfBounds"
proof (rule Reconfigure_lost_agent_faults [where idx = 0])
  show "server_inv example_server" using example_rep by (simp add: server_rep_def)
qed (simp_all add: wf_layout_def example_config_def example_server_def in_i32_iff)

end
