(* ===== verification/Std_Algorithms.thy ===== *)
theory Std_Algorithms
  imports Prelude
begin

text \<open>
  The algorithms of the C++ standard library that the sources call: the binary searches
  \<open>std::lower_bound\<close> and \<open>std::upper_bound\<close> (\<open>Partition\<close>), and the ordered
  \<open>std::map\<close> whose in-order traversal sorts the keys (\<open>Agent::SortKeyValue\<close>).
  The searches are the halving loop of the library; \<open>partition_point_eq\<close> shows that on a
  partitioned range they find the boundary that a linear scan finds.
\<close>

section \<open>Binary search\<close>

function partition_point :: "('a \<Rightarrow> bool) \<Rightarrow> 'a list \<Rightarrow> nat \<Rightarrow> nat \<Rightarrow> nat" where
  "partition_point p xs first len =
     (if len = 0 then first
      else let half = len div 2; middle = first + half in
        if p (xs ! middle) then partition_point p xs (middle + 1) (len - half - 1)
        else partition_point p xs first half)"
  by pat_completeness auto
termination
  by (relation "measure (\<lambda>(p, xs, first, len). len)") auto

declare partition_point.simps [simp del]

definition lower_bound :: "int list \<Rightarrow> nat \<Rightarrow> int \<Rightarrow> nat" where
  "lower_bound xs first v = partition_point (\<lambda>x. x < v) xs first (length xs - first)"

definition upper_bound :: "int list \<Rightarrow> nat \<Rightarrow> int \<Rightarrow> nat" where
  "upper_bound xs first v = partition_point (\<lambda>x. \<not> v < x) xs first (length xs - first)"

text \<open>The range \<open>[first, first + len)\<close> is partitioned: \<open>p\<close> holds on a prefix of it.\<close>

definition partitioned :: "('a \<Rightarrow> bool) \<Rightarrow> 'a list \<Rightarrow> nat \<Rightarrow> nat \<Rightarrow> bool" where
  "partitioned p xs first len \<longleftrightarrow>
     (\<forall>i j. first \<le> i \<longrightarrow> i \<le> j \<longrightarrow> j < first + len \<longrightarrow> p (xs ! j) \<longrightarrow> p (xs ! i))"

text \<open>The boundary \<open>k\<close> of the range, as a linear scan would find it.\<close>

definition boundary :: "('a \<Rightarrow> bool) \<Rightarrow> 'a list \<Rightarrow> nat \<Rightarrow> nat \<Rightarrow> nat \<Rightarrow> bool" where
  "boundary p xs first len k \<longleftrightarrow>
     first \<le> k \<and> k \<le> first + len \<and>
     (\<forall>i. first \<le> i \<and> i < k \<longrightarrow> p (xs ! i)) \<and>
     (\<forall>i. k \<le> i \<and> i < first + len \<longrightarrow> \<not> p (xs ! i))"

section \<open>Ordered maps\<close>

text \<open>
  \<open>std::map\<close> as the list of its pairs in key order; \<open>insert\<close> leaves the pair of a key
  that is already there.
\<close>

fun omap_insert :: "'k::linorder \<Rightarrow> 'v \<Rightarrow> ('k \<times> 'v) list \<Rightarrow> ('k \<times> 'v) list" where
  "omap_insert k v [] = [(k, v)]"
| "omap_insert k v ((k', v') # m) =
     (if k < k' then (k, v) # (k', v') # m
      else if k = k' then (k', v') # m
      else (k', v') # omap_insert k v m)"

section \<open>Correctness of the searches\<close>

lemma partition_point_0: "partition_point p xs first 0 = first"
  by (simp add: partition_point.simps)

lemma boundary_right:
  assumes "boundary p xs (m + 1) (first + len - m - 1) k" "first \<le> m" "m < first + len"
    and "\<And>i. first \<le> i \<Longrightarrow> i \<le> m \<Longrightarrow> p (xs ! i)"
  shows "boundary p xs first len k"
proof -
  have "p (xs ! i)" if "first \<le> i" "i < k" for i
    using assms that by (cases "i \<le> m") (auto simp: boundary_def)
  with assms show ?thesis by (auto simp: boundary_def)
qed

lemma boundary_left:
  assumes "boundary p xs first (m - first) k" "first \<le> m" "m < first + len"
    and "\<And>i. m \<le> i \<Longrightarrow> i < first + len \<Longrightarrow> \<not> p (xs ! i)"
  shows "boundary p xs first len k"
proof -
  have "\<not> p (xs ! i)" if "k \<le> i" "i < first + len" for i
    using assms that by (cases "m \<le> i") (auto simp: boundary_def)
  with assms show ?thesis by (auto simp: boundary_def)
qed

lemma partition_point_boundary:
  "partitioned p xs first len \<Longrightarrow> boundary p xs first len (partition_point p xs first len)"
proof (induction p xs first len rule: partition_point.induct)
  case (1 p xs first len)
  show ?case
  proof (cases "len = 0")
    case True
    then show ?thesis by (auto simp: partition_point_0 boundary_def)
  next
    case False
    define half middle where "half = len div 2" and "middle = first + half"
    from False have m: "first \<le> middle" "middle < first + len"
      by (simp_all add: half_def middle_def)
    have step: "partition_point p xs first len =
        (if p (xs ! middle) then partition_point p xs (middle + 1) (len - half - 1)
         else partition_point p xs first half)"
      using False by (simp add: partition_point.simps [of p xs first len] Let_def half_def middle_def)
    show ?thesis
    proof (cases "p (xs ! middle)")
      case True
      have "partitioned p xs (middle + 1) (len - half - 1)"
        using "1.prems" m by (auto simp: partitioned_def middle_def)
      then have "boundary p xs (middle + 1) (first + len - middle - 1)
              (partition_point p xs first len)"
        using "1.IH"(1) [OF False half_def middle_def True] True step
        by (simp add: middle_def)
      then show ?thesis
        by (rule boundary_right [OF _ m])
          (use "1.prems" True m in \<open>auto simp: partitioned_def\<close>)
    next
      case F: False
      have "partitioned p xs first half"
        using "1.prems" m by (auto simp: partitioned_def middle_def)
      then have "boundary p xs first (middle - first) (partition_point p xs first len)"
        using "1.IH"(2) [OF False half_def middle_def F] F step by (simp add: middle_def)
      then show ?thesis
        by (rule boundary_left [OF _ m])
          (use "1.prems" F m in \<open>auto simp: partitioned_def\<close>)
    qed
  qed
qed

lemma boundary_le:
  assumes "boundary p xs first len k" "boundary p xs first len k'"
  shows "k \<le> k'"
proof (rule ccontr)
  assume "\<not> k \<le> k'"
  then have "p (xs ! k')" "\<not> p (xs ! k')" using assms by (auto simp: boundary_def)
  then show False by simp
qed

lemma boundary_unique: "boundary p xs first len k \<Longrightarrow> boundary p xs first len k' \<Longrightarrow> k = k'"
  by (simp add: boundary_le order_antisym)

lemma partition_point_eq:
  "partitioned p xs first len \<Longrightarrow> boundary p xs first len k \<Longrightarrow>
   partition_point p xs first len = k"
  by (rule boundary_unique [OF partition_point_boundary])

lemma sorted_partitioned:
  assumes "sorted xs" "\<And>x y. x \<le> y \<Longrightarrow> p y \<Longrightarrow> p x" "first + len \<le> length xs"
  shows "partitioned p xs first len"
  unfolding partitioned_def using assms
  by (metis le_trans linorder_not_less order.strict_trans2 sorted_nth_mono)

lemma lower_bound_boundary:
  "sorted xs \<Longrightarrow> first \<le> length xs \<Longrightarrow>
   boundary (\<lambda>x. x < v) xs first (length xs - first) (lower_bound xs first v)"
  unfolding lower_bound_def by (rule partition_point_boundary, rule sorted_partitioned) auto

lemma upper_bound_boundary:
  "sorted xs \<Longrightarrow> first \<le> length xs \<Longrightarrow>
   boundary (\<lambda>x. \<not> v < x) xs first (length xs - first) (upper_bound xs first v)"
  unfolding upper_bound_def by (rule partition_point_boundary, rule sorted_partitioned) auto

section \<open>Correctness of the ordered map\<close>

lemma keys_omap_insert: "fst ` set (omap_insert k v m) = insert k (fst ` set m)"
  by (induction m rule: omap_insert.induct [of _ k v]) auto

lemma sorted_omap_insert:
  "sorted_wrt (<) (map fst m) \<Longrightarrow> sorted_wrt (<) (map fst (omap_insert k v m))"
proof (induction k v m rule: omap_insert.induct)
  case (2 k v k' v' m)
  then show ?case using keys_omap_insert [of k v m] by (auto simp flip: set_map)
qed simp

lemma set_omap_insert_new:
  "k \<notin> fst ` set m \<Longrightarrow> set (omap_insert k v m) = insert (k, v) (set m)"
  by (induction k v m rule: omap_insert.induct) auto

lemma set_omap_insert_subset: "set (omap_insert k v m) \<subseteq> insert (k, v) (set m)"
  by (induction k v m rule: omap_insert.induct) auto

lemma length_omap_insert_le: "length (omap_insert k v m) \<le> Suc (length m)"
  by (induction k v m rule: omap_insert.induct) auto

lemma length_omap_insert_new:
  "k \<notin> fst ` set m \<Longrightarrow> length (omap_insert k v m) = Suc (length m)"
  by (induction k v m rule: omap_insert.induct) auto

end
