(* ===== verification/Agent_Partition.thy ===== *)
theory Agent_Partition
  imports Std_Algorithms
begin

text \<open>
  The class \<open>Partition\<close> (\<open>src/agent/partition.h\<close>, \<open>src/agent/partition.cc\<close>): the
  vector of hash values that assigns each key of \<open>[0, key_range)\<close> to a server, on a ring:
  server \<open>i\<close> has the keys from \<open>part_vec[i]\<close> up to \<open>part_vec[i + 1]\<close>, and the last
  server those from \<open>part_vec[n - 1]\<close> up, round through 0, to \<open>part_vec[0]\<close>.
  \<open>owns\<close> is that specification: the binary search finds exactly the owner of a key, and
  a block of sorted keys that \<open>NextEnding\<close> cuts off has one owner.
\<close>

record Partition =
  part_key_range :: int
  part_server_num :: int
  part_vec :: "int list"

definition Partition_Initialize_vector ::
    "int \<Rightarrow> int \<Rightarrow> int list \<Rightarrow> Partition \<Rightarrow> bool \<times> Partition" where
  "Partition_Initialize_vector key_range server_num pv p =
     (let p1 = p\<lparr>part_key_range := key_range, part_server_num := server_num\<rparr> in
      if int (length pv) \<noteq> size_t_of_int server_num then (False, p1)
      else (True, p1\<lparr>part_vec := pv\<rparr>))"

text \<open>The overload that copies \<open>server_num\<close> elements of an array.\<close>

definition Partition_Initialize_array ::
    "int \<Rightarrow> int \<Rightarrow> int list \<Rightarrow> Partition \<Rightarrow> Partition res" where
  "Partition_Initialize_array key_range server_num pv p =
     bind_res (map_res (vec_get pv) [0..server_num - 1])
       (\<lambda>copied. Inr (p\<lparr>part_key_range := key_range, part_server_num := server_num,
                        part_vec := copied\<rparr>))"

definition Partition_Finalize :: "Partition \<Rightarrow> Partition" where
  "Partition_Finalize p = p\<lparr>part_vec := []\<rparr>"

definition GetServerByKey :: "Partition \<Rightarrow> int \<Rightarrow> int res" where
  "GetServerByKey p key =
     (if key < 0 \<or> part_key_range p \<le> key then Inr (-1)
      else bind_res (vec_get (part_vec p) 0) (\<lambda>p0.
        if key < p0 then i32 (part_server_num p - 1)
        else i32 (int (upper_bound (part_vec p) 0 key) - 1)))"

text \<open>The end of the block that starts at \<open>start\<close>, and the index of its server.\<close>

definition NextEnding :: "Partition \<Rightarrow> int list \<Rightarrow> int \<Rightarrow> (int \<times> int) res" where
  "NextEnding p keys start =
     bind_res (vec_get keys start) (\<lambda>key.
     bind_res (GetServerByKey p key) (\<lambda>server_id.
     bind_res (vec_get (part_vec p) 0) (\<lambda>p0.
       if key < p0 then Inr (int (lower_bound keys (nat start) p0), server_id)
       else if server_id = part_server_num p - 1 then Inr (int (length keys), server_id)
       else bind_res (vec_get (part_vec p) (server_id + 1)) (\<lambda>pn.
         Inr (int (lower_bound keys (nat start) pn), server_id)))))"

section \<open>The specification: which server owns a key\<close>

definition wf_partition :: "Partition \<Rightarrow> bool" where
  "wf_partition p \<longleftrightarrow>
     part_vec p \<noteq> [] \<and> part_server_num p = int (length (part_vec p)) \<and>
     sorted (part_vec p) \<and> (\<forall>x \<in> set (part_vec p). 0 \<le> x \<and> x < part_key_range p) \<and>
     in_i32 (part_server_num p) \<and> in_i32 (part_key_range p)"

definition owns :: "Partition \<Rightarrow> int \<Rightarrow> int \<Rightarrow> bool" where
  "owns p i key \<longleftrightarrow>
     (let n = int (length (part_vec p)) in
      0 \<le> i \<and> i < n \<and>
      (if i = n - 1
       then part_vec p ! nat i \<le> key \<and> key < part_key_range p \<or>
            0 \<le> key \<and> key < part_vec p ! 0
       else part_vec p ! nat i \<le> key \<and> key < part_vec p ! nat (i + 1)))"

lemma wf_partition_nth:
  assumes "wf_partition p" "i < length (part_vec p)"
  shows "0 \<le> part_vec p ! i" "part_vec p ! i < part_key_range p"
  using assms by (simp_all add: wf_partition_def)

lemma wf_partition_mono:
  assumes "wf_partition p" "i \<le> j" "j < length (part_vec p)"
  shows "part_vec p ! i \<le> part_vec p ! j"
  using assms by (simp add: wf_partition_def sorted_nth_mono)

lemma owns_range:
  assumes wf: "wf_partition p" and own: "owns p i key"
  shows "0 \<le> key \<and> key < part_key_range p"
proof -
  let ?v = "part_vec p"
  from own have i: "nat i < length ?v" "0 < length ?v" by (auto simp: owns_def Let_def)
  show ?thesis
  proof (cases "i = int (length ?v) - 1")
    case True
    with own wf_partition_nth [OF wf i(1)] wf_partition_nth [OF wf i(2)] show ?thesis
      by (auto simp: owns_def Let_def)
  next
    case False
    with own have "nat (i + 1) < length ?v" by (auto simp: owns_def Let_def)
    with own False wf_partition_nth [OF wf i(1)] wf_partition_nth [OF wf this] show ?thesis
      by (auto simp: owns_def Let_def)
  qed
qed

text \<open>No key has two owners.\<close>

lemma owns_unique_less:
  assumes wf: "wf_partition p" and i: "owns p i key" and j: "owns p j key" and "i < j"
  shows False
proof -
  let ?v = "part_vec p" and ?n = "int (length (part_vec p))"
  from i j \<open>i < j\<close> have bounds: "0 \<le> i" "j < ?n" by (simp_all add: owns_def Let_def)
  with i \<open>i < j\<close> have key: "?v ! nat i \<le> key" "key < ?v ! nat (i + 1)"
    by (auto simp: owns_def Let_def)
  have "?v ! nat (i + 1) \<le> ?v ! nat j" and "?v ! 0 \<le> ?v ! nat i"
    using bounds \<open>i < j\<close> by (auto intro!: wf_partition_mono [OF wf])
  with key j show False by (auto simp: owns_def Let_def split: if_splits)
qed

lemma owns_unique: "wf_partition p \<Longrightarrow> owns p i key \<Longrightarrow> owns p j key \<Longrightarrow> i = j"
  using owns_unique_less [of p i key j] owns_unique_less [of p j key i] by fastforce

section \<open>The binary search finds the owner\<close>

lemma GetServerByKey_owns:
  assumes wf: "wf_partition p" and key: "0 \<le> key" "key < part_key_range p"
  shows "returns (GetServerByKey p key) (\<lambda>i. owns p i key)"
proof -
  let ?v = "part_vec p" and ?u = "upper_bound (part_vec p) 0 key"
  from wf have ne: "0 < length ?v" and n: "part_server_num p = int (length ?v)"
    and i32: "in_i32 (int (length ?v))"
    by (auto simp: wf_partition_def)
  have u: "boundary (\<lambda>x. \<not> key < x) ?v 0 (length ?v) ?u"
    using wf upper_bound_boundary [of ?v 0 key] by (simp add: wf_partition_def)
  show ?thesis
  proof (cases "key < ?v ! 0")
    case True
    have "owns p (int (length ?v) - 1) key"
      using True key ne by (simp add: owns_def Let_def)
    with True key ne n i32 show ?thesis
      by (simp add: GetServerByKey_def wp in_i32_iff)
  next
    case False
    with u ne have pos: "0 < ?u" "?u \<le> length ?v" by (auto simp: boundary_def)
    from u pos have ge: "?v ! (?u - 1) \<le> key"
      by (simp add: boundary_def not_less [symmetric])
    have "key < ?v ! ?u" if "?u < length ?v" using u that by (auto simp: boundary_def)
    with pos ge key have "owns p (int ?u - 1) key"
      by (auto simp: owns_def Let_def nat_diff_distrib)
    with False key ne pos i32 show ?thesis
      by (simp add: GetServerByKey_def wp in_i32_iff)
  qed
qed

lemma GetServerByKey_outside:
  "key < 0 \<or> part_key_range p \<le> key \<Longrightarrow> GetServerByKey p key = Inr (-1)"
  by (auto simp: GetServerByKey_def)

section \<open>Blocks of keys\<close>

text \<open>
  What \<open>NextEnding\<close> promises its callers: the block \<open>[start, end)\<close> is not empty, lies
  inside the key list, is owned as a whole by the returned server, and the key after it is not
  owned by that server, unless the block is the low part of the last server's range, below
  \<open>part_vec[0]\<close>, and the key after it is in the high part of the same range.
\<close>

definition block_end :: "Partition \<Rightarrow> int list \<Rightarrow> int \<Rightarrow> int \<times> int \<Rightarrow> bool" where
  "block_end p keys start r \<longleftrightarrow>
     (case r of (e, sid) \<Rightarrow>
        start < e \<and> e \<le> int (length keys) \<and>
        (\<forall>j. start \<le> j \<and> j < e \<longrightarrow> owns p sid (keys ! nat j)) \<and>
        (e < int (length keys) \<longrightarrow> \<not> owns p sid (keys ! nat e) \<or>
           keys ! nat start < part_vec p ! 0 \<and> part_vec p ! 0 \<le> keys ! nat e))"

definition wf_keys :: "Partition \<Rightarrow> int list \<Rightarrow> bool" where
  "wf_keys p keys \<longleftrightarrow> sorted keys \<and> (\<forall>k \<in> set keys. 0 \<le> k \<and> k < part_key_range p)"

lemma lower_bound_block:
  assumes "sorted keys" "0 \<le> start" "start < int (length keys)" "keys ! nat start < v"
  defines "e \<equiv> int (lower_bound keys (nat start) v)"
  shows "start < e" "e \<le> int (length keys)"
    and "start \<le> j \<Longrightarrow> j < e \<Longrightarrow> keys ! nat start \<le> keys ! nat j \<and> keys ! nat j < v"
    and "e < int (length keys) \<Longrightarrow> v \<le> keys ! nat e"
proof -
  have b: "boundary (\<lambda>x. x < v) keys (nat start) (length keys - nat start) (nat e)"
    using lower_bound_boundary [of keys "nat start" v] assms by (simp add: nat_le_iff)
  then have ge: "nat start \<le> nat e" "nat e \<le> length keys"
    using assms(2,3) by (auto simp: boundary_def)
  have "nat e \<noteq> nat start" using b assms(2-4) by (auto simp: boundary_def)
  then show "start < e" "e \<le> int (length keys)" using ge assms(2) by (auto simp: e_def)
  show "keys ! nat start \<le> keys ! nat j \<and> keys ! nat j < v" if "start \<le> j" "j < e"
    using that b ge assms(1,2) by (auto simp: boundary_def nat_less_iff intro!: sorted_nth_mono)
  show "v \<le> keys ! nat e" if "e < int (length keys)"
  proof -
    from that ge have "nat e < length keys" by (simp add: e_def)
    with b have "\<not> keys ! nat e < v" by (auto simp: boundary_def)
    then show ?thesis by simp
  qed
qed

lemma NextEnding_block_end:
  assumes wf: "wf_partition p" and keys: "wf_keys p keys"
    and start: "0 \<le> start" "start < int (length keys)"
  shows "returns (NextEnding p keys start) (block_end p keys start)"
proof -
  let ?k = "keys ! nat start" and ?v = "part_vec p"
  from start have mem: "?k \<in> set keys" by (simp add: nat_less_iff)
  with keys have k: "0 \<le> ?k" "?k < part_key_range p" and sorted: "sorted keys"
    by (auto simp: wf_keys_def)
  from wf have ne: "0 < length ?v" and n: "part_server_num p = int (length ?v)"
    by (auto simp: wf_partition_def)
  from GetServerByKey_owns [OF wf k] obtain sid where
    sid: "GetServerByKey p ?k = Inr sid" and own: "owns p sid ?k"
    by (auto simp: returns_iff)
  have ge: "?k \<le> keys ! nat j \<and> keys ! nat j < part_key_range p"
    if "start \<le> j" "j < int (length keys)" for j
    using that start sorted keys
    by (auto simp: wf_keys_def nat_less_iff intro!: sorted_nth_mono)
  consider "?k < ?v ! 0" | "?v ! 0 \<le> ?k" "sid = int (length ?v) - 1"
    | "?v ! 0 \<le> ?k" "sid \<noteq> int (length ?v) - 1"
    by linarith
  then show ?thesis
  proof cases
    case 1
    then have "NextEnding p keys start = Inr (int (lower_bound keys (nat start) (?v ! 0)), sid)"
      using start sid ne by (simp add: NextEnding_def)
    moreover have "sid = int (length ?v) - 1"
      using owns_unique [OF wf own, of "int (length ?v) - 1"] 1 k ne
      by (simp add: owns_def Let_def)
    ultimately show ?thesis
      using lower_bound_block [OF sorted start 1] 1 k ne
      by (fastforce simp: block_end_def owns_def Let_def)
  next
    case 2
    then have "NextEnding p keys start = Inr (int (length keys), sid)"
      using start sid ne n by (simp add: NextEnding_def)
    then show ?thesis using 2 own ge start
      by (fastforce simp: block_end_def owns_def Let_def)
  next
    case 3
    with own have nx: "0 \<le> sid" "sid + 1 < int (length ?v)" "?k < ?v ! nat (sid + 1)"
      by (auto simp: owns_def Let_def)
    with 3 have "NextEnding p keys start =
        Inr (int (lower_bound keys (nat start) (?v ! nat (sid + 1))), sid)"
      using start sid ne n by (simp add: NextEnding_def)
    then show ?thesis
      using lower_bound_block [OF sorted start nx(3)] 3 own nx
      by (fastforce simp: block_end_def owns_def Let_def)
  qed
qed

text \<open>A server that is not the last has all its keys in one block.\<close>

lemma block_end_separates:
  assumes wf: "wf_partition p" and keys: "wf_keys p keys" and "0 \<le> start"
    and block: "block_end p keys start (e, sid)" and inner: "sid \<noteq> int (length (part_vec p)) - 1"
    and j: "e \<le> j" "j < int (length keys)"
  shows "\<not> owns p sid (keys ! nat j)"
proof -
  let ?v = "part_vec p"
  have sorted: "sorted keys" using keys by (simp add: wf_keys_def)
  have e: "start < e" "owns p sid (keys ! nat start)"
    "\<not> owns p sid (keys ! nat e) \<or> keys ! nat start < ?v ! 0"
    using block j by (auto simp: block_end_def)
  then have s: "?v ! nat sid \<le> keys ! nat start" "nat sid < length ?v" using inner by (auto simp: owns_def Let_def)
  have "?v ! 0 \<le> ?v ! nat sid" by (rule wf_partition_mono [OF wf]) (use s in simp_all)
  with e(3) s(1) have "\<not> owns p sid (keys ! nat e)" by linarith
  moreover have "keys ! nat start \<le> keys ! nat e" "keys ! nat e \<le> keys ! nat j"
    using e(1) j assms(3) sorted by (auto intro!: sorted_nth_mono)
  ultimately show ?thesis using s(1) e(2) inner by (auto simp: owns_def Let_def)
qed

text \<open>\<open>GetServerByKey\<close> returns index \<open>i\<close> exactly when server \<open>i\<close> owns the key on the ring.\<close>

lemma GetServerByKey_iff:
  assumes "wf_partition p" "0 \<le> key" "key < part_key_range p"
  shows "GetServerByKey p key = Inr i \<longleftrightarrow> owns p i key"
  using GetServerByKey_owns [OF assms] owns_unique [OF assms(1)]
  by (auto simp: returns_iff)

end
