(* ===== verification/Channel.thy ===== *)
theory Channel
  imports Prelude
begin

text \<open>
  The channel between a worker process and its agent (\<open>src/channel\<close>): the named pipe of
  class \<open>Fifo\<close>, over which an \<open>int\<close> is sent as the bytes of its representation, and
  the shared memory that holds one \<open>shmstruct\<close>. What the operating system does is a
  parameter: the descriptor that \<open>open\<close> returns, the bytes that \<open>read\<close> delivers.
\<close>

section \<open>Fifo\<close>

record Fifo =
  filename :: string
  is_reader :: bool
  fd :: int

definition Fifo_Initialize :: "string \<Rightarrow> bool \<Rightarrow> Fifo \<Rightarrow> Fifo" where
  "Fifo_Initialize name reader f = f\<lparr>filename := name, is_reader := reader\<rparr>"

text \<open>\<open>os_open name writable\<close> is the result of \<open>open\<close>; -1 is stored like any other value.\<close>

definition Fifo_Open :: "(string \<Rightarrow> bool \<Rightarrow> int) \<Rightarrow> Fifo \<Rightarrow> Fifo" where
  "Fifo_Open os_open f = f\<lparr>fd := os_open (filename f) (\<not> is_reader f)\<rparr>"

text \<open>The four bytes of an \<open>int\<close>, the least significant one first, and back.\<close>

definition int_bytes :: "int \<Rightarrow> int list" where
  "int_bytes sig = map (\<lambda>i. (sig div 256 ^ i) mod 256) [0..<4]"

definition bytes_int :: "int list \<Rightarrow> int" where
  "bytes_int bs =
     (let u = foldr (\<lambda>b v. b + 256 * v) bs 0 in if 2 ^ 31 \<le> u then u - 2 ^ 32 else u)"

text \<open>
  \<open>Wait\<close>: \<open>received\<close> holds the bytes that one \<open>read\<close> of at most four delivered, none at
  the end of the file or on an error. They overwrite the first bytes of \<open>sig\<close>, which is 0.
\<close>

definition Fifo_Wait :: "int list \<Rightarrow> int" where
  "Fifo_Wait received = bytes_int (take 4 received @ drop (length received) (int_bytes 0))"

definition Fifo_Signal :: "int \<Rightarrow> int list \<Rightarrow> int list" where
  "Fifo_Signal sig pipe = pipe @ int_bytes sig"

section \<open>SharedMemory\<close>

record 'v shmstruct =
  shm_size :: int
  shm_values :: "'v list"
  shm_keys :: "int list"

text \<open>Both arrays have 100 elements.\<close>

definition wf_shm :: "'v shmstruct \<Rightarrow> bool" where
  "wf_shm d \<longleftrightarrow> length (shm_values d) = 100 \<and> length (shm_keys d) = 100"

text \<open>
  \<open>Initialize\<close> maps the object of that name; \<open>ftruncate\<close> gives a new one its size,
  filled with zeros.
\<close>

definition SharedMemory_Initialize ::
    "'v \<Rightarrow> string \<Rightarrow> (string \<rightharpoonup> 'v shmstruct) \<Rightarrow> (string \<rightharpoonup> 'v shmstruct)" where
  "SharedMemory_Initialize zero ipc_name objects =
     (case objects ipc_name of Some _ \<Rightarrow> objects
      | None \<Rightarrow> objects(ipc_name \<mapsto> \<lparr> shm_size = 0, shm_values = replicate 100 zero,
                                    shm_keys = replicate 100 0 \<rparr>))"

definition SharedMemory_Read :: "'v shmstruct \<Rightarrow> 'v shmstruct" where
  "SharedMemory_Read shared_data = shared_data"

definition SharedMemory_Write :: "'v shmstruct \<Rightarrow> 'v shmstruct \<Rightarrow> 'v shmstruct" where
  "SharedMemory_Write data shared_data =
     shared_data\<lparr>shm_values := shm_values data @ drop (length (shm_values data)) (shm_values shared_data),
       shm_keys := shm_keys data @ drop (length (shm_keys data)) (shm_keys shared_data),
       shm_size := shm_size data\<rparr>"

section \<open>Round trips\<close>

lemma SharedMemory_Write_Read:
  assumes "wf_shm data" "wf_shm shared"
  shows "SharedMemory_Read (SharedMemory_Write data shared) = data"
  using assms by (simp add: SharedMemory_Read_def SharedMemory_Write_def wf_shm_def)

lemma bytes_of_int:
  assumes "0 \<le> u" "u < 2 ^ 32"
  shows "foldr (\<lambda>b v. b + 256 * v) (map (\<lambda>i. (u div 256 ^ i) mod 256) [0..<4]) 0 = (u :: int)"
proof -
  have "u = u mod 256 + 256 * (u div 256)" by simp
  moreover have "u div 256 = u div 256 mod 256 + 256 * (u div 256 div 256)" by simp
  moreover have "u div 256 div 256 = u div 256 div 256 mod 256 + 256 * (u div 256 div 256 div 256)"
    by simp
  moreover have "u div 256 div 256 div 256 < 256" "0 \<le> u div 256 div 256 div 256" using assms by simp_all
  then have "u div 256 div 256 div 256 mod 256 = u div 256 div 256 div 256" by simp
  moreover have "[0..<4] = [0, Suc 0, 2, 3]" by (simp add: numeral_eq_Suc)
  ultimately show ?thesis by (simp add: zdiv_zmult2_eq [symmetric])
qed

lemma bytes_int_int_bytes:
  assumes "in_i32 sig"
  shows "bytes_int (int_bytes sig) = sig"
proof -
  have "(sig div 256 ^ i) mod 256 = ((sig mod 2 ^ 32) div 256 ^ i) mod 256" if "i < 4" for i :: nat
  proof -
    have "(256 :: int) ^ i = 2 ^ (8 * i)" by (simp add: power_mult)
    then have "(x div 256 ^ i) mod 256 = take_bit 8 (drop_bit (8 * i) x)" for x :: int
      by (simp add: take_bit_eq_mod drop_bit_eq_div)
    moreover have "take_bit 8 (drop_bit (8 * i) (take_bit 32 sig)) = take_bit 8 (drop_bit (8 * i) sig)"
      using that by (simp add: drop_bit_take_bit)
    ultimately show ?thesis by (simp add: take_bit_eq_mod)
  qed
  then have "int_bytes sig = map (\<lambda>i. ((sig mod 2 ^ 32) div 256 ^ i) mod 256) [0..<4]"
    by (simp add: int_bytes_def)
  then have u: "foldr (\<lambda>b v. b + 256 * v) (int_bytes sig) 0 = sig mod 2 ^ 32"
    using bytes_of_int [of "sig mod 2 ^ 32"] by simp
  show ?thesis
  proof (cases "0 \<le> sig")
    case True
    then have "sig mod 2 ^ 32 = sig" using assms by (simp add: in_i32_iff)
    with assms show ?thesis by (simp add: bytes_int_def u Let_def in_i32_iff)
  next
    case False
    have "sig mod 2 ^ 32 = (sig + 2 ^ 32) mod 2 ^ 32" by simp
    also have "\<dots> = sig + 2 ^ 32" using False assms by (intro mod_pos_pos_trivial) (simp_all add: in_i32_iff)
    finally show ?thesis using False assms by (simp add: bytes_int_def u Let_def in_i32_iff)
  qed
qed

lemma length_int_bytes [simp]: "length (int_bytes sig) = 4"
  by (simp add: int_bytes_def)

text \<open>
  Signals arrive in order and unchanged, and the end of the file is taken for signal 0.
  When the pipe holds the bytes of \<open>Signal(sig)\<close> first, \<open>Wait\<close> returns \<open>sig\<close>, for every
  \<open>int\<close>; when \<open>read\<close> delivers nothing, because the writer is gone or the call failed,
  \<open>Wait\<close> returns 0, the code of a pull request.
\<close>

lemma Wait_after_Signal:
  assumes "in_i32 sig"
  shows "Fifo_Wait (take 4 (Fifo_Signal sig [] @ later)) = sig \<and> Fifo_Wait [] = 0"
  using bytes_int_int_bytes [OF assms] bytes_int_int_bytes [of 0]
  by (simp add: Fifo_Wait_def Fifo_Signal_def in_i32_iff)

end
