(* ===== verification/Agent.thy ===== *)
theory Agent
  imports Messages Communicator Agent_Partition Channel
begin

text \<open>
  The agent (\<open>src/agent/agent.h\<close>, \<open>src/agent/agent.cc\<close>), which stands between a worker
  and the servers. Its state is a record with the fields of the class; the shared memories hold
  the \<open>shmstruct\<close> that the worker reads and writes. A handler returns the new state and the
  messages it hands to \<open>sender_->Send\<close>; messages that arrive are an argument. The loop that
  cuts sorted keys into blocks is \<open>block_loop\<close>, a partial function: \<open>None\<close> is a loop that
  does not end. In \<open>Pull\<close>, \<open>None\<close> also stands for still waiting when the messages at hand
  are used up. Console output is left out. The agent has two threads, the loop on the signals of the
  worker and the heartbeat thread, which share \<open>reconfig_msg_\<close> under a mutex and the sender; a run is a
  sequence of events of both, each a turn of its thread. A heartbeat that arrives during a turn of the
  loop is one before or after it: the loop looks at \<open>reconfig_msg_\<close> only at the start of a turn.
\<close>

record 'v agent =
  ag_local_id :: int
  ag_local_ip :: string
  ag_listen_port :: int
  ag_agent_num :: int
  ag_server_num :: int
  ag_key_range :: int
  ag_epoch_num :: int
  ag_server_ids :: "int list"
  ag_master_ids :: "int list"
  ag_sender :: zmq_communicator
  ag_para_fifo :: Fifo
  ag_grad_fifo :: Fifo
  ag_para_memory :: "'v shmstruct"
  ag_grad_memory :: "'v shmstruct"
  ag_gradients :: "'v shmstruct"
  ag_parameters :: "'v shmstruct"
  ag_partition :: Partition
  ag_reconfig_msg :: "'v Message option"

section \<open>Sorting by key\<close>

text \<open>The map from each key to the first position at which it stands.\<close>

definition key_positions :: "int list \<Rightarrow> int \<Rightarrow> (int \<times> int) list res" where
  "key_positions keys n =
     fold_res (\<lambda>i m. bind_res (vec_get keys i) (\<lambda>k. Inr (omap_insert k i m))) [0..n - 1] []"

definition SortKeyValue :: "int list \<Rightarrow> 'v list \<Rightarrow> int \<Rightarrow> (int list \<times> 'v list) res" where
  "SortKeyValue keys vals n =
     (if n < 0 then Inl LengthError
      else
        bind_res (map_res (vec_get vals) [0..n - 1]) (\<lambda>tmp_values.
        bind_res (key_positions keys n) (\<lambda>key_map.
        bind_res (fold_res (\<lambda>item x. case item of (k, i) \<Rightarrow> (case x of (sz, ks, vs) \<Rightarrow>
            bind_res (vec_set ks sz k) (\<lambda>ks'.
            bind_res (vec_get tmp_values i) (\<lambda>v.
            bind_res (vec_set vs sz v) (\<lambda>vs'. Inr (sz + 1, ks', vs'))))))
          key_map (0, keys, vals)) (\<lambda>(sz, ks, vs). Inr (ks, vs)))))"

section \<open>Cutting the keys into blocks\<close>

text \<open>
  The loop of \<open>Push\<close> and \<open>Pull\<close>: \<open>next_end start\<close> gives the end of the block and its
  server, \<open>body\<close> what is sent for it; the messages are collected in order.
\<close>

partial_function (option) block_loop ::
    "(int \<Rightarrow> (int \<times> int) res) \<Rightarrow> (int \<Rightarrow> int \<Rightarrow> int \<Rightarrow> 'b res) \<Rightarrow> int \<Rightarrow> int \<Rightarrow> 'b list res option"
  where
  "block_loop next_end body n start =
     (if start < n then
        (case bind_res (next_end start) (\<lambda>(e, sid). bind_res (body start e sid) (\<lambda>b. Inr (e, b))) of
           Inl f \<Rightarrow> Some (Inl f)
         | Inr x \<Rightarrow> Option.bind (block_loop next_end body n (fst x))
             (\<lambda>r. Some (bind_res r (\<lambda>bs. Inr (snd x # bs)))))
      else Some (Inr []))"

declare block_loop.simps [code]

text \<open>\<open>std::vector<int>(keys, keys + size)\<close>\<close>

definition key_vector :: "'v shmstruct \<Rightarrow> int list res" where
  "key_vector d = (if shm_size d < 0 then Inl LengthError
     else map_res (vec_get (shm_keys d)) [0..shm_size d - 1])"

definition next_block :: "'v shmstruct \<Rightarrow> Partition \<Rightarrow> int \<Rightarrow> (int \<times> int) res" where
  "next_block d p start = bind_res (key_vector d) (\<lambda>ks. NextEnding p ks start)"

section \<open>Push\<close>

text \<open>The request for the block \<open>[start, end)\<close> of the gradients.\<close>

definition push_block :: "'v agent \<Rightarrow> int \<Rightarrow> int \<Rightarrow> int \<Rightarrow> (int \<times> 'v Message) res" where
  "push_block ag start e sid =
     bind_res (vec_get (ag_server_ids ag) sid) (\<lambda>server_id.
     bind_res (map_res (vec_get (shm_keys (ag_gradients ag))) [start..e - 1]) (\<lambda>ks.
     bind_res (map_res (vec_get (shm_values (ag_gradients ag))) [start..e - 1]) (\<lambda>vs.
       Inr (server_id, new_Message\<lparr>message_type := Message_MessageType_request,
         send_id := ag_local_id ag, recv_id := server_id,
         request_msg := Some \<lparr> request_type = RequestType_key_value, rq_keys = ks,
           rq_values = vs \<rparr>\<rparr>))))"

definition Push :: "'v agent \<Rightarrow> ('v agent \<times> 'v outgoing) res option" where
  "Push ag =
     (case SortKeyValue (shm_keys (ag_gradients ag)) (shm_values (ag_gradients ag))
         (shm_size (ag_gradients ag)) of
        Inl f \<Rightarrow> Some (Inl f)
      | Inr (ks, vs) \<Rightarrow>
          let ag1 = ag\<lparr>ag_gradients := (ag_gradients ag)\<lparr>shm_keys := ks, shm_values := vs\<rparr>\<rparr> in
          Option.bind
            (block_loop (next_block (ag_gradients ag1) (ag_partition ag1)) (push_block ag1)
              (shm_size (ag_gradients ag1)) 0)
            (\<lambda>r. Some (bind_res r (\<lambda>out. Inr (ag1, out)))))"

section \<open>Pull\<close>

text \<open>\<open>std::sort(keys, keys + size)\<close>\<close>

definition sort_prefix :: "int list \<Rightarrow> int \<Rightarrow> int list res" where
  "sort_prefix keys n = (if n < 0 \<or> int (length keys) < n then Inl OutOfBounds
     else Inr (sort (take (nat n) keys) @ drop (nat n) keys))"

definition pull_block :: "'v agent \<Rightarrow> int \<Rightarrow> int \<Rightarrow> int \<Rightarrow> (int \<times> 'v Message) res" where
  "pull_block ag start e sid =
     bind_res (vec_get (ag_server_ids ag) sid) (\<lambda>server_id.
     bind_res (map_res (vec_get (shm_keys (ag_parameters ag))) [start..e - 1]) (\<lambda>ks.
       Inr (server_id, new_Message\<lparr>message_type := Message_MessageType_request,
         send_id := ag_local_id ag, recv_id := server_id,
         request_msg := Some \<lparr> request_type = RequestType_key, rq_keys = ks, rq_values = [] \<rparr>\<rparr>)))"

text \<open>The messages that \<open>Pull\<close> accepts; every other one is ignored.\<close>

definition accepts :: "int \<Rightarrow> int set \<Rightarrow> 'v Message \<Rightarrow> bool" where
  "accepts lid server_set m \<longleftrightarrow> message_type m = Message_MessageType_request \<and>
     request_msg m \<noteq> None \<and> send_id m \<in> server_set \<and> recv_id m = lid \<and>
     request_type (the_request_msg m) = RequestType_key_value"

text \<open>Copy the pairs of a reply behind the first \<open>cur\<close> ones.\<close>

definition store_reply :: "'v RequestMessage \<Rightarrow> int \<Rightarrow> 'v shmstruct \<Rightarrow> 'v shmstruct res" where
  "store_reply r cur d =
     fold_res (\<lambda>i d.
       bind_res (vec_get (rq_keys r) i) (\<lambda>k.
       bind_res (i32 (cur + i)) (\<lambda>p.
       bind_res (vec_set (shm_keys d) p k) (\<lambda>ks.
       bind_res (vec_get (rq_values r) i) (\<lambda>v.
       bind_res (vec_set (shm_values d) p v) (\<lambda>vs.
         Inr (d\<lparr>shm_keys := ks, shm_values := vs\<rparr>)))))))
     [0..int (length (rq_keys r)) - 1] d"

text \<open>
  The receiving loop, on what successive calls of \<open>Receive\<close> deliver: \<open>None\<close> is a call that
  returned -1. The result is the number of pairs stored, the parameters, and the messages left.
\<close>

fun receive_loop :: "int \<Rightarrow> 'v Message option list \<Rightarrow> int set \<Rightarrow> int \<Rightarrow> 'v shmstruct \<Rightarrow>
    (int \<times> 'v shmstruct \<times> 'v Message option list) res option" where
  "receive_loop lid [] server_set cur d =
     (if server_set = {} then Some (Inr (cur, d, [])) else None)"
| "receive_loop lid (x # xs) server_set cur d =
     (if server_set = {} then Some (Inr (cur, d, x # xs))
      else case x of
        None \<Rightarrow> receive_loop lid xs server_set cur d
      | Some m \<Rightarrow>
          if \<not> accepts lid server_set m then receive_loop lid xs server_set cur d
          else
            (case bind_res (store_reply (the_request_msg m) cur d) (\<lambda>d'.
                bind_res (i32 (cur + int (length (rq_keys (the_request_msg m))))) (\<lambda>cur'.
                  Inr (cur', d'))) of
               Inl f \<Rightarrow> Some (Inl f)
             | Inr (cur', d') \<Rightarrow> receive_loop lid xs (server_set - {send_id m}) cur' d'))"

definition Pull :: "'v Message option list \<Rightarrow> 'v agent \<Rightarrow>
    ('v agent \<times> 'v outgoing \<times> 'v Message option list) res option" where
  "Pull incoming ag =
     (case sort_prefix (shm_keys (ag_parameters ag)) (shm_size (ag_parameters ag)) of
        Inl f \<Rightarrow> Some (Inl f)
      | Inr ks \<Rightarrow>
          let ag1 = ag\<lparr>ag_parameters := (ag_parameters ag)\<lparr>shm_keys := ks\<rparr>\<rparr> in
          Option.bind
            (block_loop (next_block (ag_parameters ag1) (ag_partition ag1)) (pull_block ag1)
              (shm_size (ag_parameters ag1)) 0)
            (\<lambda>r. case r of
               Inl f \<Rightarrow> Some (Inl f)
             | Inr out \<Rightarrow>
                 Option.bind
                   (receive_loop (ag_local_id ag1) incoming (set (map fst out)) 0
                     ((ag_parameters ag1)\<lparr>shm_size := 0\<rparr>))
                   (\<lambda>r. Some (bind_res r (\<lambda>(cur, d, rest).
                     Inr (ag1\<lparr>ag_parameters := d\<lparr>shm_size := cur\<rparr>\<rparr>, out, rest))))))"

section \<open>Configuration\<close>

text \<open>\<open>ExtractSubrange(0, n, dst)\<close> of a repeated field, into an array of \<open>n\<close> elements.\<close>

definition ExtractSubrange :: "int list \<Rightarrow> int \<Rightarrow> int list res" where
  "ExtractSubrange xs n = (if n < 0 \<or> int (length xs) < n then Inl OutOfBounds else Inr (take (nat n) xs))"

text \<open>
  \<open>Initialize\<close>: \<open>ip\<close> is what \<open>GetIP\<close> found, \<open>received\<close> the message parsed from
  \<open>receiver_->Receive\<close>, \<open>None\<close> when that returned -1, and \<open>objects\<close> the shared memory
  objects of the system; \<open>zero\<close> is the value of zeroed memory.
\<close>

definition Agent_Initialize ::
    "string \<Rightarrow> 'v \<Rightarrow> (string \<rightharpoonup> 'v shmstruct) \<Rightarrow> 'v Message option \<Rightarrow>
     string \<Rightarrow> string \<Rightarrow> string \<Rightarrow> string \<Rightarrow> string \<Rightarrow> int \<Rightarrow> 'v agent \<Rightarrow>
     (bool \<times> 'v agent \<times> 'v outgoing) res" where
  "Agent_Initialize ip zero objects received para_fifo_name grad_fifo_name para_memory_name
     grad_memory_name master_addr listen_port ag =
     (let ag1 = ag\<lparr>ag_listen_port := listen_port\<rparr> in
      if ip = [] then Inr (False, ag1, [])
      else
        let ag2 = ag1\<lparr>ag_local_ip := ip, ag_sender := snd (AddIdAddr 0 master_addr (ag_sender ag1))\<rparr>;
            reg = new_Message\<lparr>message_type := Message_MessageType_register, recv_id := 0,
              send_id := -1,
              register_msg := Some \<lparr> rg_ip = ip, rg_port = listen_port, rg_is_server = False \<rparr>\<rparr> in
        case received of
          None \<Rightarrow> Inr (False, ag2, [(0, reg)])
        | Some m \<Rightarrow>
            let cfg = the_config_msg m;
                ag3 = ag2\<lparr>ag_local_id := recv_id m, ag_agent_num := cf_worker_num cfg,
                  ag_server_num := cf_server_num cfg, ag_key_range := cf_key_range cfg,
                  ag_server_ids := []\<rparr>;
                objects1 = SharedMemory_Initialize zero grad_memory_name
                  (SharedMemory_Initialize zero para_memory_name objects) in
            bind_res (fold_res (\<lambda>i ag.
                bind_res (vec_get (cf_server_id cfg) i) (\<lambda>sid.
                bind_res (vec_get (cf_node_ip_port cfg) sid) (\<lambda>addr.
                  Inr (ag\<lparr>ag_server_ids := ag_server_ids ag @ [sid],
                          ag_sender := snd (AddIdAddr sid addr (ag_sender ag))\<rparr>))))
              [0..ag_server_num ag3 - 1] ag3) (\<lambda>ag4.
            bind_res (ExtractSubrange (cf_partition cfg) (ag_server_num ag4)) (\<lambda>pv.
            bind_res (Partition_Initialize_array (ag_key_range ag4) (ag_server_num ag4) pv
                (ag_partition ag4)) (\<lambda>p.
              Inr (True, ag4\<lparr>ag_partition := p, ag_master_ids := ag_master_ids ag4 @ cf_master_id cfg,
                ag_para_fifo := Fifo_Initialize para_fifo_name False (ag_para_fifo ag4),
                ag_grad_fifo := Fifo_Initialize grad_fifo_name True (ag_grad_fifo ag4),
                ag_para_memory := the (objects1 para_memory_name),
                ag_grad_memory := the (objects1 grad_memory_name),
                ag_epoch_num := 0, ag_reconfig_msg := None\<rparr>, [(0, reg)])))))"

text \<open>The reconfiguration between two signals of the worker, on the stored message.\<close>

definition Reconfigurate :: "(socket \<Rightarrow> int) \<Rightarrow> 'v Message \<Rightarrow> 'v agent \<Rightarrow> 'v agent res" where
  "Reconfigurate zmq_close m ag =
     (let cfg = the_config_msg m in
      bind_res (map_res (vec_get (cf_server_id cfg)) [0..cf_server_num cfg - 1]) (\<lambda>sids.
      bind_res (i32 (cf_server_num cfg + 1)) (\<lambda>n1.
      bind_res (ExtractSubrange (cf_partition cfg) n1) (\<lambda>pv.
      bind_res (Partition_Initialize_array (cf_key_range cfg) (cf_server_num cfg) pv
          (Partition_Finalize (ag_partition ag))) (\<lambda>p.
        Inr (ag\<lparr>ag_local_id := recv_id m, ag_agent_num := cf_worker_num cfg,
          ag_server_num := cf_server_num cfg, ag_key_range := cf_key_range cfg,
          ag_server_ids := sids, ag_master_ids := cf_master_id cfg,
          ag_sender := refresh_addrs zmq_close (cf_node_ip_port cfg) (ag_sender ag),
          ag_partition := p, ag_epoch_num := 0, ag_reconfig_msg := None\<rparr>))))))"

definition Agent_Finalize :: "'v agent \<Rightarrow> 'v agent" where
  "Agent_Finalize ag = ag\<lparr>ag_partition := Partition_Finalize (ag_partition ag)\<rparr>"

section \<open>The main loop and the heartbeat thread\<close>

definition terminate_message :: "int \<Rightarrow> 'v Message" where
  "terminate_message lid = new_Message\<lparr>message_type := Message_MessageType_terminate,
     send_id := lid, recv_id := 0\<rparr>"

text \<open>
  One turn of \<open>AgentWork\<close>, after \<open>Wait\<close> returned \<open>signal_type\<close>; the gradient memory is
  what the worker left there, and \<open>incoming\<close> is what the receiver delivers. The flag tells whether
  the loop goes on; then come the signals written to the worker and the messages not yet received.
\<close>

definition AgentWork_turn ::
    "(socket \<Rightarrow> int) \<Rightarrow> int \<Rightarrow> 'v Message option list \<Rightarrow> 'v agent \<Rightarrow>
     (bool \<times> 'v agent \<times> 'v outgoing \<times> int list \<times> 'v Message option list) res option" where
  "AgentWork_turn zmq_close signal_type incoming ag =
     (case (case ag_reconfig_msg ag of None \<Rightarrow> Inr ag | Some m \<Rightarrow> Reconfigurate zmq_close m ag) of
        Inl f \<Rightarrow> Some (Inl f)
      | Inr ag1 \<Rightarrow>
          if signal_type = 0 then
            Option.bind (Pull incoming
                (ag1\<lparr>ag_parameters := SharedMemory_Read (ag_grad_memory ag1)\<rparr>)) (\<lambda>r.
              Some (bind_res r (\<lambda>(ag2, out, rest).
                Inr (True, ag2\<lparr>ag_para_memory :=
                  SharedMemory_Write (ag_parameters ag2) (ag_para_memory ag2)\<rparr>, out, [2], rest))))
          else if signal_type = 1 then
            Option.bind (Push (ag1\<lparr>ag_gradients := SharedMemory_Read (ag_grad_memory ag1)\<rparr>)) (\<lambda>r.
              Some (bind_res r (\<lambda>(ag2, out).
                bind_res (i32 (ag_epoch_num ag2 + 1)) (\<lambda>e.
                  Inr (True, ag2\<lparr>ag_epoch_num := e\<rparr>, out, [], incoming)))))
          else Some (Inr (False, ag1, [(0, terminate_message (ag_local_id ag1))], [], incoming)))"

text \<open>
  One turn of the loop of \<open>HeartBeat\<close>, on what \<open>Receive\<close> delivered; \<open>local_id\<close> was read when the
  thread started. The assignment to \<open>reconfig_msg_\<close> is protected by \<open>reconfig_mutex_\<close>, as is its use
  in \<open>AgentWork\<close>.
\<close>

definition Agent_HeartBeat_turn :: "int \<Rightarrow> 'v Message \<Rightarrow> 'v agent \<Rightarrow> 'v agent \<times> 'v outgoing" where
  "Agent_HeartBeat_turn lid recv_msg ag =
     (let ag1 = (if config_msg recv_msg \<noteq> None then ag\<lparr>ag_reconfig_msg := Some recv_msg\<rparr> else ag) in
      (ag1, [(0, new_Message\<lparr>message_type := Message_MessageType_heartbeat, send_id := lid,
         recv_id := send_id recv_msg,
         heartbeat_msg := Some \<lparr> hb_is_live = True, hb_agent_epoch_num = ag_epoch_num ag1 \<rparr>\<rparr>)]))"

text \<open>
  What happens to an agent, in order: a signal of the worker, with the contents of the gradient
  memory at that moment and the messages that arrive for the agent before the next event, or a
  heartbeat of the master, which the other thread handles.
\<close>

datatype 'v agent_event =
    Worker_signal int "'v shmstruct" "'v Message option list"
  | Master_heartbeat "'v Message"

text \<open>The heartbeat thread goes on while the main thread sleeps after the end of its loop.\<close>

fun heartbeats_only :: "int \<Rightarrow> 'v agent_event list \<Rightarrow> 'v agent \<Rightarrow> 'v agent \<times> 'v outgoing" where
  "heartbeats_only lid [] ag = (ag, [])"
| "heartbeats_only lid (Worker_signal signal_type grad_memory arrived # es) ag = heartbeats_only lid es ag"
| "heartbeats_only lid (Master_heartbeat m # es) ag =
     (let (ag1, out1) = Agent_HeartBeat_turn lid m ag; (ag2, out2) = heartbeats_only lid es ag1 in
      (ag2, out1 @ out2))"

text \<open>
  The loop on the signals of the worker, with the turns of the heartbeat thread between its turns;
  \<open>lid\<close> is the identifier that thread uses, and \<open>pending\<close> holds what has arrived for the main thread
  and was not received yet. The flag tells whether the loop has ended.
\<close>

fun AgentWork ::
    "(socket \<Rightarrow> int) \<Rightarrow> int \<Rightarrow> 'v Message option list \<Rightarrow> 'v agent_event list \<Rightarrow>
     'v agent \<Rightarrow> (bool \<times> 'v agent \<times> 'v outgoing \<times> int list) res option" where
  "AgentWork zmq_close lid pending [] ag = Some (Inr (False, ag, [], []))"
| "AgentWork zmq_close lid pending (Master_heartbeat m # es) ag =
     (let (ag1, out) = Agent_HeartBeat_turn lid m ag in
      Option.bind (AgentWork zmq_close lid pending es ag1) (\<lambda>r.
        Some (bind_res r (\<lambda>(ended, ag2, out2, sigs2). Inr (ended, ag2, out @ out2, sigs2)))))"
| "AgentWork zmq_close lid pending (Worker_signal signal_type grad_memory arrived # es) ag =
     Option.bind (AgentWork_turn zmq_close signal_type (pending @ arrived)
         (ag\<lparr>ag_grad_memory := grad_memory\<rparr>)) (\<lambda>r.
       case r of
         Inl f \<Rightarrow> Some (Inl f)
       | Inr (go_on, ag1, out, sigs, rest) \<Rightarrow>
           if \<not> go_on then
             (let (ag2, out2) = heartbeats_only lid es ag1 in Some (Inr (True, ag2, out @ out2, sigs)))
           else Option.bind (AgentWork zmq_close lid rest es ag1) (\<lambda>r.
             Some (bind_res r (\<lambda>(ended, ag2, out2, sigs2). Inr (ended, ag2, out @ out2, sigs @ sigs2)))))"

text \<open>
  \<open>Start\<close>: the heartbeat thread starts, the pipes are opened, and the agent works. The thread reads
  \<open>local_id_\<close> before it receives anything, so before any reconfiguration.
\<close>

definition Agent_Start ::
    "(string \<Rightarrow> bool \<Rightarrow> int) \<Rightarrow> (socket \<Rightarrow> int) \<Rightarrow> 'v agent_event list \<Rightarrow>
     'v agent \<Rightarrow> (bool \<times> 'v agent \<times> 'v outgoing \<times> int list) res option" where
  "Agent_Start os_open zmq_close es ag =
     AgentWork zmq_close (ag_local_id ag) [] es (ag\<lparr>ag_para_fifo := Fifo_Open os_open (ag_para_fifo ag),
       ag_grad_fifo := Fifo_Open os_open (ag_grad_fifo ag)\<rparr>)"

end
