(* ===== verification/Agent_Push.thy ===== *)
theory Agent_Push
  imports Agent "HOL-Library.Multiset"
begin

text \<open>
  Sorting and sending. \<open>SortKeyValue\<close> sorts the pairs by key when the keys are distinct; the
  loop over the blocks ends, and cuts the sorted keys into blocks that tile them, each for the
  server that owns its keys. The interface between the loop and \<open>Partition\<close> is the locale
  \<open>block_splitter\<close>.
\<close>

section \<open>The loop over the blocks\<close>

text \<open>A list of blocks \<open>(start, end, server)\<close> that tiles \<open>[a, b)\<close> without gap or overlap.\<close>

fun tiles :: "int \<Rightarrow> int \<Rightarrow> (int \<times> int \<times> int) list \<Rightarrow> bool" where
  "tiles a b [] = (a = b)"
| "tiles a b ((s, e, sid) # bs) = (s = a \<and> s < e \<and> tiles e b bs)"

lemma tiles_le: "tiles a b bs \<Longrightarrow> a \<le> b"
  by (induction a b bs rule: tiles.induct) auto

lemma tiles_mem: "tiles a b bs \<Longrightarrow> (s, e, sid) \<in> set bs \<Longrightarrow> a \<le> s \<and> s < e \<and> e \<le> b"
proof (induction a b bs rule: tiles.induct)
  case (2 a b s' e' sid' bs)
  then show ?case using tiles_le [of e' b bs] by auto
qed simp

text \<open>The elements of the blocks, put together, are the elements of the list.\<close>

lemma tiles_concat:
  assumes "tiles a b bs" "0 \<le> a" "b \<le> int (length xs)"
  shows "concat (map (\<lambda>(s, e, sid). take (nat (e - s)) (drop (nat s) xs)) bs) =
      take (nat (b - a)) (drop (nat a) xs)"
  using assms
proof (induction a b bs rule: tiles.induct)
  case (2 a b s e sid bs)
  then have b: "s = a" "a < e" "e \<le> b" using tiles_le [of e b bs] by auto
  have "nat (b - a) = nat (e - a) + nat (b - e)" using b by (simp flip: nat_add_distrib)
  moreover have "nat (e - a) + nat a = nat e" using b 2 by (simp flip: nat_add_distrib)
  ultimately have "take (nat (b - a)) (drop (nat a) xs) =
      take (nat (e - a)) (drop (nat a) xs) @ take (nat (b - e)) (drop (nat e) xs)"
    by (simp add: take_add)
  with 2 b show ?case by simp
qed simp

text \<open>
  What a client of the loop relies on: in a valid context, from every start a non-empty block
  inside the list is found, all of whose positions have the returned owner; and no later position
  has that owner, unless it is one whose positions may lie apart.
\<close>

locale block_splitter =
  fixes next_end :: "'c \<Rightarrow> int \<Rightarrow> (int \<times> int) res"
    and len :: "'c \<Rightarrow> int"
    and own :: "'c \<Rightarrow> int \<Rightarrow> int \<Rightarrow> bool"
    and apart :: "'c \<Rightarrow> int \<Rightarrow> bool"
    and valid :: "'c \<Rightarrow> bool"
  assumes next_end_block: "valid c \<Longrightarrow> 0 \<le> start \<Longrightarrow> start < len c \<Longrightarrow>
      returns (next_end c start) (\<lambda>(e, sid). start < e \<and> e \<le> len c \<and>
        (\<forall>j. start \<le> j \<and> j < e \<longrightarrow> own c sid j) \<and>
        (\<not> apart c sid \<longrightarrow> (\<forall>j. e \<le> j \<and> j < len c \<longrightarrow> \<not> own c sid j)))"
begin

definition owned :: "'c \<Rightarrow> (int \<times> int \<times> int) list \<Rightarrow> bool" where
  "owned c bs \<longleftrightarrow> (\<forall>(s, e, sid)\<in>set bs. \<forall>j. s \<le> j \<and> j < e \<longrightarrow> own c sid j)"

text \<open>Every block is what \<open>next_end\<close> finds at its start.\<close>

definition cut :: "'c \<Rightarrow> (int \<times> int \<times> int) list \<Rightarrow> bool" where
  "cut c bs \<longleftrightarrow> (\<forall>(s, e, sid)\<in>set bs. next_end c s = Inr (e, sid))"

text \<open>No two blocks have the same owner, unless it is one that lies apart.\<close>

definition separated :: "'c \<Rightarrow> (int \<times> int \<times> int) list \<Rightarrow> bool" where
  "separated c bs \<longleftrightarrow> sorted_wrt (\<lambda>(s, e, sid) (s', e', sid'). sid = sid' \<longrightarrow> apart c sid) bs"

lemma separated_Cons:
  assumes "\<forall>j. e \<le> j \<and> j < b \<longrightarrow> \<not> apart c sid \<longrightarrow> \<not> own c sid j"
    and "tiles e b bs" "owned c bs" "separated c bs"
  shows "separated c ((s, e, sid) # bs)"
proof -
  have "apart c sid" if "(s', e', sid) \<in> set bs" for s' e'
  proof -
    have "e \<le> s'" "s' < e'" "e' \<le> b" using tiles_mem [OF assms(2) that] by simp_all
    moreover from this have "own c sid s'" using assms(3) that by (auto simp: owned_def)
    ultimately show ?thesis using assms(1) by (meson less_le_trans)
  qed
  then show ?thesis using assms(4) by (auto simp: separated_def)
qed

lemma block_loop_tiles:
  assumes c: "valid c" and start: "0 \<le> start" "start \<le> len c"
    and body: "\<And>s e sid. 0 \<le> s \<Longrightarrow> s < e \<Longrightarrow> e \<le> len c \<Longrightarrow>
      (\<forall>j. s \<le> j \<and> j < e \<longrightarrow> own c sid j) \<Longrightarrow> body s e sid = Inr (g s e sid)"
  shows "\<exists>bs. block_loop (next_end c) body (len c) start = Some (Inr (map (\<lambda>(s, e, sid). g s e sid) bs)) \<and>
      tiles start (len c) bs \<and> owned c bs \<and> separated c bs \<and> cut c bs"
  using start
proof (induction "nat (len c - start)" arbitrary: start rule: less_induct)
  case less
  show ?case
  proof (cases "start < len c")
    case False
    then show ?thesis
      using less.prems by (intro exI [of _ "[]"]) (simp add: block_loop.simps owned_def separated_def cut_def)
  next
    case True
    from next_end_block [OF c less.prems(1) True] obtain e sid where
      next_end: "next_end c start = Inr (e, sid)" "start < e" "e \<le> len c"
      and own: "\<forall>j. start \<le> j \<and> j < e \<longrightarrow> own c sid j"
      and later: "\<forall>j. e \<le> j \<and> j < len c \<longrightarrow> \<not> apart c sid \<longrightarrow> \<not> own c sid j"
      by (auto simp: returns_iff)
    from less.hyps [of e] next_end less.prems obtain bs where
      rest: "block_loop (next_end c) body (len c) e = Some (Inr (map (\<lambda>(s, e, sid). g s e sid) bs))"
        "tiles e (len c) bs" "owned c bs" "separated c bs" "cut c bs"
      by auto
    have "body start e sid = Inr (g start e sid)" by (rule body) (use less.prems next_end own in auto)
    then have "block_loop (next_end c) body (len c) start =
        Some (Inr (map (\<lambda>(s, e, sid). g s e sid) ((start, e, sid) # bs)))"
      using True next_end(1) rest(1) by (simp add: block_loop.simps [of _ _ _ start])
    moreover have "tiles start (len c) ((start, e, sid) # bs)" using next_end rest(2) by simp
    moreover have "owned c ((start, e, sid) # bs)" using own rest(3) by (auto simp: owned_def)
    moreover have "separated c ((start, e, sid) # bs)" by (rule separated_Cons [OF later rest(2-4)])
    moreover have "cut c ((start, e, sid) # bs)" using next_end(1) rest(5) by (simp add: cut_def)
    ultimately show ?thesis by blast
  qed
qed

end

text \<open>The keys of a memory block are valid for a partition when they are sorted and in its range.\<close>

definition shm_prefix :: "'v shmstruct \<Rightarrow> int list" where
  "shm_prefix d = take (nat (shm_size d)) (shm_keys d)"

definition valid_block :: "'v shmstruct \<times> Partition \<Rightarrow> bool" where
  "valid_block c = (case c of (d, p) \<Rightarrow> wf_partition p \<and> wf_keys p (shm_prefix d) \<and>
     0 \<le> shm_size d \<and> shm_size d \<le> int (length (shm_keys d)))"

lemma key_vector_prefix:
  assumes "0 \<le> shm_size d" "shm_size d \<le> int (length (shm_keys d))"
  shows "key_vector d = Inr (shm_prefix d)" "int (length (shm_prefix d)) = shm_size d"
  using assms map_res_slice [of 0 "shm_size d" "shm_keys d"]
  by (simp_all add: key_vector_def shm_prefix_def)

interpretation blocks: block_splitter
  "\<lambda>c. next_block (fst c) (snd c)" "\<lambda>c. shm_size (fst c)"
  "\<lambda>c sid j. owns (snd c) sid (shm_keys (fst c) ! nat j)"
  "\<lambda>c sid. sid = int (length (part_vec (snd c))) - 1" valid_block
proof
  fix c :: "'v shmstruct \<times> Partition" and start
  assume c: "valid_block c" and start: "0 \<le> start" "start < shm_size (fst c)"
  obtain d p where dp: "c = (d, p)" by force
  from c have wf: "wf_partition p" "wf_keys p (shm_prefix d)"
    and sz: "0 \<le> shm_size d" "shm_size d \<le> int (length (shm_keys d))"
    by (simp_all add: valid_block_def dp)
  note kv = key_vector_prefix [OF sz]
  have "start < int (length (shm_prefix d))" using start kv(2) by (simp add: dp)
  from NextEnding_block_end [OF wf start(1) this]
  show "returns (next_block (fst c) (snd c) start) (\<lambda>(e, sid). start < e \<and> e \<le> shm_size (fst c) \<and>
      (\<forall>j. start \<le> j \<and> j < e \<longrightarrow> owns (snd c) sid (shm_keys (fst c) ! nat j)) \<and>
      (sid \<noteq> int (length (part_vec (snd c))) - 1 \<longrightarrow>
        (\<forall>j. e \<le> j \<and> j < shm_size (fst c) \<longrightarrow> \<not> owns (snd c) sid (shm_keys (fst c) ! nat j))))"
  proof (simp add: next_block_def dp kv(1), elim returns_mono)
    fix x assume x: "block_end p (shm_prefix d) start x"
    obtain e sid where es: "x = (e, sid)" by force
    have nth: "shm_prefix d ! nat j = shm_keys d ! nat j" if "j < shm_size d" "0 \<le> j" for j
      using that by (simp add: shm_prefix_def)
    have "start < e" "e \<le> shm_size d" "\<forall>j. start \<le> j \<and> j < e \<longrightarrow> owns p sid (shm_keys d ! nat j)"
      using x kv(2) start(1) nth by (auto simp: es block_end_def)
    moreover from this have "\<not> owns p sid (shm_keys d ! nat j)"
      if "sid \<noteq> int (length (part_vec p)) - 1" "e \<le> j" "j < shm_size d" for j
      using block_end_separates [OF wf start(1) x [unfolded es] that(1,2)] that kv(2) nth [of j] start(1) by simp
    ultimately show "case x of (e, sid) \<Rightarrow> start < e \<and> e \<le> shm_size d \<and>
        (\<forall>j. start \<le> j \<and> j < e \<longrightarrow> owns p sid (shm_keys d ! nat j)) \<and>
        (sid \<noteq> int (length (part_vec p)) - 1 \<longrightarrow>
          (\<forall>j. e \<le> j \<and> j < shm_size d \<longrightarrow> \<not> owns p sid (shm_keys d ! nat j)))"
      by (simp add: es)
  qed
qed

section \<open>SortKeyValue\<close>

text \<open>The pairs of key and position, as the ordered map holds them after \<open>n\<close> insertions.\<close>

definition position_map :: "int list \<Rightarrow> (int \<times> int) list" where
  "position_map keys = fold (\<lambda>i m. omap_insert (keys ! i) (int i) m) [0..<length keys] []"

lemma fold_omap_sorted:
  "sorted_wrt (<) (map fst m) \<Longrightarrow>
   sorted_wrt (<) (map fst (fold (\<lambda>i m. omap_insert (f i) (g i) m) is m))"
  by (induction "is" arbitrary: m) (simp_all add: sorted_omap_insert)

lemma fold_omap_distinct:
  assumes "distinct (map f is)" "\<forall>i\<in>set is. f i \<notin> fst ` set m"
  shows "set (fold (\<lambda>i m. omap_insert (f i) (g i) m) is m) = set m \<union> (\<lambda>i. (f i, g i)) ` set is \<and>
      length (fold (\<lambda>i m. omap_insert (f i) (g i) m) is m) = length m + length is"
  using assms
proof (induction "is" arbitrary: m)
  case (Cons i "is")
  have new: "f i \<notin> fst ` set m" using Cons.prems by simp
  have "\<forall>j\<in>set is. f j \<notin> fst ` set (omap_insert (f i) (g i) m)"
    using Cons.prems by (auto simp: keys_omap_insert dest: image_eqI [OF sym])
  with Cons.IH [of "omap_insert (f i) (g i) m"] Cons.prems(1)
  show ?case by (simp add: set_omap_insert_new [OF new] length_omap_insert_new [OF new])
qed simp

lemma fold_omap_length: "length (fold (\<lambda>i m. omap_insert (f i) (g i) m) is m) \<le> length m + length is"
proof (induction "is" arbitrary: m)
  case (Cons i "is")
  from Cons [of "omap_insert (f i) (g i) m"] length_omap_insert_le [of "f i" "g i" m]
  show ?case by simp
qed simp

lemma fold_omap_subset:
  "set (fold (\<lambda>i m. omap_insert (f i) (g i) m) is m) \<subseteq> set m \<union> (\<lambda>i. (f i, g i)) ` set is"
proof (induction "is" arbitrary: m)
  case (Cons i "is")
  from Cons [of "omap_insert (f i) (g i) m"] set_omap_insert_subset [of "f i" "g i" m]
  show ?case by auto
qed simp

lemma position_map_mem:
  "(k, i) \<in> set (position_map keys) \<Longrightarrow> 0 \<le> i \<and> i < int (length keys) \<and> keys ! nat i = k"
  using fold_omap_subset [of "\<lambda>i. keys ! i" int "[0..<length keys]" "[]"]
  by (auto simp: position_map_def)

lemma position_map_distinct:
  assumes "distinct keys"
  shows "set (position_map keys) = (\<lambda>i. (keys ! i, int i)) ` {..<length keys}"
    and "length (position_map keys) = length keys"
proof -
  have "map (\<lambda>i. keys ! i) [0..<length keys] = keys" by (rule map_nth)
  then have "distinct (map (\<lambda>i. keys ! i) [0..<length keys])" using assms by (simp only:)
  from fold_omap_distinct [OF this, of "[]" int]
  show "set (position_map keys) = (\<lambda>i. (keys ! i, int i)) ` {..<length keys}"
    and "length (position_map keys) = length keys"
    by (auto simp: position_map_def atLeast0LessThan)
qed

lemma key_positions_map:
  assumes "0 \<le> n" "n \<le> int (length keys)"
  shows "key_positions keys n = Inr (position_map (take (nat n) keys))"
proof -
  let ?ks = "take (nat n) keys"
  have "fold_res (\<lambda>i m. bind_res (vec_get keys (int i)) (\<lambda>k. Inr (omap_insert k (int i) m)))
      [0..<nat n] [] = Inr (fold (\<lambda>i m. omap_insert (?ks ! i) (int i) m) [0..<nat n] [])"
    by (rule conjunct1, rule fold_res_pure [of "\<lambda>_. True"]) (use assms in \<open>simp_all add: nat_less_iff\<close>)
  moreover have "[0..n - 1] = map int [0..<nat n]" using upto_of_nat [of "nat n"] assms(1) by simp
  moreover have "length ?ks = nat n" using assms by simp
  ultimately show ?thesis by (simp add: key_positions_def position_map_def fold_res_map)
qed

text \<open>The arrays after the second loop: the map, then what stood there before.\<close>

lemma SortKeyValue_general:
  assumes "0 \<le> n" "n \<le> int (length keys)" "length vals = length keys"
  defines "m \<equiv> position_map (take (nat n) keys)"
  shows "SortKeyValue keys vals n = Inr (map fst m @ drop (length m) keys,
      map (\<lambda>x. vals ! nat (snd x)) m @ drop (length m) vals)"
proof -
  let ?tmp = "take (nat n) vals"
  have tmp: "map_res (vec_get vals) [0..n - 1] = Inr ?tmp"
    using map_res_slice [of 0 n vals] assms by simp
  have len: "length m \<le> nat n"
    using fold_omap_length [of "\<lambda>i. take (nat n) keys ! i" int "[0..<length (take (nat n) keys)]" "[]"] assms
    by (simp add: m_def position_map_def)
  let ?f = "\<lambda>item x. case item of (k, i) \<Rightarrow> (case x of (sz, ks, vs) \<Rightarrow>
      bind_res (vec_set ks sz k) (\<lambda>ks'. bind_res (vec_get ?tmp i) (\<lambda>v.
      bind_res (vec_set vs sz v) (\<lambda>vs'. Inr (sz + 1, ks', vs')))))"
  let ?h = "\<lambda>j. (int j, map fst (take j m) @ drop j keys,
      map (\<lambda>x. vals ! nat (snd x)) (take j m) @ drop j vals)"
  have "fold_res (\<lambda>j. ?f (m ! nat j)) [0..int (length m) - 1] (?h 0) = Inr (?h (length m))"
  proof (rule fold_res_count)
    fix j assume j: "j < length m"
    obtain k i where ki: "m ! j = (k, i)" by force
    then have "(k, i) \<in> set m" using j by (metis nth_mem)
    then have "(k, i) \<in> set (position_map (take (nat n) keys))" by (simp add: m_def)
    from position_map_mem [OF this] have i: "0 \<le> i" "i < int (length ?tmp)" using assms by auto
    then have get: "vec_get ?tmp i = Inr (vals ! nat i)" using assms by (simp add: nat_less_iff)
    have jk: "j < length keys" "j < length vals" using j len assms by auto
    have "vec_set (map fst (take j m) @ drop j keys) (int j) k =
        Inr (map fst (take (Suc j) m) @ drop (Suc j) keys)"
      using j jk ki by (simp add: update_mid nth_take_Suc)
    moreover have "vec_set (map (\<lambda>x. vals ! nat (snd x)) (take j m) @ drop j vals) (int j) (vals ! nat i) =
        Inr (map (\<lambda>x. vals ! nat (snd x)) (take (Suc j) m) @ drop (Suc j) vals)"
      using j jk ki by (simp add: update_mid nth_take_Suc)
    ultimately show "?f (m ! nat (int j)) (?h j) = Inr (?h (Suc j))"
      using ki get by (simp del: vec_set_of_nat)
  qed
  moreover have "fold_res (\<lambda>j. ?f (m ! nat j)) [0..int (length m) - 1] (?h 0) = fold_res ?f m (?h 0)"
    by (rule fold_res_nth) simp
  ultimately have "fold_res ?f m (0, keys, vals) = Inr (?h (length m))" by simp
  then show ?thesis
    using assms(1) tmp key_positions_map [OF assms(1,2)] by (simp add: SortKeyValue_def m_def)
qed

lemma position_map_sorted: "sorted_wrt (<) (map fst (position_map keys))"
  unfolding position_map_def by (rule fold_omap_sorted) simp

lemma position_map_pairs:
  assumes "distinct keys" "length vals = length keys"
  shows "mset (map (\<lambda>x. (fst x, vals ! nat (snd x))) (position_map keys)) = mset (zip keys vals)"
proof -
  let ?m = "position_map keys"
  let ?xs = "map (\<lambda>x. (fst x, vals ! nat (snd x))) ?m"
  have "map fst ?xs = map fst ?m" by (simp add: comp_def)
  moreover have "distinct (map fst ?m)"
    using position_map_sorted [of keys] by (simp add: strict_sorted_iff)
  ultimately have "distinct ?xs" by (metis distinct_map)
  moreover have "distinct (zip keys vals)" using assms(1) by (rule distinct_zipI1)
  moreover have "set ?xs = set (zip keys vals)"
    using assms(2) by (auto simp: position_map_distinct(1) [OF assms(1)] set_zip image_image)
  ultimately show ?thesis using set_eq_iff_mset_eq_distinct by blast
qed

text \<open>
  For distinct keys \<open>SortKeyValue\<close> sorts: the first \<open>n\<close> keys become strictly increasing, each
  value moves with its key, and the rest of both arrays is unchanged.
\<close>

lemma SortKeyValue_perm:
  assumes "0 \<le> n" "n \<le> int (length keys)" "length vals = length keys"
    and "distinct (take (nat n) keys)"
  shows "\<exists>ks vs. SortKeyValue keys vals n = Inr (ks, vs) \<and>
    length ks = length keys \<and> length vs = length vals \<and>
    sorted_wrt (<) (take (nat n) ks) \<and>
    mset (zip (take (nat n) ks) (take (nat n) vs)) =
      mset (zip (take (nat n) keys) (take (nat n) vals)) \<and>
    drop (nat n) ks = drop (nat n) keys \<and> drop (nat n) vs = drop (nat n) vals"
proof -
  let ?keys = "take (nat n) keys" and ?vals = "take (nat n) vals"
  let ?m = "position_map ?keys"
  have len: "length ?m = nat n" using position_map_distinct(2) [OF assms(4)] assms(1,2) by simp
  have "map (\<lambda>x. (fst x, vals ! nat (snd x))) ?m = map (\<lambda>x. (fst x, ?vals ! nat (snd x))) ?m"
    by (rule map_cong) (auto dest!: position_map_mem simp: nat_less_iff intro!: nth_take [symmetric])
  then have "mset (map (\<lambda>x. (fst x, vals ! nat (snd x))) ?m) =
      mset (map (\<lambda>x. (fst x, ?vals ! nat (snd x))) ?m)" by (rule arg_cong)
  also have "\<dots> = mset (zip ?keys ?vals)" by (rule position_map_pairs) (use assms in simp_all)
  finally have "mset (map (\<lambda>x. (fst x, vals ! nat (snd x))) ?m) = mset (zip ?keys ?vals)" .
  then have "mset (zip (map fst ?m) (map (\<lambda>x. vals ! nat (snd x)) ?m)) = mset (zip ?keys ?vals)"
    by (simp add: zip_map_map zip_same_conv_map comp_def)
  then show ?thesis
    using SortKeyValue_general [OF assms(1-3)] len position_map_sorted [of ?keys] assms(1-3)
    by (simp add: nat_le_iff)
qed

text \<open>
  Duplicate keys break the arrays. \<open>SortKeyValue\<close> drops all but the first pair of a
  key, but neither moves the rest up nor tells its caller, which goes on with the old size: of
  the pairs (5, 10), (5, 20), (3, 30) the value 20 is lost, the value 30 of key 3 stands there
  twice, and the keys are not sorted.
\<close>

lemma SortKeyValue_duplicates:
  "SortKeyValue [5, 5, 3] [10, 20, 30 :: int] 3 = Inr ([3, 5, 3], [30, 10, 30])"
  by code_simp

section \<open>Push\<close>

definition wf_agent :: "'v agent \<Rightarrow> bool" where
  "wf_agent ag \<longleftrightarrow> wf_partition (ag_partition ag) \<and>
     length (ag_server_ids ag) = length (part_vec (ag_partition ag))"

text \<open>What the worker may leave in the shared memory.\<close>

definition wf_request :: "'v agent \<Rightarrow> 'v shmstruct \<Rightarrow> bool" where
  "wf_request ag d \<longleftrightarrow> wf_shm d \<and> 0 \<le> shm_size d \<and> shm_size d \<le> 100 \<and>
     (\<forall>k\<in>set (shm_prefix d). 0 \<le> k \<and> k < part_key_range (ag_partition ag))"

definition shm_pairs :: "'v shmstruct \<Rightarrow> (int \<times> 'v) list" where
  "shm_pairs d = zip (shm_prefix d) (take (nat (shm_size d)) (shm_values d))"

definition slice :: "int \<Rightarrow> int \<Rightarrow> 'a list \<Rightarrow> 'a list" where
  "slice s e xs = take (nat (e - s)) (drop (nat s) xs)"

definition push_message :: "'v agent \<Rightarrow> int \<Rightarrow> int \<Rightarrow> int \<Rightarrow> int \<times> 'v Message" where
  "push_message ag s e sid =
     (ag_server_ids ag ! nat sid, new_Message\<lparr>message_type := Message_MessageType_request,
       send_id := ag_local_id ag, recv_id := ag_server_ids ag ! nat sid,
       request_msg := Some \<lparr> request_type = RequestType_key_value,
         rq_keys = slice s e (shm_keys (ag_gradients ag)),
         rq_values = slice s e (shm_values (ag_gradients ag)) \<rparr>\<rparr>)"

lemma owns_index: "owns p i k \<Longrightarrow> 0 \<le> i \<and> i < int (length (part_vec p))"
  by (simp add: owns_def Let_def)

lemma push_block_message:
  assumes "wf_agent ag" "0 \<le> s" "s < e" "e \<le> int (length (shm_keys (ag_gradients ag)))"
    and "length (shm_values (ag_gradients ag)) = length (shm_keys (ag_gradients ag))"
    and "owns (ag_partition ag) sid k"
  shows "push_block ag s e sid = Inr (push_message ag s e sid)"
  using assms owns_index [OF assms(6)]
  by (simp add: push_block_def push_message_def slice_def map_res_slice wf_agent_def)

lemma zip_slice: "zip (slice s e xs) (slice s e ys) = slice s e (zip xs ys)"
  by (simp add: slice_def take_zip drop_zip)

lemma set_slice:
  assumes "k \<in> set (slice s e xs)" "0 \<le> s" "e \<le> int (length xs)"
  shows "\<exists>j. s \<le> j \<and> j < e \<and> k = xs ! nat j"
proof -
  from assms(1) obtain i where i: "i < nat (e - s)" "k = drop (nat s) xs ! i" "i < length xs - nat s"
    by (auto simp: slice_def in_set_conv_nth)
  then have "k = xs ! nat (s + int i)" using assms(2) by (simp add: nat_add_distrib)
  with i(1) show ?thesis by (intro exI [of _ "s + int i"]) auto
qed

text \<open>
  A request that an agent sends for a block: it is not empty, names the agent as its sender, and
  goes to the server that owns all of its keys on the ring.
\<close>

definition routed :: "'v agent \<Rightarrow> RequestType \<Rightarrow> int \<times> 'v Message \<Rightarrow> bool" where
  "routed ag t x = (case x of (dst, m) \<Rightarrow> message_type m = Message_MessageType_request \<and>
     request_type (the_request_msg m) = t \<and> request_msg m \<noteq> None \<and>
     send_id m = ag_local_id ag \<and> recv_id m = dst \<and> rq_keys (the_request_msg m) \<noteq> [] \<and>
     (\<exists>i<length (ag_server_ids ag). dst = ag_server_ids ag ! i \<and>
       (\<forall>k\<in>set (rq_keys (the_request_msg m)). owns (ag_partition ag) (int i) k)))"

text \<open>The loop of \<open>Push\<close>, after the sorting.\<close>

lemma push_loop:
  assumes ag: "wf_agent ag" and c: "valid_block (ag_gradients ag, ag_partition ag)"
    and len: "length (shm_values (ag_gradients ag)) = length (shm_keys (ag_gradients ag))"
  shows "\<exists>bs. block_loop (next_block (ag_gradients ag) (ag_partition ag)) (push_block ag)
        (shm_size (ag_gradients ag)) 0 = Some (Inr (map (\<lambda>(s, e, sid). push_message ag s e sid) bs)) \<and>
      tiles 0 (shm_size (ag_gradients ag)) bs \<and>
      (\<forall>(s, e, sid)\<in>set bs. \<forall>k\<in>set (slice s e (shm_keys (ag_gradients ag))).
        owns (ag_partition ag) sid k) \<and>
      sorted_wrt (\<lambda>(s, e, sid) (s', e', sid'). sid = sid' \<longrightarrow>
        sid = int (length (part_vec (ag_partition ag))) - 1) bs"
proof -
  let ?d = "ag_gradients ag" and ?p = "ag_partition ag"
  let ?n = "shm_size ?d"
  have n: "0 \<le> ?n" "?n \<le> int (length (shm_keys ?d))" using c by (simp_all add: valid_block_def)
  have "push_block ag s e sid = Inr (push_message ag s e sid)"
    if "0 \<le> s" "s < e" "e \<le> ?n" "\<forall>j. s \<le> j \<and> j < e \<longrightarrow> owns ?p sid (shm_keys ?d ! nat j)" for s e sid
    using that n len by (intro push_block_message [OF ag, where k = "shm_keys ?d ! nat s"]) auto
  from blocks.block_loop_tiles [OF c, of 0 "push_block ag" "push_message ag"] this n(1)
  obtain bs where bs: "block_loop (next_block ?d ?p) (push_block ag) ?n 0 =
      Some (Inr (map (\<lambda>(s, e, sid). push_message ag s e sid) bs))"
      "tiles 0 ?n bs" "blocks.owned (?d, ?p) bs" "blocks.separated (?d, ?p) bs"
    by auto
  have "owns ?p sid k" if "(s, e, sid) \<in> set bs" "k \<in> set (slice s e (shm_keys ?d))" for s e sid k
  proof -
    have "0 \<le> s" "e \<le> ?n" using tiles_mem [OF bs(2) that(1)] by simp_all
    with set_slice [OF that(2)] n(2) obtain j where "s \<le> j" "j < e" "k = shm_keys ?d ! nat j" by auto
    with bs(3) that(1) show ?thesis by (auto simp: blocks.owned_def)
  qed
  with bs show ?thesis by (auto simp: blocks.separated_def)
qed

lemma slice_nonempty: "0 \<le> s \<Longrightarrow> s < e \<Longrightarrow> e \<le> int (length xs) \<Longrightarrow> slice s e xs \<noteq> []"
  by (auto simp: slice_def)

lemma length_slice: "length xs = length ys \<Longrightarrow> length (slice s e xs) = length (slice s e ys)"
  by (simp add: slice_def)

lemma set_zip_fst_eq:
  assumes "mset (zip xs ys) = mset (zip xs' ys')" "length xs = length ys" "length xs' = length ys'"
  shows "set xs = set xs'"
  using arg_cong [OF assms(1), of "\<lambda>M. fst ` set_mset M"] assms(2,3)
  by (simp flip: set_map)

text \<open>The requests of a list of blocks that tiles the memory and in which each server owns its keys.\<close>

lemma block_pairs:
  assumes "tiles 0 n bs" "n \<le> int (length (shm_keys (ag_gradients ag)))"
    and "length (shm_values (ag_gradients ag)) = length (shm_keys (ag_gradients ag))"
  shows "concat (map (\<lambda>(dst, m). request_pairs (the_request_msg m))
      (map (\<lambda>(s, e, sid). push_message ag s e sid) bs)) =
    take (nat n) (zip (shm_keys (ag_gradients ag)) (shm_values (ag_gradients ag)))"
proof -
  let ?z = "zip (shm_keys (ag_gradients ag)) (shm_values (ag_gradients ag))"
  have "map (\<lambda>(dst, m). request_pairs (the_request_msg m)) (map (\<lambda>(s, e, sid). push_message ag s e sid) bs) =
      map (\<lambda>(s, e, sid). take (nat (e - s)) (drop (nat s) ?z)) bs"
    by (simp add: push_message_def request_pairs_def zip_slice slice_def [symmetric] split_def comp_def)
  then have "concat (map (\<lambda>(dst, m). request_pairs (the_request_msg m))
        (map (\<lambda>(s, e, sid). push_message ag s e sid) bs)) =
      concat (map (\<lambda>(s, e, sid). take (nat (e - s)) (drop (nat s) ?z)) bs)"
    by (rule arg_cong)
  also have "\<dots> = take (nat n) ?z" using tiles_concat [OF assms(1), of ?z] assms(2,3) by simp
  finally show ?thesis .
qed

lemma push_message_routed:
  assumes "wf_agent ag" "wf_shm (ag_gradients ag)" "0 \<le> s" "s < e" "e \<le> 100"
    and "\<forall>k\<in>set (slice s e (shm_keys (ag_gradients ag))). owns (ag_partition ag) sid k"
  shows "routed ag RequestType_key_value (push_message ag s e sid) \<and>
    wf_push (the_request_msg (snd (push_message ag s e sid)))"
proof -
  let ?ks = "shm_keys (ag_gradients ag)" and ?vs = "shm_values (ag_gradients ag)"
  have len: "length ?ks = 100" "length ?vs = 100" using assms(2) by (simp_all add: wf_shm_def)
  have ne: "slice s e ?ks \<noteq> []" using assms(3-5) len by (intro slice_nonempty) auto
  then have "owns (ag_partition ag) sid (hd (slice s e ?ks))" using assms(6) by simp
  from owns_index [OF this] have sid: "0 \<le> sid" "nat sid < length (ag_server_ids ag)"
    using assms(1) by (auto simp: wf_agent_def)
  have "length (slice s e ?ks) \<le> length ?ks" by (simp add: slice_def)
  then have "in_i32 (int (length (slice s e ?ks)))" using len by (simp add: in_i32_iff)
  with ne assms(6) sid show ?thesis
    using length_slice [of ?vs ?ks s e] len
    by (auto simp: routed_def push_message_def wf_push_def intro!: exI [of _ "nat sid"])
qed

text \<open>The part of \<open>Push\<close> before it sends: the sorted memory is well-formed and holds the same pairs.\<close>

lemma sorted_gradients:
  assumes ag: "wf_agent ag" and req: "wf_request ag d" and dist: "distinct (shm_prefix d)"
  shows "\<exists>ks vs. SortKeyValue (shm_keys d) (shm_values d) (shm_size d) = Inr (ks, vs) \<and>
    length ks = 100 \<and> length vs = 100 \<and>
    valid_block (d\<lparr>shm_keys := ks, shm_values := vs\<rparr>, ag_partition ag) \<and>
    mset (take (nat (shm_size d)) (zip ks vs)) = mset (shm_pairs d)"
proof -
  let ?n = "shm_size d"
  have n: "0 \<le> ?n" "?n \<le> int (length (shm_keys d))" "length (shm_values d) = length (shm_keys d)"
      "length (shm_keys d) = 100"
    and range: "\<forall>k\<in>set (shm_prefix d). 0 \<le> k \<and> k < part_key_range (ag_partition ag)"
    using req by (simp_all add: wf_request_def wf_shm_def)
  from SortKeyValue_perm [OF n(1,2,3)] dist obtain ks vs where
    sorted: "SortKeyValue (shm_keys d) (shm_values d) ?n = Inr (ks, vs)"
      "length ks = 100" "length vs = 100" "sorted_wrt (<) (take (nat ?n) ks)"
      "mset (zip (take (nat ?n) ks) (take (nat ?n) vs)) = mset (shm_pairs d)"
    using n(3,4) by (auto simp: shm_pairs_def shm_prefix_def)
  let ?d1 = "d\<lparr>shm_keys := ks, shm_values := vs\<rparr>"
  have pre: "shm_prefix ?d1 = take (nat ?n) ks" by (simp add: shm_prefix_def)
  have "set (shm_prefix ?d1) = set (shm_prefix d)"
    unfolding pre by (rule set_zip_fst_eq [OF sorted(5) [unfolded shm_pairs_def]])
      (use sorted(2,3) n in \<open>simp_all add: shm_prefix_def\<close>)
  then have "valid_block (?d1, ag_partition ag)"
    using range sorted(2,4) n ag pre
    by (simp add: valid_block_def wf_keys_def wf_agent_def strict_sorted_iff)
  with sorted show ?thesis by (auto simp: take_zip)
qed

text \<open>Only the last server may get two requests of one push.\<close>

definition one_each :: "'v agent \<Rightarrow> 'v outgoing \<Rightarrow> bool" where
  "one_each ag out \<longleftrightarrow> sorted_wrt (\<lambda>x y. fst x = fst y \<longrightarrow> fst x = last (ag_server_ids ag)) out"

lemma push_messages_one_each:
  assumes "wf_agent ag" "distinct (ag_server_ids ag)"
    and own: "\<forall>(s, e, sid)\<in>set bs. \<exists>k. owns (ag_partition ag) sid k"
    and sep: "sorted_wrt (\<lambda>(s, e, sid) (s', e', sid'). sid = sid' \<longrightarrow>
        sid = int (length (part_vec (ag_partition ag))) - 1) bs"
  shows "one_each ag (map (\<lambda>(s, e, sid). push_message ag s e sid) bs)"
proof -
  let ?ids = "ag_server_ids ag"
  have n: "length (part_vec (ag_partition ag)) = length ?ids" "?ids \<noteq> []"
    using assms(1) by (auto simp: wf_agent_def wf_partition_def)
  have "nat (int (length ?ids) - 1) = length ?ids - 1" by linarith
  with n(2) have len: "last ?ids = ?ids ! nat (int (length ?ids) - 1)" by (simp add: last_conv_nth)
  have index: "0 \<le> sid" "nat sid < length ?ids" if "(s, e, sid) \<in> set bs" for s e sid
    using own that owns_index n(1) by fastforce+
  show ?thesis
    unfolding one_each_def sorted_wrt_map
    by (intro sorted_wrt_mono_rel [OF _ sep])
      (use assms(2) n(1) len in \<open>auto simp: push_message_def nth_eq_iff_index_eq index eq_nat_nat_iff\<close>)
qed

lemma Push_sends:
  assumes ag: "wf_agent ag" and req: "wf_request ag (ag_gradients ag)"
    and dist: "distinct (shm_prefix (ag_gradients ag))"
  shows "\<exists>d out. Push ag = Some (Inr (ag\<lparr>ag_gradients := d\<rparr>, out)) \<and>
    mset (concat (map (\<lambda>(dst, m). request_pairs (the_request_msg m)) out)) =
      mset (shm_pairs (ag_gradients ag)) \<and>
    (\<forall>x\<in>set out. routed ag RequestType_key_value x \<and> wf_push (the_request_msg (snd x))) \<and>
    (distinct (ag_server_ids ag) \<longrightarrow> one_each ag out)"
proof -
  let ?n = "shm_size (ag_gradients ag)"
  from sorted_gradients [OF assms] obtain ks vs where
    sorted: "SortKeyValue (shm_keys (ag_gradients ag)) (shm_values (ag_gradients ag)) ?n = Inr (ks, vs)"
      "length ks = 100" "length vs = 100"
      "valid_block ((ag_gradients ag)\<lparr>shm_keys := ks, shm_values := vs\<rparr>, ag_partition ag)"
      "mset (take (nat ?n) (zip ks vs)) = mset (shm_pairs (ag_gradients ag))"
    by blast
  define d1 where "d1 = (ag_gradients ag)\<lparr>shm_keys := ks, shm_values := vs\<rparr>"
  define ag1 where "ag1 = ag\<lparr>ag_gradients := d1\<rparr>"
  have n: "0 \<le> ?n" "?n \<le> 100" using req by (simp_all add: wf_request_def)
  have d1: "wf_shm (ag_gradients ag1)" "wf_agent ag1" "shm_keys (ag_gradients ag1) = ks"
      "shm_values (ag_gradients ag1) = vs" "shm_size d1 = ?n"
    using sorted(2,3) ag by (simp_all add: wf_shm_def d1_def ag1_def wf_agent_def)
  obtain bs where bs: "block_loop (next_block d1 (ag_partition ag)) (push_block ag1) ?n 0 =
      Some (Inr (map (\<lambda>(s, e, sid). push_message ag1 s e sid) bs))" "tiles 0 ?n bs"
    and own: "\<forall>(s, e, sid)\<in>set bs. \<forall>k\<in>set (slice s e ks). owns (ag_partition ag) sid k"
    and sep: "sorted_wrt (\<lambda>(s, e, sid) (s', e', sid'). sid = sid' \<longrightarrow>
        sid = int (length (part_vec (ag_partition ag1))) - 1) bs"
    using push_loop [OF d1(2)] sorted(2-4) by (auto simp: ag1_def d1_def)
  let ?out = "map (\<lambda>(s, e, sid). push_message ag1 s e sid) bs"
  have "Push ag = Some (Inr (ag\<lparr>ag_gradients := d1\<rparr>, ?out))"
    using bs(1) sorted(1) by (simp add: Push_def ag1_def d1_def Let_def)
  moreover have "concat (map (\<lambda>(dst, m). request_pairs (the_request_msg m)) ?out) = take (nat ?n) (zip ks vs)"
    using block_pairs [OF bs(2), of ag1] n sorted(2,3) d1(3,4) by simp
  moreover have "routed ag RequestType_key_value x \<and> wf_push (the_request_msg (snd x))" if "x \<in> set ?out" for x
  proof -
    from that obtain s e sid where b: "(s, e, sid) \<in> set bs" "x = push_message ag1 s e sid" by auto
    have "0 \<le> s" "s < e" "e \<le> 100" using tiles_mem [OF bs(2) b(1)] n by simp_all
    moreover have "\<forall>k\<in>set (slice s e (shm_keys (ag_gradients ag1))). owns (ag_partition ag1) sid k"
      using own b(1) d1(3) by (auto simp: ag1_def)
    ultimately have "routed ag1 RequestType_key_value x \<and> wf_push (the_request_msg (snd x))"
      unfolding b(2) by (rule push_message_routed [OF d1(2,1)])
    then show ?thesis by (simp add: routed_def ag1_def)
  qed
  moreover have "one_each ag ?out" if "distinct (ag_server_ids ag)"
  proof -
    have "\<exists>k. owns (ag_partition ag1) sid k" if "(s, e, sid) \<in> set bs" for s e sid
    proof -
      have "slice s e ks \<noteq> []" using tiles_mem [OF bs(2) that] n sorted(2) by (intro slice_nonempty) auto
      then have "hd (slice s e ks) \<in> set (slice s e ks)" by simp
      then show ?thesis using own that by (fastforce simp: ag1_def)
    qed
    then have "one_each ag1 ?out"
      using push_messages_one_each [OF d1(2) _ _ sep] that by (auto simp: ag1_def)
    then show ?thesis by (simp add: one_each_def ag1_def)
  qed
  ultimately show ?thesis using sorted(5) by (intro exI [of _ d1] exI [of _ ?out] conjI ballI impI) simp_all
qed

text \<open>
  C8: \<open>Push\<close> ends, and delivers every gradient exactly once to its owner. The pairs of all
  requests together are a permutation of the pairs that the worker gave; each request is
  well-formed and not empty, names the agent as its sender, and goes to the server that owns all
  of its keys on the ring.
\<close>

theorem Push_delivers:
  assumes ag: "wf_agent ag" and req: "wf_request ag (ag_gradients ag)"
    and dist: "distinct (shm_prefix (ag_gradients ag))"
  shows "\<exists>ag' out. Push ag = Some (Inr (ag', out)) \<and>
    mset (concat (map (\<lambda>(dst, m). request_pairs (the_request_msg m)) out)) =
      mset (shm_pairs (ag_gradients ag)) \<and>
    (\<forall>x\<in>set out. routed ag RequestType_key_value x \<and> wf_push (the_request_msg (snd x)))"
  using Push_sends [OF assms] by blast

text \<open>An agent of a system with two servers on ten keys; the worker gave three gradients.\<close>

definition example_agent :: "int agent" where
  "example_agent = \<lparr> ag_local_id = 3, ag_local_ip = ''10.0.0.3'', ag_listen_port = 5555,
     ag_agent_num = 2, ag_server_num = 2, ag_key_range = 10, ag_epoch_num = 0,
     ag_server_ids = [1, 2], ag_master_ids = [0], ag_sender = example_comm,
     ag_para_fifo = \<lparr> filename = ''p'', is_reader = False, fd = 4 \<rparr>,
     ag_grad_fifo = \<lparr> filename = ''g'', is_reader = True, fd = 5 \<rparr>,
     ag_para_memory = \<lparr> shm_size = 0, shm_values = replicate 100 0, shm_keys = replicate 100 0 \<rparr>,
     ag_grad_memory = \<lparr> shm_size = 0, shm_values = replicate 100 0, shm_keys = replicate 100 0 \<rparr>,
     ag_gradients = \<lparr> shm_size = 3, shm_values = [70, 30, 40] @ replicate 97 0,
       shm_keys = [7, 3, 4] @ replicate 97 0 \<rparr>,
     ag_parameters = \<lparr> shm_size = 2, shm_values = replicate 100 0,
       shm_keys = [7, 0] @ replicate 98 0 \<rparr>,
     ag_partition = \<lparr> part_key_range = 10, part_server_num = 2, part_vec = [2, 6] \<rparr>,
     ag_reconfig_msg = None \<rparr>"

theorem Push_delivers_witness:
  "\<exists>ag' out. Push example_agent = Some (Inr (ag', out)) \<and>
    mset (concat (map (\<lambda>(dst, m). request_pairs (the_request_msg m)) out)) =
      {#(7, 70), (3, 30), (4, 40)#}"
proof -
  have "wf_agent example_agent"
    by (simp add: wf_agent_def wf_partition_def example_agent_def in_i32_iff)
  moreover have "wf_request example_agent (ag_gradients example_agent)"
    by (simp add: wf_request_def wf_shm_def shm_prefix_def example_agent_def numeral_eq_Suc)
  moreover have "distinct (shm_prefix (ag_gradients example_agent))"
    by (simp add: shm_prefix_def example_agent_def numeral_eq_Suc)
  moreover have "shm_pairs (ag_gradients example_agent) = [(7, 70), (3, 30), (4, 40)]"
    by (simp add: shm_pairs_def shm_prefix_def example_agent_def numeral_eq_Suc)
  ultimately show ?thesis using Push_delivers [of example_agent] by fastforce
qed

end
