(* ===== verification/Agent_Pull.thy ===== *)
theory Agent_Pull
  imports Agent_Push
begin

text \<open>
  Pulling and configuration. \<open>Pull\<close> asks the owner of every key and stores the first
  acceptable reply of each server asked, in the order of arrival; every other message is
  ignored. \<open>accepted\<close> is the list of these replies. When the keys lie on one side of the
  wrap-around every server gets one request and all replies are stored; otherwise the last
  server gets two, and one of its replies is lost.
\<close>

section \<open>The sides of the wrap-around\<close>

text \<open>
  The keys of the last server lie in two parts: those below the first hash value, and those from
  its own hash value on. No block has keys on both sides of the first hash value.
\<close>

definition one_sided :: "Partition \<Rightarrow> int list \<Rightarrow> bool" where
  "one_sided p ks \<longleftrightarrow> (\<forall>k\<in>set ks. k < part_vec p ! 0) \<or> (\<forall>k\<in>set ks. part_vec p ! 0 \<le> k)"

lemma one_sided_subset: "one_sided p ks \<Longrightarrow> set ks' \<subseteq> set ks \<Longrightarrow> one_sided p ks'"
  by (auto simp: one_sided_def)

lemma NextEnding_sides:
  assumes wf: "wf_partition p" and keys: "wf_keys p keys" and start: "0 \<le> start" "start < int (length keys)"
    and ends: "NextEnding p keys start = Inr (e, sid)"
  shows "start \<le> j \<Longrightarrow> j < e \<Longrightarrow> keys ! nat j < part_vec p ! 0 \<longleftrightarrow> keys ! nat start < part_vec p ! 0"
    and "one_sided p keys \<Longrightarrow> sid = int (length (part_vec p)) - 1 \<Longrightarrow> e = int (length keys)"
proof -
  let ?k = "keys ! nat start" and ?v = "part_vec p"
  have ne: "0 < length ?v" "part_server_num p = int (length ?v)" using wf by (auto simp: wf_partition_def)
  have sorted: "sorted keys" using keys by (simp add: wf_keys_def)
  have e: "e \<le> int (length keys)"
    using NextEnding_block_end [OF wf keys start] ends by (simp add: block_end_def)
  have low: "e = int (lower_bound keys (nat start) (?v ! 0))" if "?k < ?v ! 0"
    using that ends start ne by (auto simp: NextEnding_def bind_res_def split: sum.splits)
  show "keys ! nat j < ?v ! 0 \<longleftrightarrow> ?k < ?v ! 0" if j: "start \<le> j" "j < e"
  proof (cases "?k < ?v ! 0")
    case True
    with lower_bound_block(3) [OF sorted start True] j low show ?thesis by blast
  next
    case False
    moreover have "?k \<le> keys ! nat j" using j e start sorted by (auto intro!: sorted_nth_mono)
    ultimately show ?thesis by linarith
  qed
  show "e = int (length keys)" if "one_sided p keys" "sid = int (length ?v) - 1"
  proof (cases "?k < ?v ! 0")
    case True
    have "?k \<in> set keys" using start by (simp add: nat_less_iff)
    then have "\<forall>k\<in>set keys. k < ?v ! 0" using that(1) True by (auto simp: one_sided_def)
    moreover have "?v ! 0 \<le> keys ! nat e" if "e < int (length keys)"
      using lower_bound_block(4) [OF sorted start True] low [OF True] that by blast
    moreover have "0 \<le> e" using low [OF True] by simp
    ultimately show ?thesis using e by (metis linorder_not_le nat_less_iff nth_mem order_le_less)
  next
    case False
    then show ?thesis
      using ends start that ne by (auto simp: NextEnding_def bind_res_def split: sum.splits if_splits)
  qed
qed

lemma distinct_blocks:
  assumes "tiles a n bs" "\<forall>(s, e, sid)\<in>set bs. sid = l \<longrightarrow> e = n"
    and "sorted_wrt (\<lambda>(s, e, sid) (s', e', sid'). sid = sid' \<longrightarrow> sid = l) bs"
  shows "distinct (map (\<lambda>(s, e, sid). sid) bs)"
  using assms
proof (induction a n bs rule: tiles.induct)
  case (2 a n s e sid bs)
  have "sid \<noteq> sid'" if b: "(s', e', sid') \<in> set bs" for s' e' sid'
  proof
    assume "sid = sid'"
    with 2(4) b have "sid = l" by auto
    with 2(3) have "e = n" by simp
    moreover have "e \<le> s'" "s' < e'" "e' \<le> n" using tiles_mem [OF _ b, of e n] 2(2) by auto
    ultimately show False by simp
  qed
  with 2 show ?case by auto
qed simp

section \<open>The requests of Pull\<close>

definition pull_message :: "'v agent \<Rightarrow> int \<Rightarrow> int \<Rightarrow> int \<Rightarrow> int \<times> 'v Message" where
  "pull_message ag s e sid =
     (ag_server_ids ag ! nat sid, new_Message\<lparr>message_type := Message_MessageType_request,
       send_id := ag_local_id ag, recv_id := ag_server_ids ag ! nat sid,
       request_msg := Some \<lparr> request_type = RequestType_key,
         rq_keys = slice s e (shm_keys (ag_parameters ag)), rq_values = [] \<rparr>\<rparr>)"

text \<open>
  How requests for keys are cut: each has keys on one side only, and if all the keys are on one
  side then no server gets two requests.
\<close>

definition cut_at_wrap :: "'v agent \<Rightarrow> int list \<Rightarrow> 'v outgoing \<Rightarrow> bool" where
  "cut_at_wrap ag ks out \<longleftrightarrow>
     (\<forall>x\<in>set out. one_sided (ag_partition ag) (rq_keys (the_request_msg (snd x)))) \<and>
     (one_sided (ag_partition ag) ks \<and> distinct (ag_server_ids ag) \<longrightarrow> distinct (map fst out))"

lemma pull_loop:
  assumes ag: "wf_agent ag" and c: "valid_block (ag_parameters ag, ag_partition ag)"
  shows "\<exists>out. block_loop (next_block (ag_parameters ag) (ag_partition ag)) (pull_block ag)
        (shm_size (ag_parameters ag)) 0 = Some (Inr out) \<and>
      concat (map (\<lambda>x. rq_keys (the_request_msg (snd x))) out) = shm_prefix (ag_parameters ag) \<and>
      (\<forall>x\<in>set out. routed ag RequestType_key x) \<and> cut_at_wrap ag (shm_prefix (ag_parameters ag)) out"
proof -
  let ?d = "ag_parameters ag" and ?p = "ag_partition ag"
  let ?n = "shm_size ?d"
  let ?last = "int (length (part_vec ?p)) - 1"
  have n: "0 \<le> ?n" "?n \<le> int (length (shm_keys ?d))" using c by (simp_all add: valid_block_def)
  have index: "0 \<le> sid \<and> sid < int (length (ag_server_ids ag))" if "owns ?p sid k" for sid k
    using owns_index [OF that] ag by (simp add: wf_agent_def)
  have "pull_block ag s e sid = Inr (pull_message ag s e sid)"
    if "0 \<le> s" "s < e" "e \<le> ?n" "\<forall>j. s \<le> j \<and> j < e \<longrightarrow> owns ?p sid (shm_keys ?d ! nat j)" for s e sid
    using that n index [of sid "shm_keys ?d ! nat s"]
    by (simp add: pull_block_def pull_message_def slice_def map_res_slice)
  from blocks.block_loop_tiles [OF c, of 0 "pull_block ag" "pull_message ag"] this n(1)
  obtain bs where bs: "block_loop (next_block ?d ?p) (pull_block ag) ?n 0 =
      Some (Inr (map (\<lambda>(s, e, sid). pull_message ag s e sid) bs))"
      "tiles 0 ?n bs" "blocks.owned (?d, ?p) bs" "blocks.separated (?d, ?p) bs" "blocks.cut (?d, ?p) bs"
    by auto
  let ?out = "map (\<lambda>(s, e, sid). pull_message ag s e sid) bs"
  have "map (\<lambda>x. rq_keys (the_request_msg (snd x))) ?out =
      map (\<lambda>(s, e, sid). take (nat (e - s)) (drop (nat s) (shm_keys ?d))) bs"
    by (simp add: pull_message_def slice_def split_def comp_def)
  then have "concat (map (\<lambda>x. rq_keys (the_request_msg (snd x))) ?out) = shm_prefix ?d"
    using tiles_concat [OF bs(2), of "shm_keys ?d"] n by (simp only:) (simp add: shm_prefix_def)
  moreover have "routed ag RequestType_key x" if "x \<in> set ?out" for x
  proof -
    from that obtain s e sid where b: "(s, e, sid) \<in> set bs" "x = pull_message ag s e sid" by auto
    have se: "0 \<le> s" "s < e" "e \<le> ?n" using tiles_mem [OF bs(2) b(1)] by simp_all
    then have ne: "slice s e (shm_keys ?d) \<noteq> []" using n(2) by (intro slice_nonempty) auto
    have keys: "\<forall>k\<in>set (slice s e (shm_keys ?d)). owns ?p sid k"
    proof
      fix k assume "k \<in> set (slice s e (shm_keys ?d))"
      with set_slice [OF this] se n(2) obtain j where "s \<le> j" "j < e" "k = shm_keys ?d ! nat j" by auto
      with bs(3) b(1) show "owns ?p sid k" by (auto simp: blocks.owned_def)
    qed
    then have "owns ?p sid (hd (slice s e (shm_keys ?d)))" using ne by simp
    from index [OF this] b(2) ne keys show ?thesis
      by (auto simp: routed_def pull_message_def intro!: exI [of _ "nat sid"])
  qed
  moreover have "cut_at_wrap ag (shm_prefix ?d) ?out"
  proof -
    have wf: "wf_partition ?p" "wf_keys ?p (shm_prefix ?d)" using c by (simp_all add: valid_block_def)
    note kv = key_vector_prefix [OF n]
    have blk: "0 \<le> s" "s < e" "e \<le> ?n" "NextEnding ?p (shm_prefix ?d) s = Inr (e, sid)"
        "0 \<le> sid" "nat sid < length (ag_server_ids ag)"
      if "(s, e, sid) \<in> set bs" for s e sid
    proof -
      show b: "0 \<le> s" "s < e" "e \<le> ?n" using tiles_mem [OF bs(2) that] by simp_all
      show "NextEnding ?p (shm_prefix ?d) s = Inr (e, sid)"
        using bs(5) that kv(1) by (auto simp: blocks.cut_def next_block_def)
      have "owns ?p sid (shm_keys ?d ! nat s)" using bs(3) that b by (auto simp: blocks.owned_def)
      from index [OF this] show "0 \<le> sid" "nat sid < length (ag_server_ids ag)" by auto
    qed
    have "one_sided ?p (slice s e (shm_keys ?d))" if b: "(s, e, sid) \<in> set bs" for s e sid
    proof -
      have "k < part_vec ?p ! 0 \<longleftrightarrow> shm_prefix ?d ! nat s < part_vec ?p ! 0"
        if k: "k \<in> set (slice s e (shm_keys ?d))" for k
      proof -
        from set_slice [OF k] blk [OF b] n(2) obtain j where j: "s \<le> j" "j < e" "k = shm_keys ?d ! nat j" by auto
        then have "k = shm_prefix ?d ! nat j" using blk(1,3) [OF b] by (simp add: shm_prefix_def)
        then show ?thesis
          using NextEnding_sides(1) [OF wf blk(1) [OF b] _ blk(4) [OF b] j(1,2)] blk(2,3) [OF b] kv(2) by simp
      qed
      then show ?thesis unfolding one_sided_def by (meson not_le)
    qed
    moreover have "distinct (map fst ?out)" if one: "one_sided ?p (shm_prefix ?d)" "distinct (ag_server_ids ag)"
    proof -
      have "e = ?n" if b: "(s, e, sid) \<in> set bs" "sid = ?last" for s e sid
        using NextEnding_sides(2) [OF wf blk(1) [OF b(1)] _ blk(4) [OF b(1)] one(1) b(2)] blk(2,3) [OF b(1)] kv(2) by simp
      then have "distinct (map (\<lambda>(s, e, sid). sid) bs)"
        by (intro distinct_blocks [OF bs(2), of ?last]) (use bs(4) in \<open>auto simp: blocks.separated_def\<close>)
      moreover have "inj_on (\<lambda>sid. ag_server_ids ag ! nat sid) ((\<lambda>(s, e, sid). sid) ` set bs)"
        using one(2) blk(5,6) by (auto simp: inj_on_def nth_eq_iff_index_eq eq_nat_nat_iff)
      ultimately have "distinct (map (\<lambda>sid. ag_server_ids ag ! nat sid) (map (\<lambda>(s, e, sid). sid) bs))"
        by (subst distinct_map) simp
      moreover have "map fst ?out = map (\<lambda>sid. ag_server_ids ag ! nat sid) (map (\<lambda>(s, e, sid). sid) bs)"
        by (simp add: pull_message_def split_def comp_def)
      ultimately show ?thesis by (simp only:)
    qed
    ultimately show ?thesis by (auto simp: cut_at_wrap_def pull_message_def)
  qed
  ultimately show ?thesis using bs(1) by (intro exI [of _ ?out]) blast
qed

section \<open>Receiving the replies\<close>

lemma zip_take_length: "zip xs (take (length xs) ys) = zip xs ys"
  by (induction xs ys rule: list_induct2') auto

fun accepted :: "int \<Rightarrow> int set \<Rightarrow> 'v Message option list \<Rightarrow> 'v Message list" where
  "accepted lid S [] = []"
| "accepted lid S (x # xs) =
     (if S = {} then []
      else case x of
        None \<Rightarrow> accepted lid S xs
      | Some m \<Rightarrow> if accepts lid S m then m # accepted lid (S - {send_id m}) xs
                  else accepted lid S xs)"

text \<open>What is left in the receiver when the last reply has been accepted.\<close>

fun unread :: "int \<Rightarrow> int set \<Rightarrow> 'v Message option list \<Rightarrow> 'v Message option list" where
  "unread lid S [] = []"
| "unread lid S (x # xs) =
     (if S = {} then x # xs
      else case x of
        None \<Rightarrow> unread lid S xs
      | Some m \<Rightarrow> if accepts lid S m then unread lid (S - {send_id m}) xs else unread lid S xs)"

text \<open>Every server that has to answer and sends an acceptable message is heard.\<close>

lemma accepted_all:
  assumes "\<forall>s\<in>S. \<exists>m. Some m \<in> set xs \<and> send_id m = s \<and> accepts lid {s} m"
  shows "send_id ` set (accepted lid S xs) = S"
  using assms
proof (induction xs arbitrary: S)
  case (Cons x xs)
  show ?case
  proof (cases "S = {}")
    case False
    show ?thesis
    proof (cases "\<exists>m. x = Some m \<and> accepts lid S m")
      case True
      then obtain m where m: "x = Some m" "accepts lid S m" by blast
      then have "send_id m \<in> S" by (simp add: accepts_def)
      moreover have "send_id ` set (accepted lid (S - {send_id m}) xs) = S - {send_id m}"
        using Cons.prems by (intro Cons.IH) (auto simp: m(1))
      ultimately show ?thesis using m False by auto
    next
      case no: False
      have "\<exists>m. Some m \<in> set xs \<and> send_id m = s \<and> accepts lid {s} m" if "s \<in> S" for s
      proof -
        from Cons.prems that obtain m where m: "Some m \<in> set (x # xs)" "send_id m = s" "accepts lid {s} m"
          by blast
        then have "accepts lid S m" using that by (simp add: accepts_def)
        with no m show ?thesis by auto
      qed
      then have "send_id ` set (accepted lid S xs) = S" by (intro Cons.IH) blast
      then show ?thesis using no False by (cases x) auto
    qed
  qed simp
qed auto

text \<open>\<open>ys\<close> written over \<open>xs\<close> from position \<open>i\<close> on.\<close>

definition overlay :: "nat \<Rightarrow> 'a list \<Rightarrow> 'a list \<Rightarrow> 'a list" where
  "overlay i ys xs = take i xs @ ys @ drop (i + length ys) xs"

lemma length_overlay: "i + length ys \<le> length xs \<Longrightarrow> length (overlay i ys xs) = length xs"
  by (simp add: overlay_def)

lemma overlay_append:
  assumes "i + length ys + length zs \<le> length xs"
  shows "overlay (i + length ys) zs (overlay i ys xs) = overlay i (ys @ zs) xs"
proof -
  have "take (i + length ys) (overlay i ys xs) = take i xs @ ys"
    using assms by (simp add: overlay_def)
  moreover have "drop (i + length ys + length zs) (overlay i ys xs) = drop (i + length (ys @ zs)) xs"
    using assms by (simp add: overlay_def ac_simps)
  ultimately show ?thesis by (simp add: overlay_def [of "i + length ys"] overlay_def [of i "ys @ zs"])
qed

lemma overlay_snoc:
  assumes "i + length ys < length xs"
  shows "(overlay i ys xs)[i + length ys := y] = overlay i (ys @ [y]) xs"
proof -
  have "overlay i ys xs = (take i xs @ ys) @ drop (i + length ys) xs" by (simp add: overlay_def)
  then show ?thesis
    using update_mid [of "i + length ys" xs "take i xs @ ys" y] assms by (simp add: overlay_def)
qed

definition reply_values :: "'v RequestMessage \<Rightarrow> 'v list" where
  "reply_values r = take (length (rq_keys r)) (rq_values r)"

lemma store_reply_overlay:
  assumes "wf_push r" "length (shm_keys d) = n" "length (shm_values d) = n"
    and "cur + length (rq_keys r) \<le> n" "in_i32 (int n)"
  shows "store_reply r (int cur) d = Inr (d\<lparr>shm_keys := overlay cur (rq_keys r) (shm_keys d),
      shm_values := overlay cur (reply_values r) (shm_values d)\<rparr>)"
proof -
  let ?h = "\<lambda>j. d\<lparr>shm_keys := overlay cur (take j (rq_keys r)) (shm_keys d),
      shm_values := overlay cur (take j (rq_values r)) (shm_values d)\<rparr>"
  have "store_reply r (int cur) (?h 0) = Inr (?h (length (rq_keys r)))"
    unfolding store_reply_def
  proof (rule fold_res_count)
    fix j assume j: "j < length (rq_keys r)"
    then have jv: "j < length (rq_values r)" using assms(1) by (auto simp: wf_push_def)
    have "i32 (int cur + int j) = Inr (int (cur + j))" using j assms(4,5) by (simp add: in_i32_iff)
    moreover have "vec_set (overlay cur (take j (rq_keys r)) (shm_keys d)) (int (cur + j)) (rq_keys r ! j) =
        Inr (overlay cur (take (Suc j) (rq_keys r)) (shm_keys d))"
      using j assms(2,4) overlay_snoc [of cur "take j (rq_keys r)" "shm_keys d" "rq_keys r ! j"]
      by (simp add: length_overlay nth_take_Suc del: of_nat_add)
    moreover have "vec_set (overlay cur (take j (rq_values r)) (shm_values d)) (int (cur + j)) (rq_values r ! j) =
        Inr (overlay cur (take (Suc j) (rq_values r)) (shm_values d))"
      using j jv assms(3,4) overlay_snoc [of cur "take j (rq_values r)" "shm_values d" "rq_values r ! j"]
      by (simp add: length_overlay nth_take_Suc del: of_nat_add)
    ultimately show "bind_res (vec_get (rq_keys r) (int j)) (\<lambda>k. bind_res (i32 (int cur + int j)) (\<lambda>p.
        bind_res (vec_set (shm_keys (?h j)) p k) (\<lambda>ks. bind_res (vec_get (rq_values r) (int j)) (\<lambda>v.
        bind_res (vec_set (shm_values (?h j)) p v) (\<lambda>vs.
          Inr ((?h j)\<lparr>shm_keys := ks, shm_values := vs\<rparr>)))))) = Inr (?h (Suc j))"
      using j jv by (simp del: of_nat_add)
  qed
  moreover have "?h 0 = d" using assms by (simp add: overlay_def)
  ultimately show ?thesis by (simp add: reply_values_def)
qed

text \<open>The pass of the loop that stores a reply, and all of them in a row.\<close>

definition store_all :: "'v Message list \<Rightarrow> int \<times> 'v shmstruct \<Rightarrow> (int \<times> 'v shmstruct) res" where
  "store_all = fold_res (\<lambda>m (cur, d).
     bind_res (store_reply (the_request_msg m) cur d) (\<lambda>d'.
     bind_res (i32 (cur + int (length (rq_keys (the_request_msg m))))) (\<lambda>cur'. Inr (cur', d'))))"

lemma store_all_Cons:
  "store_all (m # ms) (cur, d) =
     bind_res (bind_res (store_reply (the_request_msg m) cur d) (\<lambda>d'.
       bind_res (i32 (cur + int (length (rq_keys (the_request_msg m))))) (\<lambda>cur'. Inr (cur', d'))))
     (store_all ms)"
  by (simp add: store_all_def)

lemma accepted_subset: "send_id ` set (accepted lid S xs) \<subseteq> S"
proof (induction lid S xs rule: accepted.induct)
  case (2 lid S x xs)
  then show ?case by (cases x) (auto simp: accepts_def)
qed simp

lemma receive_loop_accepted:
  assumes "send_id ` set (accepted lid S xs) = S"
    and "store_all (accepted lid S xs) (cur, d) = Inr (cur', d')"
  shows "receive_loop lid xs S cur d = Some (Inr (cur', d', unread lid S xs))"
  using assms
proof (induction xs arbitrary: S cur d)
  case Nil
  then show ?case by (simp add: store_all_def)
next
  case (Cons x xs)
  consider (finished) "S = {}" | (skip) "S \<noteq> {}" "\<not> (\<exists>m. x = Some m \<and> accepts lid S m)"
    | (store) m where "S \<noteq> {}" "x = Some m" "accepts lid S m"
    by blast
  then show ?case
  proof cases
    case finished
    then show ?thesis using Cons.prems by (simp add: store_all_def)
  next
    case skip
    then have "accepted lid S (x # xs) = accepted lid S xs"
      "receive_loop lid (x # xs) S cur d = receive_loop lid xs S cur d"
      "unread lid S (x # xs) = unread lid S xs"
      by (cases x; auto)+
    then show ?thesis using Cons.IH [of S cur d] Cons.prems by simp
  next
    case (store m)
    let ?S = "S - {send_id m}"
    let ?step = "bind_res (store_reply (the_request_msg m) cur d) (\<lambda>d'.
      bind_res (i32 (cur + int (length (rq_keys (the_request_msg m))))) (\<lambda>cur'. Inr (cur', d')))"
    have acc: "accepted lid S (x # xs) = m # accepted lid ?S xs" using store by simp
    with Cons.prems(2) obtain cur1 d1 where step: "?step = Inr (cur1, d1)"
      and rest: "store_all (accepted lid ?S xs) (cur1, d1) = Inr (cur', d')"
      by (cases ?step) (auto simp: store_all_Cons)
    have "insert (send_id m) (send_id ` set (accepted lid ?S xs)) = S"
      using Cons.prems(1) unfolding acc by simp
    then have "send_id ` set (accepted lid ?S xs) = ?S"
      using accepted_subset [of lid ?S xs] by blast
    moreover have "receive_loop lid (x # xs) S cur d = receive_loop lid xs ?S cur1 d1"
      using store step by simp
    moreover have "unread lid S (x # xs) = unread lid ?S xs" using store by simp
    ultimately show ?thesis using Cons.IH [of ?S cur1 d1] rest by simp
  qed
qed

lemma store_all_overlay:
  assumes "\<forall>m\<in>set ms. wf_push (the_request_msg m)"
    and "length (shm_keys d) = n" "length (shm_values d) = n" "in_i32 (int n)"
    and "cur + length (concat (map (\<lambda>m. rq_keys (the_request_msg m)) ms)) \<le> n"
  shows "store_all ms (int cur, d) =
      Inr (int (cur + length (concat (map (\<lambda>m. rq_keys (the_request_msg m)) ms))),
        d\<lparr>shm_keys := overlay cur (concat (map (\<lambda>m. rq_keys (the_request_msg m)) ms)) (shm_keys d),
          shm_values := overlay cur (concat (map (\<lambda>m. reply_values (the_request_msg m)) ms))
            (shm_values d)\<rparr>)"
  using assms
proof (induction ms arbitrary: cur d)
  case Nil
  then show ?case by (simp add: store_all_def overlay_def)
next
  case (Cons m ms)
  let ?r = "the_request_msg m"
  let ?ks = "concat (map (\<lambda>m. rq_keys (the_request_msg m)) ms)"
    and ?vs = "concat (map (\<lambda>m. reply_values (the_request_msg m)) ms)"
  let ?d = "d\<lparr>shm_keys := overlay cur (rq_keys ?r) (shm_keys d),
      shm_values := overlay cur (reply_values ?r) (shm_values d)\<rparr>"
  have wf: "wf_push ?r" and fit: "cur + length (rq_keys ?r) \<le> n" using Cons.prems by simp_all
  have rv: "length (reply_values (the_request_msg x)) = length (rq_keys (the_request_msg x))"
    if "x \<in> set (m # ms)" for x
    using Cons.prems(1) that by (auto simp: reply_values_def wf_push_def)
  then have "map length (map (\<lambda>m. reply_values (the_request_msg m)) ms) =
      map length (map (\<lambda>m. rq_keys (the_request_msg m)) ms)"
    by simp
  then have lens: "length ?vs = length ?ks" unfolding length_concat by (rule arg_cong)
  have store: "store_reply ?r (int cur) d = Inr ?d"
    by (rule store_reply_overlay [OF wf Cons.prems(2,3) fit Cons.prems(4)])
  have "in_i32 (int cur + int (length (rq_keys ?r)))" using fit Cons.prems(4) by (simp add: in_i32_iff)
  then have step: "store_all (m # ms) (int cur, d) = store_all ms (int (cur + length (rq_keys ?r)), ?d)"
    using store by (simp add: store_all_Cons)
  have "store_all ms (int (cur + length (rq_keys ?r)), ?d) =
      Inr (int (cur + length (rq_keys ?r) + length ?ks),
        ?d\<lparr>shm_keys := overlay (cur + length (rq_keys ?r)) ?ks (shm_keys ?d),
          shm_values := overlay (cur + length (rq_keys ?r)) ?vs (shm_values ?d)\<rparr>)"
    by (rule Cons.IH) (use Cons.prems rv fit in \<open>simp_all add: length_overlay\<close>)
  moreover have "overlay (cur + length (rq_keys ?r)) ?ks (overlay cur (rq_keys ?r) (shm_keys d)) =
      overlay cur (rq_keys ?r @ ?ks) (shm_keys d)"
    by (rule overlay_append) (use Cons.prems in simp)
  moreover have "overlay (cur + length (rq_keys ?r)) ?vs (overlay cur (reply_values ?r) (shm_values d)) =
      overlay cur (reply_values ?r @ ?vs) (shm_values d)"
    using overlay_append [of cur "reply_values ?r" ?vs "shm_values d"] Cons.prems(3,5) rv [of m] lens
    by simp
  ultimately show ?case by (simp add: step)
qed

section \<open>The servers that a pull asks\<close>

definition owner :: "'v agent \<Rightarrow> int \<Rightarrow> int" where
  "owner ag k = (case GetServerByKey (ag_partition ag) k of
     Inr i \<Rightarrow> ag_server_ids ag ! nat i | Inl _ \<Rightarrow> -1)"

definition asked :: "'v agent \<Rightarrow> 'v shmstruct \<Rightarrow> int set" where
  "asked ag d = owner ag ` set (shm_prefix d)"

lemma owner_owns:
  assumes "wf_agent ag" "0 \<le> k" "k < part_key_range (ag_partition ag)" "owns (ag_partition ag) i k"
  shows "owner ag k = ag_server_ids ag ! nat i"
proof -
  have wf: "wf_partition (ag_partition ag)" using assms(1) by (simp add: wf_agent_def)
  from GetServerByKey_owns [OF wf assms(2,3)] obtain j where
    "GetServerByKey (ag_partition ag) k = Inr j" "owns (ag_partition ag) j k"
    by (auto simp: returns_iff)
  then show ?thesis using owns_unique [OF wf] assms(4) by (auto simp: owner_def)
qed

lemma asked_targets:
  assumes ag: "wf_agent ag" and req: "wf_request ag d"
    and keys: "concat (map (\<lambda>x. rq_keys (the_request_msg (snd x))) out) = sort (shm_prefix d)"
    and routed: "\<forall>x\<in>set out. routed ag t x"
  shows "fst ` set out = asked ag d"
proof -
  have set_keys: "set (shm_prefix d) = (\<Union>x\<in>set out. set (rq_keys (the_request_msg (snd x))))"
    using arg_cong [OF keys, of set] by simp
  have "owner ag k = fst x" if x: "x \<in> set out" and k: "k \<in> set (rq_keys (the_request_msg (snd x)))" for x k
  proof -
    have "k \<in> set (shm_prefix d)" using x k set_keys by blast
    then have "0 \<le> k" "k < part_key_range (ag_partition ag)" using req by (auto simp: wf_request_def)
    moreover have "routed ag t x" using routed x by blast
    then obtain i where "fst x = ag_server_ids ag ! i" "owns (ag_partition ag) (int i) k"
      using k by (cases x) (auto simp: routed_def)
    ultimately show ?thesis using owner_owns [OF ag, of k "int i"] by simp
  qed
  moreover have "rq_keys (the_request_msg (snd x)) \<noteq> []" if "x \<in> set out" for x
    using routed that by (cases x) (auto simp: routed_def)
  ultimately show ?thesis
    unfolding asked_def set_keys by (force simp: image_iff neq_Nil_conv)
qed

section \<open>Pull\<close>

lemma zip_concat:
  assumes "map length xss = map length yss"
  shows "zip (concat xss) (concat yss) = concat (map2 zip xss yss)"
  using assms
proof (induction xss arbitrary: yss)
  case (Cons xs xss)
  then show ?case by (cases yss) auto
qed simp

text \<open>The replies put together, as the copy into the parameters reads them.\<close>

lemma pairs_of_replies:
  assumes "\<forall>m\<in>set ms. wf_push (the_request_msg m)"
  defines "ks \<equiv> concat (map (\<lambda>m. rq_keys (the_request_msg m)) ms)"
    and "vs \<equiv> concat (map (\<lambda>m. reply_values (the_request_msg m)) ms)"
  shows "zip ks vs = concat (map (\<lambda>m. request_pairs (the_request_msg m)) ms)" "length vs = length ks"
proof -
  have lens: "map length (map (\<lambda>m. rq_keys (the_request_msg m)) ms) =
      map length (map (\<lambda>m. reply_values (the_request_msg m)) ms)"
    using assms(1) by (simp add: reply_values_def wf_push_def)
  have "zip ks vs = concat (map (\<lambda>m. zip (rq_keys (the_request_msg m)) (reply_values (the_request_msg m))) ms)"
    using zip_concat [OF lens] by (simp add: ks_def vs_def zip_map_map zip_same_conv_map comp_def)
  also have "\<dots> = concat (map (\<lambda>m. request_pairs (the_request_msg m)) ms)"
    by (simp add: reply_values_def request_pairs_def zip_take_length)
  finally show "zip ks vs = concat (map (\<lambda>m. request_pairs (the_request_msg m)) ms)" .
  show "length vs = length ks" unfolding ks_def vs_def length_concat by (rule arg_cong [OF lens [symmetric]])
qed

text \<open>The part of \<open>Pull\<close> before it waits: the keys are sorted and the requests sent.\<close>

lemma Pull_asks:
  assumes ag: "wf_agent ag" and req: "wf_request ag (ag_parameters ag)"
  shows "\<exists>out ks. concat (map (\<lambda>x. rq_keys (the_request_msg (snd x))) out) =
      sort (shm_prefix (ag_parameters ag)) \<and>
    (\<forall>x\<in>set out. routed ag RequestType_key x) \<and>
    cut_at_wrap ag (shm_prefix (ag_parameters ag)) out \<and> length ks = 100 \<and>
    (\<forall>incoming. Pull incoming ag = Option.bind
       (receive_loop (ag_local_id ag) incoming (fst ` set out) 0
          ((ag_parameters ag)\<lparr>shm_keys := ks, shm_size := 0\<rparr>))
       (\<lambda>r. Some (bind_res r (\<lambda>(cur, d, rest). Inr (ag\<lparr>ag_parameters := d\<lparr>shm_size := cur\<rparr>\<rparr>, out, rest)))))"
proof -
  let ?d = "ag_parameters ag"
  let ?n = "shm_size ?d"
  define ks where "ks = sort (shm_prefix ?d) @ drop (nat ?n) (shm_keys ?d)"
  define ag1 where "ag1 = ag\<lparr>ag_parameters := ?d\<lparr>shm_keys := ks\<rparr>\<rparr>"
  have n: "0 \<le> ?n" "?n \<le> 100" "length (shm_keys ?d) = 100" "length (shm_values ?d) = 100"
    using req by (simp_all add: wf_request_def wf_shm_def)
  have sorted: "sort_prefix (shm_keys ?d) ?n = Inr ks"
    using n by (simp add: sort_prefix_def ks_def shm_prefix_def)
  have len: "length ks = 100" "shm_prefix (ag_parameters ag1) = sort (shm_prefix ?d)"
    using n by (auto simp: ks_def shm_prefix_def ag1_def)
  have "valid_block (ag_parameters ag1, ag_partition ag1)"
    using req ag n len by (simp add: valid_block_def wf_keys_def wf_request_def wf_agent_def)
      (simp add: ag1_def)
  moreover have "wf_agent ag1" using ag by (simp add: wf_agent_def ag1_def)
  ultimately obtain out where out: "block_loop (next_block (ag_parameters ag1) (ag_partition ag1))
        (pull_block ag1) ?n 0 = Some (Inr out)"
      "concat (map (\<lambda>x. rq_keys (the_request_msg (snd x))) out) = sort (shm_prefix ?d)"
      "\<forall>x\<in>set out. routed ag1 RequestType_key x" "cut_at_wrap ag1 (sort (shm_prefix ?d)) out"
    using pull_loop [of ag1] len(2) by (auto simp: ag1_def)
  have "cut_at_wrap ag (shm_prefix ?d) out" using out(4) by (simp add: cut_at_wrap_def one_sided_def ag1_def)
  moreover
  have "\<forall>x\<in>set out. routed ag RequestType_key x"
    using out(3) by (simp add: routed_def ag1_def)
  moreover have "Pull incoming ag = Option.bind
       (receive_loop (ag_local_id ag) incoming (fst ` set out) 0 (?d\<lparr>shm_keys := ks, shm_size := 0\<rparr>))
       (\<lambda>r. Some (bind_res r (\<lambda>(cur, d, rest). Inr (ag\<lparr>ag_parameters := d\<lparr>shm_size := cur\<rparr>\<rparr>, out, rest))))"
    for incoming
    using out(1) sorted by (simp add: Pull_def ag1_def Let_def)
  ultimately show ?thesis using out(2) len(1) by blast
qed

text \<open>The replies to the servers in \<open>S\<close> that fit the memory are all stored.\<close>

definition answered :: "int \<Rightarrow> int set \<Rightarrow> 'v Message option list \<Rightarrow> bool" where
  "answered lid S incoming \<longleftrightarrow>
     (\<forall>s\<in>S. \<exists>m. Some m \<in> set incoming \<and> send_id m = s \<and> accepts lid {s} m) \<and>
     (\<forall>m\<in>set (accepted lid S incoming). wf_push (the_request_msg m)) \<and>
     length (concat (map (\<lambda>m. rq_keys (the_request_msg m)) (accepted lid S incoming))) \<le> 100"

lemma receive_loop_answered:
  assumes "answered lid S incoming" "length (shm_keys d) = 100" "length (shm_values d) = 100"
  shows "\<exists>cur d'. receive_loop lid incoming S 0 d = Some (Inr (cur, d', unread lid S incoming)) \<and>
    0 \<le> cur \<and> cur \<le> 100 \<and> wf_shm d' \<and>
    shm_pairs (d'\<lparr>shm_size := cur\<rparr>) =
      concat (map (\<lambda>m. request_pairs (the_request_msg m)) (accepted lid S incoming))"
proof -
  let ?ms = "accepted lid S incoming"
  let ?ks = "concat (map (\<lambda>m. rq_keys (the_request_msg m)) ?ms)"
    and ?vs = "concat (map (\<lambda>m. reply_values (the_request_msg m)) ?ms)"
  let ?d1 = "d\<lparr>shm_keys := overlay 0 ?ks (shm_keys d), shm_values := overlay 0 ?vs (shm_values d)\<rparr>"
  have a: "\<forall>s\<in>S. \<exists>m. Some m \<in> set incoming \<and> send_id m = s \<and> accepts lid {s} m"
    "\<forall>m\<in>set ?ms. wf_push (the_request_msg m)" "length ?ks \<le> 100"
    using assms(1) by (simp_all add: answered_def)
  have "store_all ?ms (0, d) = Inr (int (length ?ks), ?d1)"
    using store_all_overlay [OF a(2), of d 100 0] a(3) assms(2,3) by (simp add: in_i32_iff)
  from receive_loop_accepted [OF accepted_all [OF a(1)] this]
  have "receive_loop lid incoming S 0 d = Some (Inr (int (length ?ks), ?d1, unread lid S incoming))" .
  moreover have "shm_pairs (?d1\<lparr>shm_size := int (length ?ks)\<rparr>) =
      concat (map (\<lambda>m. request_pairs (the_request_msg m)) ?ms)"
    using pairs_of_replies [OF a(2)] by (simp add: shm_pairs_def shm_prefix_def overlay_def)
  moreover have "wf_shm ?d1"
    using pairs_of_replies(2) [OF a(2)] a(3) assms(2,3) by (simp add: wf_shm_def length_overlay)
  ultimately show ?thesis using a(3) by (intro exI [of _ "int (length ?ks)"] exI [of _ ?d1]) simp
qed

lemma Pull_collected:
  assumes ag: "wf_agent ag" and req: "wf_request ag (ag_parameters ag)"
  shows "\<exists>out. concat (map (\<lambda>x. rq_keys (the_request_msg (snd x))) out) =
      sort (shm_prefix (ag_parameters ag)) \<and>
    (\<forall>x\<in>set out. routed ag RequestType_key x) \<and> fst ` set out = asked ag (ag_parameters ag) \<and>
    cut_at_wrap ag (shm_prefix (ag_parameters ag)) out \<and>
    (\<forall>incoming. answered (ag_local_id ag) (asked ag (ag_parameters ag)) incoming \<longrightarrow>
      (\<exists>d. Pull incoming ag = Some (Inr (ag\<lparr>ag_parameters := d\<rparr>, out,
          unread (ag_local_id ag) (asked ag (ag_parameters ag)) incoming)) \<and> wf_shm d \<and>
        shm_pairs d = concat (map (\<lambda>m. request_pairs (the_request_msg m))
          (accepted (ag_local_id ag) (asked ag (ag_parameters ag)) incoming))))"
proof -
  let ?S = "asked ag (ag_parameters ag)"
  from Pull_asks [OF assms] obtain out ks where
    out: "concat (map (\<lambda>x. rq_keys (the_request_msg (snd x))) out) = sort (shm_prefix (ag_parameters ag))"
      "\<forall>x\<in>set out. routed ag RequestType_key x" "cut_at_wrap ag (shm_prefix (ag_parameters ag)) out"
      "length ks = 100"
    and pull: "\<And>incoming. Pull incoming ag = Option.bind
       (receive_loop (ag_local_id ag) incoming (fst ` set out) 0
          ((ag_parameters ag)\<lparr>shm_keys := ks, shm_size := 0\<rparr>))
       (\<lambda>r. Some (bind_res r (\<lambda>(cur, d, rest). Inr (ag\<lparr>ag_parameters := d\<lparr>shm_size := cur\<rparr>\<rparr>, out, rest))))"
    by blast
  note targets = asked_targets [OF ag req out(1,2)]
  have "\<exists>d. Pull incoming ag = Some (Inr (ag\<lparr>ag_parameters := d\<rparr>, out,
        unread (ag_local_id ag) ?S incoming)) \<and> wf_shm d \<and>
      shm_pairs d = concat (map (\<lambda>m. request_pairs (the_request_msg m)) (accepted (ag_local_id ag) ?S incoming))"
    if "answered (ag_local_id ag) ?S incoming" for incoming
  proof -
    have "length (shm_values (ag_parameters ag)) = 100" using req by (simp add: wf_request_def wf_shm_def)
    with receive_loop_answered [OF that, of "(ag_parameters ag)\<lparr>shm_keys := ks, shm_size := 0\<rparr>"] out(4)
    obtain cur d where "receive_loop (ag_local_id ag) incoming ?S 0
          ((ag_parameters ag)\<lparr>shm_keys := ks, shm_size := 0\<rparr>) =
        Some (Inr (cur, d, unread (ag_local_id ag) ?S incoming))" "wf_shm d"
      "shm_pairs (d\<lparr>shm_size := cur\<rparr>) = concat (map (\<lambda>m. request_pairs (the_request_msg m))
        (accepted (ag_local_id ag) ?S incoming))"
      by auto
    then show ?thesis by (intro exI [of _ "d\<lparr>shm_size := cur\<rparr>"]) (simp add: pull wf_shm_def targets)
  qed
  with out(1-3) targets show ?thesis by blast
qed

section \<open>One reply of each server\<close>

lemma mset_concat_sum: "mset (concat (map f xs)) = (\<Sum>x\<in>#mset xs. mset (f x))"
  by (induction xs) simp_all

lemma mset_concat_map:
  assumes "mset xs = mset (map g ys)"
  shows "mset (concat (map f xs)) = mset (concat (map (\<lambda>y. f (g y)) ys))"
  using assms by (simp add: mset_concat_sum image_mset.compositionality comp_def)

lemma shm_pairs_keys: "wf_shm d \<Longrightarrow> map fst (shm_pairs d) = shm_prefix d"
  by (simp add: shm_pairs_def shm_prefix_def wf_shm_def)

lemma request_pairs_keys: "wf_push r \<Longrightarrow> map fst (request_pairs r) = rq_keys r"
  by (simp add: request_pairs_def wf_push_def map_fst_zip_take)

lemma distinct_accepted: "distinct (map send_id (accepted lid S xs))"
proof (induction lid S xs rule: accepted.induct)
  case (2 lid S x xs)
  then show ?case using accepted_subset [of lid] by (cases x) (fastforce simp: accepts_def)+
qed simp

lemma accepted_arrived: "m \<in> set (accepted lid S xs) \<Longrightarrow> Some m \<in> set xs \<and> accepts lid S m"
proof (induction lid S xs rule: accepted.induct)
  case (2 lid S x xs)
  then show ?case by (cases x) (auto simp: accepts_def split: if_splits)
qed simp

lemma answeredI:
  assumes "accepted lid S xs = ms" "send_id ` set ms = S" "\<forall>m\<in>set ms. wf_push (the_request_msg m)"
    and "length (concat (map (\<lambda>m. rq_keys (the_request_msg m)) ms)) \<le> 100"
  shows "answered lid S xs"
proof -
  have "\<exists>m. Some m \<in> set xs \<and> send_id m = s \<and> accepts lid {s} m" if "s \<in> S" for s
  proof -
    from that assms(2) obtain m where "m \<in> set ms" "send_id m = s" by auto
    with accepted_arrived [of m lid S xs] assms(1) show ?thesis by (auto simp: accepts_def)
  qed
  with assms show ?thesis by (simp add: answered_def)
qed

lemma accepted_each:
  assumes "distinct (map send_id ms)" "\<forall>m\<in>set ms. accepts lid {send_id m} m" "S = send_id ` set ms"
  shows "accepted lid S (map Some ms) = ms" "unread lid S (map Some ms) = []"
proof -
  have "accepted lid S (map Some ms) = ms \<and> unread lid S (map Some ms) = []"
    using assms
  proof (induction ms arbitrary: S)
    case (Cons m ms)
    then have "accepts lid S m" "S - {send_id m} = send_id ` set ms" by (auto simp: accepts_def)
    with Cons show ?case by auto
  qed simp
  then show "accepted lid S (map Some ms) = ms" "unread lid S (map Some ms) = []" by simp_all
qed

text \<open>The message \<open>m\<close> is the answer to the request \<open>x\<close>: its sender was asked, and it has the keys asked for.\<close>

definition answers :: "int \<Rightarrow> int \<times> 'v Message \<Rightarrow> 'v Message \<Rightarrow> bool" where
  "answers lid x m \<longleftrightarrow> accepts lid {fst x} m \<and> wf_push (the_request_msg m) \<and>
     rq_keys (the_request_msg m) = rq_keys (the_request_msg (snd x))"

text \<open>One answer to each of several requests, whose receivers differ, in any order.\<close>

lemma answers_in_any_order:
  assumes "distinct (map fst out)" "\<forall>x\<in>set out. answers lid x (reply x)"
    and "mset incoming = mset (map (\<lambda>x. Some (reply x)) out)"
    and "length (concat (map (\<lambda>x. rq_keys (the_request_msg (snd x))) out)) \<le> 100"
  shows "answered lid (fst ` set out) incoming" "unread lid (fst ` set out) incoming = []"
    and "mset (accepted lid (fst ` set out) incoming) = mset (map reply out)"
proof -
  define ms where "ms = map the incoming"
  have some: "\<forall>x\<in>set incoming. x \<noteq> None" using mset_eq_setD [OF assms(3)] by auto
  have incoming: "incoming = map Some ms"
    unfolding ms_def map_map by (rule map_idI [symmetric]) (use some in auto)
  have "mset ms = image_mset the (mset incoming)" by (simp add: ms_def)
  then have ms: "mset ms = mset (map reply out)" by (simp add: assms(3) image_mset.compositionality comp_def)
  have sender: "send_id (reply x) = fst x" "rq_keys (the_request_msg (reply x)) = rq_keys (the_request_msg (snd x))"
    if "x \<in> set out" for x
    using assms(2) that by (auto simp: answers_def accepts_def)
  have "mset (map send_id ms) = mset (map send_id (map reply out))" using ms by (metis mset_map)
  also have "map send_id (map reply out) = map fst out" using sender by simp
  finally have ids: "mset (map send_id ms) = mset (map fst out)" .
  have "distinct (map send_id ms)" using ids assms(1) by (metis mset_eq_imp_distinct_iff)
  moreover have set: "set ms = reply ` set out" using mset_eq_setD [OF ms] by simp
  moreover have "\<forall>m\<in>set ms. accepts lid {send_id m} m"
    using assms(2) sender(1) by (auto simp: set answers_def)
  moreover have S: "fst ` set out = send_id ` set ms"
    unfolding set image_image by (rule image_cong) (simp_all add: sender(1))
  ultimately have acc: "accepted lid (fst ` set out) incoming = ms" "unread lid (fst ` set out) incoming = []"
    using accepted_each [of ms lid "fst ` set out"] by (simp_all add: incoming)
  then show "unread lid (fst ` set out) incoming = []"
    "mset (accepted lid (fst ` set out) incoming) = mset (map reply out)" using ms by simp_all
  have "mset (map (\<lambda>m. length (rq_keys (the_request_msg m))) ms) =
      mset (map (\<lambda>m. length (rq_keys (the_request_msg m))) (map reply out))"
    using ms by (metis mset_map)
  also have "map (\<lambda>m. length (rq_keys (the_request_msg m))) (map reply out) =
      map (\<lambda>x. length (rq_keys (the_request_msg (snd x)))) out"
    using sender(2) by simp
  finally have "sum_list (map (\<lambda>m. length (rq_keys (the_request_msg m))) ms) =
      sum_list (map (\<lambda>x. length (rq_keys (the_request_msg (snd x)))) out)"
    by (metis sum_mset_sum_list)
  then have "length (concat (map (\<lambda>m. rq_keys (the_request_msg m)) ms)) \<le> 100"
    using assms(4) by (simp add: length_concat comp_def)
  moreover have "\<forall>m\<in>set ms. wf_push (the_request_msg m)" using assms(2) by (auto simp: set answers_def)
  moreover have "\<exists>m. Some m \<in> set incoming \<and> send_id m = i \<and> accepts lid {i} m" if "i \<in> fst ` set out" for i
  proof -
    from that obtain x where x: "x \<in> set out" "i = fst x" by auto
    have "Some (reply x) \<in> set incoming" using x(1) by (simp add: incoming set)
    moreover have "send_id (reply x) = i" "accepts lid {i} (reply x)"
      using x sender(1) [OF x(1)] assms(2) by (auto simp: answers_def)
    ultimately show ?thesis by blast
  qed
  ultimately show "answered lid (fst ` set out) incoming"
    unfolding answered_def acc(1) by blast
qed

text \<open>
  C9: \<open>Pull\<close> asks for every key exactly once, and collects one reply of each server asked. The
  keys of its requests, put together, are the worker's keys in sorted order, and each request goes to
  the owner of its keys. Whatever else arrives, if every server that was asked sends an acceptable
  reply, then \<open>Pull\<close> returns, and the parameters it leaves are exactly the pairs of the accepted
  replies, one of each server asked, in the order of their arrival (as long as they fit the 100
  places). These are all the replies, and the parameters have exactly the keys of the worker, when
  the keys do not lie on both sides of the wrap-around and every request is answered, in any order.
\<close>

theorem Pull_collects:
  assumes ag: "wf_agent ag" and req: "wf_request ag (ag_parameters ag)"
  shows "\<exists>out. concat (map (\<lambda>x. rq_keys (the_request_msg (snd x))) out) =
      sort (shm_prefix (ag_parameters ag)) \<and>
    (\<forall>x\<in>set out. routed ag RequestType_key x) \<and> fst ` set out = asked ag (ag_parameters ag) \<and>
    (\<forall>incoming. let ms = accepted (ag_local_id ag) (asked ag (ag_parameters ag)) incoming in
      answered (ag_local_id ag) (asked ag (ag_parameters ag)) incoming \<longrightarrow>
      (\<exists>ag'. Pull incoming ag = Some (Inr (ag', out,
          unread (ag_local_id ag) (asked ag (ag_parameters ag)) incoming)) \<and>
        shm_pairs (ag_parameters ag') = concat (map (\<lambda>m. request_pairs (the_request_msg m)) ms) \<and>
        distinct (map send_id ms) \<and> send_id ` set ms = asked ag (ag_parameters ag))) \<and>
    (one_sided (ag_partition ag) (shm_prefix (ag_parameters ag)) \<and> distinct (ag_server_ids ag) \<longrightarrow>
      (\<forall>reply incoming. (\<forall>x\<in>set out. answers (ag_local_id ag) x (reply x)) \<and>
          mset incoming = mset (map (\<lambda>x. Some (reply x)) out) \<longrightarrow>
        (\<exists>ag'. Pull incoming ag = Some (Inr (ag', out, [])) \<and>
          mset (shm_pairs (ag_parameters ag')) = mset (concat (map (\<lambda>x. request_pairs (the_request_msg (reply x))) out)) \<and>
          mset (shm_prefix (ag_parameters ag')) = mset (shm_prefix (ag_parameters ag)))))"
proof -
  let ?S = "asked ag (ag_parameters ag)" and ?pre = "shm_prefix (ag_parameters ag)"
  from Pull_collected [OF assms] obtain out where
    out: "concat (map (\<lambda>x. rq_keys (the_request_msg (snd x))) out) = sort ?pre"
      "\<forall>x\<in>set out. routed ag RequestType_key x" "fst ` set out = ?S" "cut_at_wrap ag ?pre out"
    and pull: "\<And>incoming. answered (ag_local_id ag) ?S incoming \<Longrightarrow>
      \<exists>d. Pull incoming ag = Some (Inr (ag\<lparr>ag_parameters := d\<rparr>, out, unread (ag_local_id ag) ?S incoming)) \<and>
        wf_shm d \<and> shm_pairs d = concat (map (\<lambda>m. request_pairs (the_request_msg m))
          (accepted (ag_local_id ag) ?S incoming))"
    by blast
  have first: "\<exists>ag'. Pull incoming ag = Some (Inr (ag', out, unread (ag_local_id ag) ?S incoming)) \<and>
      shm_pairs (ag_parameters ag') = concat (map (\<lambda>m. request_pairs (the_request_msg m))
        (accepted (ag_local_id ag) ?S incoming)) \<and>
      distinct (map send_id (accepted (ag_local_id ag) ?S incoming)) \<and>
      send_id ` set (accepted (ag_local_id ag) ?S incoming) = ?S \<and> wf_shm (ag_parameters ag')"
    if "answered (ag_local_id ag) ?S incoming" for incoming
    using pull [OF that] distinct_accepted accepted_all [of ?S incoming] that by (auto simp: answered_def)
  have second: "\<exists>ag'. Pull incoming ag = Some (Inr (ag', out, [])) \<and>
      mset (shm_pairs (ag_parameters ag')) = mset (concat (map (\<lambda>x. request_pairs (the_request_msg (reply x))) out)) \<and>
      mset (shm_prefix (ag_parameters ag')) = mset ?pre"
    if one: "one_sided (ag_partition ag) ?pre" "distinct (ag_server_ids ag)"
      and reply: "\<forall>x\<in>set out. answers (ag_local_id ag) x (reply x)"
      and incoming: "mset incoming = mset (map (\<lambda>x. Some (reply x)) out)" for reply incoming
  proof -
    have "length ?pre \<le> 100" using req by (auto simp: wf_request_def shm_prefix_def min_le_iff_disj nat_le_iff)
    then have fits: "length (concat (map (\<lambda>x. rq_keys (the_request_msg (snd x))) out)) \<le> 100" by (simp add: out(1))
    have dist: "distinct (map fst out)" using out(4) one by (simp add: cut_at_wrap_def)
    note ans = answers_in_any_order [OF dist reply incoming fits, unfolded out(3)]
    obtain ag' where ag': "Pull incoming ag = Some (Inr (ag', out, []))"
        "shm_pairs (ag_parameters ag') = concat (map (\<lambda>m. request_pairs (the_request_msg m))
          (accepted (ag_local_id ag) ?S incoming))"
        "wf_shm (ag_parameters ag')"
      using first [OF ans(1)] ans(2) by auto
    have pairs: "mset (shm_pairs (ag_parameters ag')) =
        mset (concat (map (\<lambda>x. request_pairs (the_request_msg (reply x))) out))"
      unfolding ag'(2) using ans(3) by (rule mset_concat_map)
    have "mset (shm_prefix (ag_parameters ag')) = mset (map fst (shm_pairs (ag_parameters ag')))"
      using ag'(3) by (simp add: shm_pairs_keys)
    also have "\<dots> = mset (map fst (concat (map (\<lambda>x. request_pairs (the_request_msg (reply x))) out)))"
      using pairs by (metis mset_map)
    also have "map fst (concat (map (\<lambda>x. request_pairs (the_request_msg (reply x))) out)) =
        concat (map (\<lambda>x. map fst (request_pairs (the_request_msg (reply x)))) out)"
      by (simp add: map_concat comp_def)
    also have "map (\<lambda>x. map fst (request_pairs (the_request_msg (reply x)))) out =
        map (\<lambda>x. rq_keys (the_request_msg (snd x))) out"
      using reply by (simp add: answers_def request_pairs_keys)
    finally show ?thesis using ag'(1) pairs by (auto simp: out(1))
  qed
  show ?thesis
  proof (intro exI [of _ out] conjI allI impI)
    fix incoming
    show "let ms = accepted (ag_local_id ag) ?S incoming in answered (ag_local_id ag) ?S incoming \<longrightarrow>
      (\<exists>ag'. Pull incoming ag = Some (Inr (ag', out, unread (ag_local_id ag) ?S incoming)) \<and>
        shm_pairs (ag_parameters ag') = concat (map (\<lambda>m. request_pairs (the_request_msg m)) ms) \<and>
        distinct (map send_id ms) \<and> send_id ` set ms = ?S)"
      using first [of incoming] by (auto simp: Let_def)
  qed (use out second in blast)+
qed

text \<open>A reply of a server to agent 3, and a server whose parameters are ten times their keys.\<close>

definition example_reply :: "int \<Rightarrow> int list \<Rightarrow> int list \<Rightarrow> int Message" where
  "example_reply sid ks vs = new_Message\<lparr>message_type := Message_MessageType_request,
     send_id := sid, recv_id := 3,
     request_msg := Some \<lparr> request_type = RequestType_key_value, rq_keys = ks, rq_values = vs \<rparr>\<rparr>"

definition example_answer :: "int \<times> int Message \<Rightarrow> int Message" where
  "example_answer x = (let ks = rq_keys (the_request_msg (snd x)) in example_reply (fst x) ks (map ((*) 10) ks))"

lemma example_agent_wf:
  "wf_agent example_agent" "wf_request example_agent (ag_parameters example_agent)"
  by (simp_all add: wf_agent_def wf_partition_def example_agent_def in_i32_iff wf_request_def
      wf_shm_def shm_prefix_def numeral_eq_Suc)

text \<open>The worker of this agent pulls a key of each server.\<close>

definition example_pull_memory :: "int shmstruct" where
  "example_pull_memory = \<lparr> shm_size = 2, shm_values = replicate 100 0, shm_keys = 7 # 3 # replicate 98 0 \<rparr>"

definition example_puller :: "int agent" where
  "example_puller = example_agent\<lparr>ag_parameters := example_pull_memory\<rparr>"

lemma example_pull_request:
  "wf_request example_agent example_pull_memory" "shm_prefix example_pull_memory = [7, 3]"
  by (simp_all add: wf_request_def wf_shm_def shm_prefix_def example_agent_def example_pull_memory_def numeral_eq_Suc)

lemma example_asked: "asked example_agent example_pull_memory = {2, 1}"
proof -
  have "owner example_agent 7 = 2" "owner example_agent 3 = 1" by code_simp+
  then show ?thesis by (simp add: asked_def example_pull_request(2))
qed

lemma example_answers: "routed example_agent RequestType_key x \<Longrightarrow> rq_keys (the_request_msg (snd x)) = ks \<Longrightarrow>
    length ks \<le> 100 \<Longrightarrow> answers 3 x (example_answer x)"
  by (auto simp: answers_def accepts_def example_answer_def example_reply_def wf_push_def in_i32_iff Let_def)

theorem Pull_collects_witness:
  "\<exists>out ag' ag''. concat (map (\<lambda>x. rq_keys (the_request_msg (snd x))) out) = [3, 7] \<and>
     Pull [None, Some (example_reply 2 [7] [71]), Some (example_reply 9 [5] [0]), Some (example_reply 1 [3] [31]),
         Some (example_reply 1 [4] [41])] example_puller =
       Some (Inr (ag', out, [Some (example_reply 1 [4] [41])])) \<and>
     shm_pairs (ag_parameters ag') = [(7, 71), (3, 31)] \<and>
     Pull (rev (map (\<lambda>x. Some (example_answer x)) out)) example_puller = Some (Inr (ag'', out, [])) \<and>
     mset (shm_pairs (ag_parameters ag'')) = {#(3, 30), (7, 70)#}"
proof -
  let ?in = "[None, Some (example_reply 2 [7] [71]), Some (example_reply 9 [5] [0]), Some (example_reply 1 [3] [31]),
      Some (example_reply 1 [4] [41])]"
  have sel: "ag_parameters example_puller = example_pull_memory" "ag_local_id example_puller = 3"
      "ag_partition example_puller = ag_partition example_agent" "distinct (ag_server_ids example_puller)"
    by (simp_all add: example_puller_def example_agent_def)
  have "owner example_puller = owner example_agent"
    by (intro ext) (auto simp: owner_def example_puller_def split: sum.split)
  then have asked: "asked example_puller example_pull_memory = {2, 1}"
    using example_asked by (simp add: asked_def)
  have routed: "routed example_puller = routed example_agent"
    by (simp add: routed_def fun_eq_iff example_puller_def)
  have wf: "wf_agent example_puller" "wf_request example_puller (ag_parameters example_puller)"
    using example_agent_wf(1) example_pull_request(1) by (simp_all add: wf_agent_def wf_request_def example_puller_def)
  have one: "one_sided (ag_partition example_agent) [7, 3]" by (simp add: one_sided_def example_agent_def)
  have "sort [7, 3 :: int] = [3, 7]" by simp
  note collects = Pull_collects [OF wf, unfolded sel(1-3) example_pull_request(2) asked routed this]
  have acc: "accepted 3 {2, 1} ?in = [example_reply 2 [7] [71], example_reply 1 [3] [31]]"
    "unread 3 {2, 1} ?in = [Some (example_reply 1 [4] [41])]"
    by (simp_all add: accepts_def example_reply_def)
  have ans: "answered 3 {2, 1} ?in"
    by (rule answeredI [OF acc(1)]) (simp_all add: example_reply_def wf_push_def in_i32_iff)
  from collects obtain out where
    out: "concat (map (\<lambda>x. rq_keys (the_request_msg (snd x))) out) = [3, 7]"
      "\<forall>x\<in>set out. routed example_agent RequestType_key x"
    and each: "\<And>incoming. answered 3 {2, 1} incoming \<Longrightarrow>
      \<exists>ag'. Pull incoming example_puller = Some (Inr (ag', out, unread 3 {2, 1} incoming)) \<and>
        shm_pairs (ag_parameters ag') = concat (map (\<lambda>m. request_pairs (the_request_msg m)) (accepted 3 {2, 1} incoming))"
    and any: "\<And>reply incoming. \<forall>x\<in>set out. answers 3 x (reply x) \<Longrightarrow>
        mset incoming = mset (map (\<lambda>x. Some (reply x)) out) \<Longrightarrow>
      \<exists>ag''. Pull incoming example_puller = Some (Inr (ag'', out, [])) \<and>
        mset (shm_pairs (ag_parameters ag'')) = mset (concat (map (\<lambda>x. request_pairs (the_request_msg (reply x))) out))"
    unfolding Let_def using one sel(4) by (elim exE conjE) (rule that, assumption, assumption, blast, blast)
  from each [OF ans] obtain ag' where
    first: "Pull ?in example_puller = Some (Inr (ag', out, [Some (example_reply 1 [4] [41])]))"
      "shm_pairs (ag_parameters ag') = concat (map (\<lambda>m. request_pairs (the_request_msg m))
        [example_reply 2 [7] [71], example_reply 1 [3] [31]])"
    unfolding acc by (elim exE conjE)
  have "length (rq_keys (the_request_msg (snd x))) \<le> 2" if "x \<in> set out" for x
    using arg_cong [OF out(1), of length] member_le_sum_list [of "length (rq_keys (the_request_msg (snd x)))"
        "map (\<lambda>x. length (rq_keys (the_request_msg (snd x)))) out"] that
    by (simp add: length_concat comp_def)
  then have "\<forall>x\<in>set out. answers 3 x (example_answer x)" using out(2) example_answers by fastforce
  from any [OF this, of "rev (map (\<lambda>x. Some (example_answer x)) out)"] obtain ag'' where
    second: "Pull (rev (map (\<lambda>x. Some (example_answer x)) out)) example_puller = Some (Inr (ag'', out, []))"
      "mset (shm_pairs (ag_parameters ag'')) = mset (concat (map (\<lambda>x. request_pairs (the_request_msg (example_answer x))) out))"
    by auto
  have "request_pairs (the_request_msg (example_answer x)) = map (\<lambda>k. (k, 10 * k)) (rq_keys (the_request_msg (snd x)))" for x
    by (simp add: example_answer_def example_reply_def request_pairs_def Let_def zip_map2 zip_same_conv_map)
  then have "concat (map (\<lambda>x. request_pairs (the_request_msg (example_answer x))) out) =
      map (\<lambda>k. (k, 10 * k)) (concat (map (\<lambda>x. rq_keys (the_request_msg (snd x))) out))"
    by (simp add: map_concat comp_def)
  then have "mset (shm_pairs (ag_parameters ag'')) = {#(3, 30), (7, 70)#}" using second(2) out(1) by simp
  moreover have "shm_pairs (ag_parameters ag') = [(7, 71), (3, 31)]"
    using first(2) by (simp add: example_reply_def request_pairs_def)
  ultimately show ?thesis using out(1) first(1) second(1) by blast
qed

section \<open>Keys on both sides\<close>

text \<open>The last server owns the keys below the first hash value and those from its own hash value on.\<close>

lemma owner_last:
  assumes ag: "wf_agent ag" and k: "0 \<le> k" "k < part_key_range (ag_partition ag)"
    and side: "k < part_vec (ag_partition ag) ! 0 \<or> last (part_vec (ag_partition ag)) \<le> k"
  shows "owner ag k = last (ag_server_ids ag)"
proof -
  let ?v = "part_vec (ag_partition ag)"
  have v: "?v \<noteq> []" "length (ag_server_ids ag) = length ?v" "ag_server_ids ag \<noteq> []"
    using ag by (auto simp: wf_agent_def wf_partition_def)
  have n: "nat (int (length ?v) - 1) = length ?v - 1" by linarith
  have "last ?v = ?v ! (length ?v - 1)" by (rule last_conv_nth [OF v(1)])
  with side have "owns (ag_partition ag) (int (length ?v) - 1) k"
    unfolding owns_def Let_def n using v(1) k by (simp add: Suc_leI) linarith
  from owner_owns [OF ag k this] show ?thesis by (simp only: n last_conv_nth [OF v(3)] v(2))
qed

text \<open>A reply to one request: all its keys belong to its sender and lie on one side.\<close>

definition one_reply :: "'v agent \<Rightarrow> 'v Message \<Rightarrow> bool" where
  "one_reply ag m \<longleftrightarrow> one_sided (ag_partition ag) (rq_keys (the_request_msg m)) \<and>
     (\<forall>k\<in>set (rq_keys (the_request_msg m)). owner ag k = send_id m)"

text \<open>
  C37: keys of the last server on both sides of the wrap-around are lost by \<open>Pull\<close>. Whenever the
  worker asks for a key below the first hash value and for one from the last hash value on,
  \<open>Pull\<close> sends two requests to the last server, one with the lower and one with the higher key;
  but it goes on when it has one reply of each server, so that, whatever replies to single requests
  arrive in whatever order, it returns without the lower or without the higher key.
\<close>

theorem Pull_loses_wrapped_block:
  assumes ag: "wf_agent ag" and req: "wf_request ag (ag_parameters ag)"
    and low: "low \<in> set (shm_prefix (ag_parameters ag))" "low < part_vec (ag_partition ag) ! 0"
    and high: "high \<in> set (shm_prefix (ag_parameters ag))" "last (part_vec (ag_partition ag)) \<le> high"
  shows "\<exists>out. (\<exists>x\<in>set out. \<exists>y\<in>set out. x \<noteq> y \<and>
      fst x = last (ag_server_ids ag) \<and> low \<in> set (rq_keys (the_request_msg (snd x))) \<and>
      fst y = last (ag_server_ids ag) \<and> high \<in> set (rq_keys (the_request_msg (snd y)))) \<and>
    (\<forall>x\<in>set out. one_sided (ag_partition ag) (rq_keys (the_request_msg (snd x)))) \<and>
    (\<forall>incoming. answered (ag_local_id ag) (asked ag (ag_parameters ag)) incoming \<and>
        (\<forall>m. Some m \<in> set incoming \<longrightarrow> one_reply ag m) \<longrightarrow>
      (\<exists>ag' rest. Pull incoming ag = Some (Inr (ag', out, rest)) \<and>
        (low \<notin> set (shm_prefix (ag_parameters ag')) \<or> high \<notin> set (shm_prefix (ag_parameters ag')))))"
proof -
  let ?S = "asked ag (ag_parameters ag)" and ?v = "part_vec (ag_partition ag)"
  let ?keys = "\<lambda>x. rq_keys (the_request_msg (snd x))"
  from Pull_collected [OF ag req] obtain out where
    out: "concat (map ?keys out) = sort (shm_prefix (ag_parameters ag))"
      "\<forall>x\<in>set out. routed ag RequestType_key x" "cut_at_wrap ag (shm_prefix (ag_parameters ag)) out"
    and pull: "\<And>incoming. answered (ag_local_id ag) ?S incoming \<Longrightarrow>
      \<exists>d. Pull incoming ag = Some (Inr (ag\<lparr>ag_parameters := d\<rparr>, out, unread (ag_local_id ag) ?S incoming)) \<and>
        wf_shm d \<and> shm_pairs d = concat (map (\<lambda>m. request_pairs (the_request_msg m))
          (accepted (ag_local_id ag) ?S incoming))"
    by blast
  have range: "0 \<le> low" "low < part_key_range (ag_partition ag)" "0 \<le> high" "high < part_key_range (ag_partition ag)"
    using req low(1) high(1) by (auto simp: wf_request_def)
  have own: "owner ag low = last (ag_server_ids ag)" "owner ag high = last (ag_server_ids ag)"
    using owner_last [OF ag] range low(2) high(2) by auto
  have v: "?v \<noteq> []" "sorted ?v" using ag by (auto simp: wf_agent_def wf_partition_def)
  then have "?v ! 0 \<le> last ?v" by (auto simp: last_conv_nth intro!: sorted_nth_mono)
  then have apart: "\<not> (low \<in> set ks \<and> high \<in> set ks)" if "one_sided (ag_partition ag) ks" for ks
    using that low(2) high(2) by (auto simp: one_sided_def)
  have one: "\<forall>x\<in>set out. one_sided (ag_partition ag) (?keys x)" using out(3) by (simp add: cut_at_wrap_def)
  have request: "\<exists>x\<in>set out. k \<in> set (?keys x) \<and> fst x = owner ag k" if "k \<in> set (shm_prefix (ag_parameters ag))" for k
  proof -
    have "k \<in> set (concat (map ?keys out))" using that by (simp add: out(1))
    then obtain x where x: "x \<in> set out" "k \<in> set (?keys x)" by auto
    then obtain i where i: "fst x = ag_server_ids ag ! i" "owns (ag_partition ag) (int i) k"
      using bspec [OF out(2) x(1)] by (cases x) (auto simp: routed_def)
    have "0 \<le> k" "k < part_key_range (ag_partition ag)" using req that by (auto simp: wf_request_def)
    with owner_owns [OF ag _ _ i(2)] i(1) x show ?thesis by auto
  qed
  have two: "\<exists>x\<in>set out. \<exists>y\<in>set out. x \<noteq> y \<and> fst x = last (ag_server_ids ag) \<and> low \<in> set (?keys x) \<and>
      fst y = last (ag_server_ids ag) \<and> high \<in> set (?keys y)"
    using request [OF low(1)] request [OF high(1)] own one apart by metis
  have lost: "\<exists>ag' rest. Pull incoming ag = Some (Inr (ag', out, rest)) \<and>
      (low \<notin> set (shm_prefix (ag_parameters ag')) \<or> high \<notin> set (shm_prefix (ag_parameters ag')))"
    if inc: "answered (ag_local_id ag) ?S incoming" "\<forall>m. Some m \<in> set incoming \<longrightarrow> one_reply ag m" for incoming
  proof -
    let ?ms = "accepted (ag_local_id ag) ?S incoming"
    from pull [OF inc(1)] obtain d where
      d: "Pull incoming ag = Some (Inr (ag\<lparr>ag_parameters := d\<rparr>, out, unread (ag_local_id ag) ?S incoming))"
        "wf_shm d" "shm_pairs d = concat (map (\<lambda>m. request_pairs (the_request_msg m)) ?ms)"
      by blast
    have reply: "one_reply ag m" "wf_push (the_request_msg m)" if "m \<in> set ?ms" for m
      using accepted_arrived [OF that] inc that by (auto simp: answered_def)
    have "shm_prefix d = map fst (shm_pairs d)" using d(2) by (simp add: shm_pairs_keys)
    also have "\<dots> = concat (map (\<lambda>m. rq_keys (the_request_msg m)) ?ms)"
      unfolding d(3) using reply(2) by (simp add: map_concat comp_def request_pairs_keys cong: map_cong)
    finally have keys: "set (shm_prefix d) = (\<Union>m\<in>set ?ms. set (rq_keys (the_request_msg m)))" by simp
    have "\<not> (low \<in> set (shm_prefix d) \<and> high \<in> set (shm_prefix d))"
    proof
      assume "low \<in> set (shm_prefix d) \<and> high \<in> set (shm_prefix d)"
      then obtain m m' where m: "m \<in> set ?ms" "low \<in> set (rq_keys (the_request_msg m))"
          "m' \<in> set ?ms" "high \<in> set (rq_keys (the_request_msg m'))"
        by (auto simp: keys)
      then have "send_id m = send_id m'" using reply(1) own by (auto simp: one_reply_def)
      moreover have "inj_on send_id (set ?ms)" using distinct_accepted distinct_map by blast
      ultimately have "m = m'" using m(1,3) by (meson inj_onD)
      with m reply(1) [OF m(1)] apart show False by (auto simp: one_reply_def)
    qed
    with d(1) show ?thesis by (intro exI [of _ "ag\<lparr>ag_parameters := d\<rparr>"]) auto
  qed
  show ?thesis using two one lost by (intro exI [of _ out]) blast
qed

theorem Pull_loses_wrapped_block_witness:
  "\<exists>out ag' rest. (\<exists>x\<in>set out. \<exists>y\<in>set out. x \<noteq> y \<and> fst x = 2 \<and> fst y = 2) \<and>
     Pull [Some (example_reply 2 [7] [6]), Some (example_reply 2 [0] [5])] example_agent = Some (Inr (ag', out, rest)) \<and>
     (0 \<notin> set (shm_prefix (ag_parameters ag')) \<or> 7 \<notin> set (shm_prefix (ag_parameters ag')))"
proof -
  let ?in = "[Some (example_reply 2 [7] [6]), Some (example_reply 2 [0] [5])]"
  have pre: "shm_prefix (ag_parameters example_agent) = [7, 0]"
    by (simp add: shm_prefix_def example_agent_def numeral_eq_Suc)
  have own: "owner example_agent 7 = 2" "owner example_agent 0 = 2" by code_simp+
  then have asked: "asked example_agent (ag_parameters example_agent) = {2}" by (simp add: asked_def pre)
  have sel: "ag_local_id example_agent = 3" "part_vec (ag_partition example_agent) = [2, 6]"
      "last (ag_server_ids example_agent) = 2"
    by (simp_all add: example_agent_def)
  have acc: "accepted 3 {2} ?in = [example_reply 2 [7] [6]]" by (simp add: accepts_def example_reply_def)
  have ans: "answered 3 {2} ?in"
    by (rule answeredI [OF acc]) (simp_all add: example_reply_def wf_push_def in_i32_iff)
  have "one_reply example_agent (example_reply 2 [7] [6])" "one_reply example_agent (example_reply 2 [0] [5])"
    using own sel(2) by (simp_all add: one_reply_def one_sided_def example_reply_def)
  then have single: "\<forall>m. Some m \<in> set ?in \<longrightarrow> one_reply example_agent m" by simp
  have mem: "(0::int) \<in> set [7, 0]" "(0::int) < [2, 6] ! 0" "(7::int) \<in> set [7, 0]" "last [2, 6] \<le> (7::int)" by simp_all
  from Pull_loses_wrapped_block [OF example_agent_wf, unfolded pre asked sel, OF mem] obtain out where
    "\<exists>x\<in>set out. \<exists>y\<in>set out. x \<noteq> y \<and> fst x = 2 \<and> fst y = 2"
    and "\<And>incoming. answered 3 {2} incoming \<and> (\<forall>m. Some m \<in> set incoming \<longrightarrow> one_reply example_agent m) \<Longrightarrow>
      \<exists>ag' rest. Pull incoming example_agent = Some (Inr (ag', out, rest)) \<and>
        (0 \<notin> set (shm_prefix (ag_parameters ag')) \<or> 7 \<notin> set (shm_prefix (ag_parameters ag')))"
    by (elim exE conjE) (rule that, blast, blast)
  from this(1) this(2) [OF conjI [OF ans single]] show ?thesis by blast
qed

section \<open>Configuration\<close>

lemma Agent_Initialize_wf:
  assumes "config_msg m = Some cfg" "ip \<noteq> []"
    and "cf_server_num cfg = int (length (cf_server_id cfg))" "1 \<le> cf_server_num cfg"
    and "cf_partition cfg = pv" "length pv = length (cf_server_id cfg)" "sorted pv"
    and "\<forall>x\<in>set pv. 0 \<le> x \<and> x < cf_key_range cfg"
    and "in_i32 (cf_server_num cfg)" "in_i32 (cf_key_range cfg)"
    and "\<forall>s\<in>set (cf_server_id cfg). 0 \<le> s \<and> s < int (length (cf_node_ip_port cfg))"
  shows "\<exists>ag' out. Agent_Initialize ip zero objects (Some m) pf gf pm gm master port ag =
      Inr (True, ag', out) \<and> wf_agent ag' \<and> ag_local_id ag' = recv_id m \<and>
    ag_server_ids ag' = cf_server_id cfg \<and> part_vec (ag_partition ag') = pv \<and>
    part_key_range (ag_partition ag') = cf_key_range cfg \<and> ag_reconfig_msg ag' = None \<and>
    ag_epoch_num ag' = 0 \<and>
    (\<forall>s\<in>set (cf_server_id cfg). id_to_addr (ag_sender ag') s \<noteq> None)"
proof -
  let ?sids = "cf_server_id cfg"
  let ?body = "\<lambda>sid ag. bind_res (vec_get (cf_node_ip_port cfg) sid) (\<lambda>addr.
      Inr (ag\<lparr>ag_server_ids := ag_server_ids ag @ [sid],
              ag_sender := snd (AddIdAddr sid addr (ag_sender ag))\<rparr>))"
  let ?g = "\<lambda>sid ag. ag\<lparr>ag_server_ids := ag_server_ids ag @ [sid],
      ag_sender := snd (AddIdAddr sid (cf_node_ip_port cfg ! nat sid) (ag_sender ag))\<rparr>"
  have loop: "fold_res (\<lambda>i ag. bind_res (vec_get ?sids i) (\<lambda>sid. ?body sid ag))
      [0..cf_server_num cfg - 1] a = Inr (fold ?g ?sids a)" for a :: "'a agent"
  proof -
    have "fold_res (\<lambda>i ag. bind_res (vec_get ?sids i) (\<lambda>sid. ?body sid ag))
        [0..int (length ?sids) - 1] a = fold_res ?body ?sids a" by (rule fold_res_nth) simp
    also have "\<dots> = Inr (fold ?g ?sids a)"
      by (rule conjunct1, rule fold_res_pure [of "\<lambda>_. True"]) (use assms(11) in simp_all)
    finally show ?thesis using assms(3) by simp
  qed
  have fold: "ag_server_ids (fold ?g sids a) = ag_server_ids a @ sids \<and>
      (\<forall>s\<in>set sids. id_to_addr (ag_sender (fold ?g sids a)) s \<noteq> None) \<and>
      (\<forall>s. id_to_addr (ag_sender a) s \<noteq> None \<longrightarrow> id_to_addr (ag_sender (fold ?g sids a)) s \<noteq> None) \<and>
      ag_server_num (fold ?g sids a) = ag_server_num a \<and> ag_key_range (fold ?g sids a) = ag_key_range a \<and>
      ag_local_id (fold ?g sids a) = ag_local_id a \<and> ag_partition (fold ?g sids a) = ag_partition a"
    for sids and a :: "'a agent"
    by (induction sids arbitrary: a) (auto simp: AddIdAddr_def)
  have "Partition_Initialize_array (cf_key_range cfg) (cf_server_num cfg) pv p =
      Inr (p\<lparr>part_key_range := cf_key_range cfg, part_server_num := cf_server_num cfg, part_vec := pv\<rparr>)" for p
    using map_res_slice [of 0 "cf_server_num cfg" pv] assms(3,4,6)
    by (simp add: Partition_Initialize_array_def)
  moreover have "ExtractSubrange pv (cf_server_num cfg) = Inr pv"
    using assms(3,4,6) by (simp add: ExtractSubrange_def)
  moreover have "wf_partition (p\<lparr>part_key_range := cf_key_range cfg, part_server_num := cf_server_num cfg,
      part_vec := pv\<rparr>)" for p
    using assms by (auto simp: wf_partition_def)
  ultimately show ?thesis
    using assms(1,2,5,6) loop fold
    by (simp add: Agent_Initialize_def Let_def wf_agent_def)
qed

text \<open>
  The master sends one hash value per server, and \<open>Initialize\<close> reads that many; \<open>Reconfigurate\<close>
  extracts \<open>server_num + 1\<close> of them, which is outside the field for every configuration the
  master produces.
\<close>

lemma map_res_vec_get_out:
  "i \<in> set is \<Longrightarrow> i < 0 \<or> int (length xs) \<le> i \<Longrightarrow> map_res (vec_get xs) is = Inl OutOfBounds"
proof (induction "is")
  case (Cons j "is")
  then show ?case
    by (cases "j < 0 \<or> int (length xs) \<le> j") (auto simp: vec_get_out)
qed simp

lemma Reconfigurate_fault:
  assumes "config_msg m = Some cfg" "length (cf_partition cfg) = length (cf_server_id cfg)"
    and "int (length (cf_server_id cfg)) \<le> cf_server_num cfg" "in_i32 (cf_server_num cfg + 1)"
  shows "Reconfigurate zmq_close m ag = Inl OutOfBounds"
proof (cases "int (length (cf_server_id cfg)) = cf_server_num cfg")
  case True
  then show ?thesis
    using assms map_res_slice [of 0 "cf_server_num cfg" "cf_server_id cfg"]
    by (simp add: Reconfigurate_def ExtractSubrange_def Let_def)
next
  case False
  then have "map_res (vec_get (cf_server_id cfg)) [0..cf_server_num cfg - 1] = Inl OutOfBounds"
    using assms(3) by (intro map_res_vec_get_out [of "int (length (cf_server_id cfg))"]) auto
  then show ?thesis using assms(1) by (simp add: Reconfigurate_def Let_def)
qed

end
