(* ===== verification/Task_Config.thy ===== *)
theory Task_Config
  imports Messages Communicator
begin

text \<open>
  The configuration that the master keeps (\<open>src/master/task_config.h\<close>,
  \<open>src/master/task_config.cc\<close>). Every node gets the next identifier when it registers; the
  configuration message lists the addresses by identifier. The command line flags and the
  numbers of the random generator are arguments. An \<open>unordered_map\<close> is the list of its pairs
  in iteration order, with distinct keys.
\<close>

section \<open>Hash maps\<close>

text \<open>\<open>m[k] = v\<close>; \<open>m[k]\<close> as a value is \<open>umap_at\<close>, which inserts a default.\<close>

fun umap_set :: "'k \<Rightarrow> 'v \<Rightarrow> ('k \<times> 'v) list \<Rightarrow> ('k \<times> 'v) list" where
  "umap_set k v [] = [(k, v)]"
| "umap_set k v ((k', v') # m) = (if k = k' then (k, v) # m else (k', v') # umap_set k v m)"

definition umap_at :: "'v \<Rightarrow> 'k \<Rightarrow> ('k \<times> 'v) list \<Rightarrow> 'v \<times> ('k \<times> 'v) list" where
  "umap_at dflt k m = (case map_of m k of Some v \<Rightarrow> (v, m) | None \<Rightarrow> (dflt, umap_set k dflt m))"

lemma map_of_umap_set: "map_of (umap_set k v m) = (map_of m)(k \<mapsto> v)"
  by (induction k v m rule: umap_set.induct) (auto simp: fun_eq_iff)

lemma keys_umap_set: "fst ` set (umap_set k v m) = insert k (fst ` set m)"
  by (induction k v m rule: umap_set.induct) auto

lemma distinct_umap_set: "distinct (map fst m) \<Longrightarrow> distinct (map fst (umap_set k v m))"
proof (induction k v m rule: umap_set.induct)
  case (2 k v k' v' m)
  then show ?case using keys_umap_set [of k v m] by (auto simp flip: set_map)
qed simp

lemma umap_set_new: "k \<notin> fst ` set m \<Longrightarrow> umap_set k v m = m @ [(k, v)]"
  by (induction k v m rule: umap_set.induct) auto

section \<open>State and operations\<close>

record task_config =
  tc_worker_num :: int
  tc_server_num :: int
  tc_key_range :: int
  tc_backup_size :: int
  tc_partition :: "int list"
  tc_server_id :: "int list"
  tc_agent_id :: "int list"
  tc_master_id :: "int list"
  tc_id_to_addr :: "(int \<times> string) list"
  tc_bound :: int
  tc_node_id :: int
  tc_config_changed :: bool

definition new_task_config :: task_config where
  "new_task_config = \<lparr> tc_worker_num = 0, tc_server_num = 0, tc_key_range = 0, tc_backup_size = 0,
     tc_partition = [], tc_server_id = [], tc_agent_id = [], tc_master_id = [], tc_id_to_addr = [],
     tc_bound = 0, tc_node_id = 0, tc_config_changed = False \<rparr>"

text \<open>The flags \<open>worker_num\<close>, \<open>server_num\<close>, \<open>key_range\<close>, \<open>bound\<close>, \<open>backup_size\<close>.\<close>

definition TaskConfig_Initialize ::
    "int \<Rightarrow> int \<Rightarrow> int \<Rightarrow> int \<Rightarrow> int \<Rightarrow> task_config \<Rightarrow> task_config" where
  "TaskConfig_Initialize worker_num server_num key_range bound backup_size tc =
     tc\<lparr>tc_worker_num := worker_num, tc_server_num := server_num, tc_key_range := key_range,
        tc_bound := bound, tc_backup_size := backup_size\<rparr>"

text \<open>\<open>set_node_ip_port(i, addr)\<close> on the field filled in the order of the identifiers.\<close>

definition ToMessage :: "task_config \<Rightarrow> ConfigMessage res" where
  "ToMessage tc =
     bind_res (fold_res (\<lambda>(i, addr) xs. vec_set xs i addr) (tc_id_to_addr tc)
       (map snd (sort_key fst (tc_id_to_addr tc)))) (\<lambda>addrs.
     Inr \<lparr> cf_worker_num = tc_worker_num tc, cf_server_num = tc_server_num tc,
       cf_key_range = tc_key_range tc, cf_node_ip_port = addrs, cf_partition = tc_partition tc,
       cf_backup_size = tc_backup_size tc, cf_server_id = tc_server_id tc,
       cf_worker_id = tc_agent_id tc, cf_master_id = tc_master_id tc, cf_bound = tc_bound tc \<rparr>)"

definition addr_of :: "string \<Rightarrow> int \<Rightarrow> string" where
  "addr_of ip port = ip @ '':'' @ show_int port"

definition AppendServer :: "string \<Rightarrow> int \<Rightarrow> task_config \<Rightarrow> task_config res" where
  "AppendServer ip port tc =
     bind_res (i32 (tc_node_id tc + 1)) (\<lambda>next_id.
       Inr (tc\<lparr>tc_server_id := tc_server_id tc @ [tc_node_id tc],
         tc_id_to_addr := umap_set (tc_node_id tc) (addr_of ip port) (tc_id_to_addr tc),
         tc_node_id := next_id\<rparr>))"

definition AppendAgent :: "string \<Rightarrow> int \<Rightarrow> task_config \<Rightarrow> task_config res" where
  "AppendAgent ip port tc =
     bind_res (i32 (tc_node_id tc + 1)) (\<lambda>next_id.
       Inr (tc\<lparr>tc_agent_id := tc_agent_id tc @ [tc_node_id tc],
         tc_id_to_addr := umap_set (tc_node_id tc) (addr_of ip port) (tc_id_to_addr tc),
         tc_node_id := next_id\<rparr>))"

text \<open>The overload on \<open>ip:port\<close>; the one on two arguments formats them first.\<close>

definition AppendMaster :: "string \<Rightarrow> task_config \<Rightarrow> task_config res" where
  "AppendMaster ip_port tc =
     bind_res (i32 (tc_node_id tc + 1)) (\<lambda>next_id.
       Inr (tc\<lparr>tc_master_id := tc_master_id tc @ [tc_node_id tc],
         tc_id_to_addr := umap_set (tc_node_id tc) ip_port (tc_id_to_addr tc),
         tc_node_id := next_id\<rparr>))"

definition AppendMaster_ip :: "string \<Rightarrow> int \<Rightarrow> task_config \<Rightarrow> task_config res" where
  "AppendMaster_ip ip port tc = AppendMaster (addr_of ip port) tc"

definition Ready :: "task_config \<Rightarrow> bool" where
  "Ready tc \<longleftrightarrow> int (length (tc_server_id tc)) = size_t_of_int (tc_server_num tc) \<and>
     int (length (tc_agent_id tc)) = size_t_of_int (tc_worker_num tc)"

text \<open>\<open>draw i\<close> is the number that the \<open>i\<close>-th call of the distribution returns.\<close>

definition GeneratePartition :: "(int \<Rightarrow> int) \<Rightarrow> task_config \<Rightarrow> task_config" where
  "GeneratePartition draw tc =
     tc\<lparr>tc_partition := sort (tc_partition tc @ map draw [0..tc_server_num tc - 1])\<rparr>"

definition GetIp :: "int \<Rightarrow> task_config \<Rightarrow> string \<times> task_config" where
  "GetIp i tc = (case umap_at [] i (tc_id_to_addr tc) of (a, m) \<Rightarrow> (a, tc\<lparr>tc_id_to_addr := m\<rparr>))"

definition GetIdAddr :: "int \<Rightarrow> task_config \<Rightarrow> string" where
  "GetIdAddr i tc = (case map_of (tc_id_to_addr tc) i of Some a \<Rightarrow> a | None \<Rightarrow> [])"

definition get_node_ip :: "task_config \<Rightarrow> string list" where
  "get_node_ip tc = map snd (tc_id_to_addr tc)"

definition IsServerId :: "int \<Rightarrow> task_config \<Rightarrow> bool" where
  "IsServerId i tc \<longleftrightarrow> i \<in> set (tc_server_id tc)"

definition IsAgentId :: "int \<Rightarrow> task_config \<Rightarrow> bool" where
  "IsAgentId i tc \<longleftrightarrow> i \<in> set (tc_agent_id tc)"

definition IsMasterId :: "int \<Rightarrow> task_config \<Rightarrow> bool" where
  "IsMasterId i tc \<longleftrightarrow> i \<in> set (tc_master_id tc)"

text \<open>The position of the first occurrence, the length when there is none.\<close>

definition find_index :: "'a \<Rightarrow> 'a list \<Rightarrow> nat" where
  "find_index x xs = length (takeWhile (\<lambda>y. y \<noteq> x) xs)"

definition erase_at :: "nat \<Rightarrow> 'a list \<Rightarrow> 'a list res" where
  "erase_at i xs = (if i < length xs then Inr (take i xs @ drop (Suc i) xs) else Inl OutOfBounds)"

definition remove_node :: "int \<Rightarrow> task_config \<Rightarrow> task_config res" where
  "remove_node node_id tc =
     (if IsAgentId node_id tc then
        bind_res (erase_at (find_index node_id (tc_agent_id tc)) (tc_agent_id tc)) (\<lambda>ids.
          Inr (tc\<lparr>tc_agent_id := ids\<rparr>))
      else if IsServerId node_id tc then
        (let index = find_index node_id (tc_server_id tc) in
         bind_res (erase_at index (tc_server_id tc)) (\<lambda>ids.
         bind_res (erase_at index (tc_partition tc)) (\<lambda>pv.
           Inr (tc\<lparr>tc_server_id := ids, tc_partition := pv\<rparr>))))
      else Inr tc)"

definition FixConfig :: "int list \<Rightarrow> task_config \<Rightarrow> task_config res" where
  "FixConfig dead_node tc =
     (if dead_node = [] then Inr tc
      else fold_res remove_node dead_node (tc\<lparr>tc_config_changed := True\<rparr>))"

section \<open>The addresses of a message\<close>

text \<open>The loop of \<open>set_node_ip_port\<close> puts every address at its identifier.\<close>

lemma set_addresses:
  assumes "distinct (map fst m)" "fst ` set m \<subseteq> {0..<int (length xs)}"
  shows "\<exists>ys. fold_res (\<lambda>(i, addr) xs. vec_set xs i addr) m xs = Inr ys \<and> length ys = length xs \<and>
      (\<forall>i<length xs. ys ! i = (case map_of m (int i) of Some a \<Rightarrow> a | None \<Rightarrow> xs ! i))"
  using assms
proof (induction m arbitrary: xs)
  case (Cons x m)
  obtain i a where x: "x = (i, a)" by force
  have i: "0 \<le> i" "i < int (length xs)" using Cons.prems(2) by (auto simp: x)
  let ?xs = "xs[nat i := a]"
  have "distinct (map fst m)" "fst ` set m \<subseteq> {0..<int (length ?xs)}" using Cons.prems by auto
  from Cons.IH [OF this] obtain ys where ys:
    "fold_res (\<lambda>(i, addr) xs. vec_set xs i addr) m ?xs = Inr ys" "length ys = length xs"
    "\<forall>j<length xs. ys ! j = (case map_of m (int j) of Some a \<Rightarrow> a | None \<Rightarrow> ?xs ! j)"
    by auto
  have new: "map_of m i = None" using Cons.prems(1) by (simp add: x map_of_eq_None_iff)
  have "ys ! j = (case map_of (x # m) (int j) of Some a \<Rightarrow> a | None \<Rightarrow> xs ! j)"
    if "j < length xs" for j
  proof (cases "int j = i")
    case True
    then show ?thesis using ys(3) that new by (auto simp: x)
  next
    case False
    then have "nat i \<noteq> j" using i(1) by auto
    with False ys(3) that show ?thesis by (simp add: x split: option.split)
  qed
  then show ?case using ys(1,2) i by (simp add: x)
qed simp

section \<open>Registration\<close>

text \<open>
  The abstract state of registration is the list of the nodes in the order in which they
  registered, each with its role and its address; the identifier of a node is its position.
\<close>

datatype role = Master_role | Server_role | Agent_role

definition ids_with :: "role \<Rightarrow> (role \<times> string) list \<Rightarrow> int list" where
  "ids_with r nodes = map int (filter (\<lambda>i. fst (nodes ! i) = r) [0..<length nodes])"

definition addressed :: "(role \<times> string) list \<Rightarrow> task_config \<Rightarrow> bool" where
  "addressed nodes tc \<longleftrightarrow> distinct (map fst (tc_id_to_addr tc)) \<and>
     map_of (tc_id_to_addr tc) = map_of (zip (map int [0..<length nodes]) (map snd nodes))"

definition enrolled :: "(role \<times> string) list \<Rightarrow> task_config \<Rightarrow> bool" where
  "enrolled nodes tc \<longleftrightarrow> addressed nodes tc \<and> tc_node_id tc = int (length nodes) \<and> tc_master_id tc = ids_with Master_role nodes \<and>
     tc_server_id tc = ids_with Server_role nodes \<and> tc_agent_id tc = ids_with Agent_role nodes"

text \<open>The fields that registration leaves alone.\<close>

definition settings :: "task_config \<Rightarrow> task_config" where
  "settings tc = tc\<lparr>tc_server_id := [], tc_agent_id := [], tc_master_id := [], tc_id_to_addr := [],
     tc_node_id := 0\<rparr>"

lemma settings_eqD:
  assumes "settings tc = settings tc'"
  shows "tc_worker_num tc = tc_worker_num tc'" "tc_server_num tc = tc_server_num tc'"
    "tc_key_range tc = tc_key_range tc'" "tc_backup_size tc = tc_backup_size tc'"
    "tc_partition tc = tc_partition tc'" "tc_bound tc = tc_bound tc'"
    "tc_config_changed tc = tc_config_changed tc'"
  using arg_cong [OF assms, of tc_worker_num] arg_cong [OF assms, of tc_server_num]
    arg_cong [OF assms, of tc_key_range] arg_cong [OF assms, of tc_backup_size]
    arg_cong [OF assms, of tc_partition] arg_cong [OF assms, of tc_bound]
    arg_cong [OF assms, of tc_config_changed]
  by (simp_all add: settings_def)

lemma settings_partition:
  "settings (tc\<lparr>tc_partition := pv\<rparr>) = (settings tc)\<lparr>tc_partition := pv\<rparr>"
  by (simp add: settings_def)

lemma ids_with_append:
  "ids_with r (nodes @ [x]) = ids_with r nodes @ (if fst x = r then [int (length nodes)] else [])"
proof -
  have "filter (\<lambda>i. fst ((nodes @ [x]) ! i) = r) [0..<length nodes] =
      filter (\<lambda>i. fst (nodes ! i) = r) [0..<length nodes]"
    by (rule filter_cong) (simp_all add: nth_append)
  then show ?thesis by (simp add: ids_with_def)
qed

lemma distinct_ids_with: "distinct (ids_with r nodes)"
  by (simp add: ids_with_def distinct_map)

lemma set_ids_with: "set (ids_with r nodes) = {int i | i. i < length nodes \<and> fst (nodes ! i) = r}"
  by (auto simp: ids_with_def)

lemma length_ids_with: "length (ids_with r nodes) = length (filter (\<lambda>x. fst x = r) nodes)"
proof (induction nodes rule: rev_induct)
  case Nil
  then show ?case by (simp add: ids_with_def)
qed (simp add: ids_with_append)

lemma addressed_lookup:
  assumes "addressed nodes tc"
  shows "map_of (tc_id_to_addr tc) i =
      (if 0 \<le> i \<and> i < int (length nodes) then Some (snd (nodes ! nat i)) else None)"
  using assms map_of_zip_upto [of "map snd nodes" i] by (auto simp: addressed_def)

lemma addressed_keys: "addressed nodes tc \<Longrightarrow> fst ` set (tc_id_to_addr tc) = {0..<int (length nodes)}"
  using addressed_lookup [of nodes tc] by (force simp flip: dom_map_of_conv_image_fst simp: dom_def)

lemma addressed_length:
  assumes "addressed nodes tc"
  shows "length (tc_id_to_addr tc) = length nodes"
proof -
  have "length (tc_id_to_addr tc) = card (set (map fst (tc_id_to_addr tc)))"
    using assms distinct_card [of "map fst (tc_id_to_addr tc)"] by (simp add: addressed_def)
  also have "\<dots> = length nodes" using addressed_keys [OF assms] by simp
  finally show ?thesis .
qed

lemma enrolled_addressed: "enrolled nodes tc \<Longrightarrow> addressed nodes tc"
  by (simp add: enrolled_def)

lemmas enrolled_address = addressed_lookup [OF enrolled_addressed]
  and enrolled_length = addressed_length [OF enrolled_addressed]

text \<open>The message lists the addresses of the nodes in the order of registration.\<close>

definition config_for :: "(role \<times> string) list \<Rightarrow> task_config \<Rightarrow> ConfigMessage" where
  "config_for nodes tc = \<lparr> cf_worker_num = tc_worker_num tc, cf_server_num = tc_server_num tc,
     cf_key_range = tc_key_range tc, cf_node_ip_port = map snd nodes, cf_partition = tc_partition tc,
     cf_backup_size = tc_backup_size tc, cf_server_id = ids_with Server_role nodes,
     cf_worker_id = ids_with Agent_role nodes, cf_master_id = ids_with Master_role nodes,
     cf_bound = tc_bound tc \<rparr>"

lemma ToMessage_addressed:
  assumes "addressed nodes tc"
  shows "ToMessage tc = Inr ((config_for nodes tc)\<lparr>cf_server_id := tc_server_id tc,
      cf_worker_id := tc_agent_id tc, cf_master_id := tc_master_id tc\<rparr>)"
proof -
  let ?m = "tc_id_to_addr tc"
  let ?xs = "map snd (sort_key fst ?m)"
  have dist: "distinct (map fst ?m)" using assms by (simp add: addressed_def)
  have len: "length ?m = length nodes" by (rule addressed_length [OF assms])
  then have "fst ` set ?m \<subseteq> {0..<int (length ?xs)}" using addressed_keys [OF assms] by simp
  from set_addresses [OF dist this] obtain ys where
    ys: "fold_res (\<lambda>(i, addr) xs. vec_set xs i addr) ?m ?xs = Inr ys" "length ys = length ?xs"
      "\<forall>i<length ?xs. ys ! i = (case map_of ?m (int i) of Some a \<Rightarrow> a | None \<Rightarrow> ?xs ! i)"
    by blast
  have "ys = map snd nodes"
    using ys(2,3) len addressed_lookup [OF assms] by (intro nth_equalityI) simp_all
  then show ?thesis using ys(1) by (simp add: ToMessage_def config_for_def)
qed

lemma ToMessage_enrolled:
  assumes "enrolled nodes tc"
  shows "ToMessage tc = Inr (config_for nodes tc)"
  using ToMessage_addressed [OF enrolled_addressed [OF assms]] assms
  by (simp add: enrolled_def config_for_def)

text \<open>
  What \<open>AppendServer\<close>, \<open>AppendAgent\<close> and \<open>AppendMaster\<close> have in common: each adds one node of
  its role at the end of the list.
\<close>

locale registrar =
  fixes register :: "'n \<Rightarrow> task_config \<Rightarrow> task_config res"
    and address :: "'n \<Rightarrow> string"
    and role :: role
  assumes register_enrols: "enrolled nodes tc \<Longrightarrow> in_i32 (int (length nodes) + 1) \<Longrightarrow>
      returns (register n tc) (\<lambda>tc'. enrolled (nodes @ [(role, address n)]) tc' \<and>
        settings tc' = settings tc)"
begin

lemma register_all:
  assumes "enrolled nodes tc" "in_i32 (int (length nodes) + int (length ns))"
  shows "returns (fold_res register ns tc) (\<lambda>tc'.
      enrolled (nodes @ map (\<lambda>n. (role, address n)) ns) tc' \<and> settings tc' = settings tc)"
  using assms
proof (induction ns arbitrary: nodes tc)
  case (Cons n ns)
  have "in_i32 (int (length nodes) + 1)" using Cons.prems(2) by (simp add: in_i32_iff)
  from register_enrols [OF Cons.prems(1) this, of n] obtain tc1 where
    one: "register n tc = Inr tc1" "enrolled (nodes @ [(role, address n)]) tc1" "settings tc1 = settings tc"
    by (auto simp: returns_iff)
  have "in_i32 (int (length (nodes @ [(role, address n)])) + int (length ns))"
    using Cons.prems(2) by (simp add: algebra_simps)
  from Cons.IH [OF one(2) this] one show ?case by simp
qed simp

text \<open>Registering twice gives two different nodes, even with the same address.\<close>

lemma register_new_id:
  assumes "enrolled nodes tc" "in_i32 (int (length nodes) + 1)"
  shows "returns (register n tc) (\<lambda>tc'.
      map_of (tc_id_to_addr tc') = (map_of (tc_id_to_addr tc))(tc_node_id tc \<mapsto> address n) \<and>
      map_of (tc_id_to_addr tc) (tc_node_id tc) = None)"
  using register_enrols [OF assms]
proof (rule returns_mono)
  fix tc' assume "enrolled (nodes @ [(role, address n)]) tc' \<and> settings tc' = settings tc"
  then have new: "enrolled (nodes @ [(role, address n)]) tc'" by simp
  have "tc_node_id tc = int (length nodes)" using assms(1) by (simp add: enrolled_def addressed_def)
  then show "map_of (tc_id_to_addr tc') = (map_of (tc_id_to_addr tc))(tc_node_id tc \<mapsto> address n) \<and>
      map_of (tc_id_to_addr tc) (tc_node_id tc) = None"
    by (auto simp: enrolled_address [OF assms(1)] enrolled_address [OF new] fun_eq_iff nth_append
      nat_less_iff)
qed

end

lemma enrolled_append:
  assumes "enrolled nodes tc"
  shows "distinct (map fst (umap_set (tc_node_id tc) addr (tc_id_to_addr tc))) \<and>
    map_of (umap_set (tc_node_id tc) addr (tc_id_to_addr tc)) =
      map_of (zip (map int [0..<length (nodes @ [(r, addr)])]) (map snd (nodes @ [(r, addr)])))"
proof -
  have "map_of (zip (map int [0..<length (nodes @ [(r, addr)])]) (map snd (nodes @ [(r, addr)]))) =
      (map_of (zip (map int [0..<length nodes]) (map snd nodes)))(int (length nodes) \<mapsto> addr)"
    using map_of_zip_upto [of "map snd (nodes @ [(r, addr)])"] map_of_zip_upto [of "map snd nodes"]
    by (auto simp: fun_eq_iff nth_append nat_less_iff)
  then show ?thesis using assms by (simp add: enrolled_def addressed_def distinct_umap_set map_of_umap_set)
qed

interpretation master_reg: registrar AppendMaster "\<lambda>ip_port. ip_port" Master_role
  by unfold_locales
    (use enrolled_append [where r = Master_role] in
      \<open>auto simp: AppendMaster_def enrolled_def addressed_def ids_with_append settings_def\<close>)

interpretation server_reg: registrar "\<lambda>(ip, port). AppendServer ip port" "\<lambda>(ip, port). addr_of ip port"
  Server_role
  by unfold_locales
    (use enrolled_append [where r = Server_role] in
      \<open>auto simp: AppendServer_def enrolled_def addressed_def ids_with_append settings_def\<close>)

interpretation agent_reg: registrar "\<lambda>(ip, port). AppendAgent ip port" "\<lambda>(ip, port). addr_of ip port"
  Agent_role
  by unfold_locales
    (use enrolled_append [where r = Agent_role] in
      \<open>auto simp: AppendAgent_def enrolled_def addressed_def ids_with_append settings_def\<close>)

section \<open>Removing dead nodes\<close>

lemma find_index_split:
  assumes "x \<in> set xs"
  obtains ys zs where "xs = ys @ x # zs" "x \<notin> set ys" "find_index x xs = length ys"
proof -
  from split_list_first [OF assms] obtain ys zs where "xs = ys @ x # zs" "x \<notin> set ys" by blast
  moreover from this have "\<And>y. y \<in> set ys \<Longrightarrow> y \<noteq> x" by auto
  then have "takeWhile (\<lambda>y. y \<noteq> x) (ys @ x # zs) = ys" by (subst takeWhile_append2) simp_all
  ultimately show ?thesis by (intro that) (auto simp: find_index_def)
qed

lemma erase_find_index:
  assumes "x \<in> set xs" "distinct xs"
  shows "erase_at (find_index x xs) xs = Inr (filter (\<lambda>y. y \<noteq> x) xs)" "find_index x xs < length xs"
proof -
  from assms(1) obtain ys zs where xs: "xs = ys @ x # zs" "x \<notin> set ys" "find_index x xs = length ys"
    by (rule find_index_split)
  moreover have "filter (\<lambda>y. y \<noteq> x) ys = ys" "filter (\<lambda>y. y \<noteq> x) zs = zs"
    using xs assms(2) by (auto simp: filter_id_conv)
  ultimately show "erase_at (find_index x xs) xs = Inr (filter (\<lambda>y. y \<noteq> x) xs)"
    "find_index x xs < length xs"
    by (simp_all add: erase_at_def)
qed

lemma sorted_erase: "sorted xs \<Longrightarrow> sorted (take i xs @ drop (Suc i) xs)"
proof (cases "i < length xs")
  case True
  assume "sorted xs"
  moreover have "xs = take i xs @ xs ! i # drop (Suc i) xs" using True by (rule id_take_nth_drop)
  ultimately show ?thesis by (metis sorted_append sorted_simps(2) list.set_intros(2))
qed simp

text \<open>What \<open>FixConfig\<close> keeps: one hash value per server, in order.\<close>

definition wf_ids :: "task_config \<Rightarrow> bool" where
  "wf_ids tc \<longleftrightarrow> distinct (tc_server_id tc) \<and> distinct (tc_agent_id tc) \<and>
     set (tc_server_id tc) \<inter> set (tc_agent_id tc) = {} \<and>
     length (tc_partition tc) = length (tc_server_id tc) \<and> sorted (tc_partition tc)"

text \<open>The fields that the removal of nodes leaves alone.\<close>

definition kept_by_removal :: "task_config \<Rightarrow> task_config" where
  "kept_by_removal tc = tc\<lparr>tc_server_id := [], tc_agent_id := [], tc_partition := []\<rparr>"

lemma kept_by_removalD:
  assumes "kept_by_removal tc = kept_by_removal tc'"
  shows "tc_worker_num tc = tc_worker_num tc'" "tc_server_num tc = tc_server_num tc'"
    "tc_key_range tc = tc_key_range tc'" "tc_backup_size tc = tc_backup_size tc'"
    "tc_master_id tc = tc_master_id tc'" "tc_id_to_addr tc = tc_id_to_addr tc'"
    "tc_bound tc = tc_bound tc'" "tc_config_changed tc = tc_config_changed tc'"
  using arg_cong [OF assms, of tc_worker_num] arg_cong [OF assms, of tc_server_num]
    arg_cong [OF assms, of tc_key_range] arg_cong [OF assms, of tc_backup_size]
    arg_cong [OF assms, of tc_master_id] arg_cong [OF assms, of tc_id_to_addr]
    arg_cong [OF assms, of tc_bound] arg_cong [OF assms, of tc_config_changed]
  by (simp_all add: kept_by_removal_def)

lemma remove_node_wf:
  assumes "wf_ids tc"
  shows "returns (remove_node i tc) (\<lambda>tc'. wf_ids tc' \<and>
      tc_server_id tc' = filter (\<lambda>y. y \<noteq> i) (tc_server_id tc) \<and>
      tc_agent_id tc' = filter (\<lambda>y. y \<noteq> i) (tc_agent_id tc) \<and>
      set (tc_partition tc') \<subseteq> set (tc_partition tc) \<and>
      kept_by_removal tc' = kept_by_removal tc)"
proof -
  have wf: "distinct (tc_server_id tc)" "distinct (tc_agent_id tc)"
      "set (tc_server_id tc) \<inter> set (tc_agent_id tc) = {}"
      "length (tc_partition tc) = length (tc_server_id tc)" "sorted (tc_partition tc)"
    using assms by (simp_all add: wf_ids_def)
  consider (agent) "i \<in> set (tc_agent_id tc)" "i \<notin> set (tc_server_id tc)"
    | (server) "i \<notin> set (tc_agent_id tc)" "i \<in> set (tc_server_id tc)"
    | (none) "i \<notin> set (tc_agent_id tc)" "i \<notin> set (tc_server_id tc)"
    using wf(3) by blast
  then show ?thesis
  proof cases
    case agent
    then have "filter (\<lambda>y. y \<noteq> i) (tc_server_id tc) = tc_server_id tc" by (auto simp: filter_id_conv)
    with agent wf erase_find_index [OF agent(1) wf(2)] show ?thesis
      by (auto simp: remove_node_def IsAgentId_def wf_ids_def kept_by_removal_def)
  next
    case server
    let ?k = "find_index i (tc_server_id tc)"
    note erase = erase_find_index [OF server(2) wf(1)]
    have "filter (\<lambda>y. y \<noteq> i) (tc_agent_id tc) = tc_agent_id tc"
      using server(1) by (auto simp: filter_id_conv)
    moreover have pv: "erase_at ?k (tc_partition tc) =
        Inr (take ?k (tc_partition tc) @ drop (Suc ?k) (tc_partition tc))"
      using erase(2) wf(4) by (simp add: erase_at_def)
    moreover have "filter (\<lambda>y. y \<noteq> i) (tc_server_id tc) = take ?k (tc_server_id tc) @ drop (Suc ?k) (tc_server_id tc)"
      using erase by (simp add: erase_at_def)
    then have "length (filter (\<lambda>y. y \<noteq> i) (tc_server_id tc)) =
        length (take ?k (tc_partition tc) @ drop (Suc ?k) (tc_partition tc))"
      using wf(4) by simp
    moreover have "set (take ?k (tc_partition tc) @ drop (Suc ?k) (tc_partition tc)) \<subseteq> set (tc_partition tc)"
      using set_take_subset set_drop_subset by fastforce
    ultimately show ?thesis
      using server erase(1) wf sorted_erase [OF wf(5), of ?k]
      by (auto simp: remove_node_def IsAgentId_def IsServerId_def wf_ids_def Let_def kept_by_removal_def)
  next
    case none
    then have "filter (\<lambda>y. y \<noteq> i) (tc_agent_id tc) = tc_agent_id tc"
      "filter (\<lambda>y. y \<noteq> i) (tc_server_id tc) = tc_server_id tc"
      by (auto simp: filter_id_conv)
    with none assms show ?thesis by (simp add: remove_node_def IsAgentId_def IsServerId_def)
  qed
qed

lemma remove_nodes_wf:
  assumes "wf_ids tc"
  shows "returns (fold_res remove_node dead tc) (\<lambda>tc'. wf_ids tc' \<and>
      tc_server_id tc' = filter (\<lambda>y. y \<notin> set dead) (tc_server_id tc) \<and>
      tc_agent_id tc' = filter (\<lambda>y. y \<notin> set dead) (tc_agent_id tc) \<and>
      set (tc_partition tc') \<subseteq> set (tc_partition tc) \<and>
      kept_by_removal tc' = kept_by_removal tc)"
  using assms
proof (induction dead arbitrary: tc)
  case (Cons i dead)
  from remove_node_wf [OF Cons.prems, of i] obtain tc1 where
    one: "remove_node i tc = Inr tc1" "wf_ids tc1"
      "tc_server_id tc1 = filter (\<lambda>y. y \<noteq> i) (tc_server_id tc)"
      "tc_agent_id tc1 = filter (\<lambda>y. y \<noteq> i) (tc_agent_id tc)"
      "set (tc_partition tc1) \<subseteq> set (tc_partition tc)"
      "kept_by_removal tc1 = kept_by_removal tc"
    by (auto simp: returns_iff)
  have "filter (\<lambda>y. y \<notin> set dead) (filter (\<lambda>y. y \<noteq> i) xs) = filter (\<lambda>y. y \<notin> set (i # dead)) xs" for xs
    by (auto intro: filter_cong)
  with Cons.IH [OF one(2)] one show ?case by (auto simp: returns_iff)
qed simp

end
