(* ===== verification/Master.thy ===== *)
theory Master
  imports Task_Config
begin

text \<open>
  The master (\<open>src/master/master.h\<close>, \<open>src/master/master.cc\<close>): it registers the nodes,
  delivers the configuration when the cluster is complete, answers for liveness by heartbeats
  and detects dead nodes. Times are seconds on the system clock, given as arguments, as are the
  flags \<open>heartbeat_timeout\<close> and \<open>max_cluster_node\<close>. Each turn of a loop is one definition;
  the code under \<open>USE_ZOOKEEPER\<close>, an option of the build, is in \<open>Election\<close>.
\<close>

record master =
  ms_config :: task_config
  ms_sender :: zmq_communicator
  ms_alive_node :: "(int \<times> int) list"
  ms_terminated_node :: "int list"
  ms_is_lead :: bool

section \<open>Strings\<close>

text \<open>
  The pieces of a string between separators, as repeated \<open>std::getline(ss, piece, sep)\<close>
  while \<open>ss.good()\<close> delivers them.
\<close>

fun getlines :: "char \<Rightarrow> string \<Rightarrow> string list" where
  "getlines sep [] = [[]]"
| "getlines sep (c # cs) =
     (if c = sep then [] # getlines sep cs
      else case getlines sep cs of [] \<Rightarrow> [[c]] | l # ls \<Rightarrow> (c # l) # ls)"

text \<open>\<open>std::stoi\<close>\<close>

definition stoi :: "string \<Rightarrow> int res" where
  "stoi s = (case scan_int s of
     Some n \<Rightarrow> if in_i32 n then Inr n else Inl InvalidArgument
   | None \<Rightarrow> Inl InvalidArgument)"

text \<open>The address of the heartbeat port of a node: the port after its listening port.\<close>

definition heartbeat_addr :: "string \<Rightarrow> string res" where
  "heartbeat_addr addr =
     (let parts = getlines (CHR '':'') addr;
          ip = hd parts;
          port = (case tl parts of [] \<Rightarrow> [] | p # _ \<Rightarrow> p) in
      bind_res (stoi port) (\<lambda>n. bind_res (i32 (n + 1)) (\<lambda>n1. Inr (ip @ '':'' @ show_int n1))))"

section \<open>Initialize\<close>

definition Master_new :: "int \<Rightarrow> int \<Rightarrow> int \<Rightarrow> int \<Rightarrow> int \<Rightarrow> zmq_communicator \<Rightarrow> master" where
  "Master_new worker_num server_num key_range bound backup_size c =
     \<lparr> ms_config = TaskConfig_Initialize worker_num server_num key_range bound backup_size new_task_config,
       ms_sender = c, ms_alive_node = [], ms_terminated_node = [], ms_is_lead = True \<rparr>"

text \<open>The masters of the comma separated list; the result is their number.\<close>

definition Master_Initialize :: "string \<Rightarrow> master \<Rightarrow> (int \<times> master) res" where
  "Master_Initialize master_ip_port ms =
     fold_res (\<lambda>ip_port (count, ms).
         if ip_port = [] then Inr (count, ms)
         else bind_res (AppendMaster ip_port (ms_config ms)) (\<lambda>tc.
           bind_res (i32 (count + 1)) (\<lambda>n. Inr (n, ms\<lparr>ms_config := tc\<rparr>))))
       (getlines (CHR '','') master_ip_port) (0, ms)"

section \<open>Messages from the nodes\<close>

definition ProcessRegisterMsg :: "'v Message \<Rightarrow> master \<Rightarrow> master res" where
  "ProcessRegisterMsg msg ms =
     (let r = the_register_msg msg in
      bind_res (if rg_is_server r then AppendServer (rg_ip r) (rg_port r) (ms_config ms)
                else AppendAgent (rg_ip r) (rg_port r) (ms_config ms)) (\<lambda>tc.
        Inr (ms\<lparr>ms_config := tc\<rparr>)))"

text \<open>The log line looks the address up with \<open>GetIp\<close>, which may insert an entry.\<close>

definition ProcessHeartbeatMsg :: "int \<Rightarrow> 'v Message \<Rightarrow> master \<Rightarrow> master res" where
  "ProcessHeartbeatMsg cur_time msg ms =
     (if heartbeat_msg msg = None then Inl CheckFailed
      else if \<not> hb_is_live (the_heartbeat_msg msg) then Inl CheckFailed
      else Inr (ms\<lparr>ms_alive_node := umap_set (send_id msg) cur_time (ms_alive_node ms),
                   ms_config := snd (GetIp (send_id msg) (ms_config ms))\<rparr>))"

text \<open>\<open>DeliverConfig\<close>: the configuration for the nodes \<open>0, 1, ...\<close>\<close>

definition DeliverConfig :: "master \<Rightarrow> 'v outgoing res" where
  "DeliverConfig ms =
     bind_res (ToMessage (ms_config ms)) (\<lambda>cfg.
       Inr (map (\<lambda>i. (i, new_Message\<lparr>send_id := 0, recv_id := i,
           message_type := Message_MessageType_config, config_msg := Some cfg\<rparr>))
         [0..int (length (get_node_ip (ms_config ms))) - 1]))"

definition add_node_addr :: "int \<Rightarrow> int \<times> string \<Rightarrow> zmq_communicator \<Rightarrow> zmq_communicator res" where
  "add_node_addr max_cluster_node pr c =
     (case pr of (i, addr) \<Rightarrow>
        let c1 = snd (AddIdAddr i addr c) in
        bind_res (heartbeat_addr addr) (\<lambda>h.
        bind_res (i32 (i + max_cluster_node)) (\<lambda>j. Inr (snd (AddIdAddr j h c1)))))"

text \<open>
  What the main loop does when the last node has registered; the two threads start then (their
  turns are defined below, and \<open>Programs\<close> puts them together with the main loop).
\<close>

definition start_cluster ::
    "int \<Rightarrow> (int \<Rightarrow> int) \<Rightarrow> int \<Rightarrow> master \<Rightarrow> (master \<times> 'v outgoing) res" where
  "start_cluster max_cluster_node draw cur_time ms =
     (let ms1 = ms\<lparr>ms_config := GeneratePartition draw (ms_config ms)\<rparr> in
      bind_res (fold_res (add_node_addr max_cluster_node) (tc_id_to_addr (ms_config ms1))
        (ms_sender ms1)) (\<lambda>c.
      bind_res (DeliverConfig ms1) (\<lambda>out.
        Inr (ms1\<lparr>ms_sender := c,
          ms_alive_node := fold (\<lambda>i m. umap_set i cur_time m)
            [0..int (length (get_node_ip (ms_config ms1))) - 1] (ms_alive_node ms1)\<rparr>, out))))"

text \<open>One turn of the main loop of the lead master; the flag is the new value of \<open>terminated\<close>.\<close>

definition MainLoop_turn ::
    "int \<Rightarrow> (int \<Rightarrow> int) \<Rightarrow> int \<Rightarrow> 'v Message \<Rightarrow> master \<Rightarrow> (bool \<times> master \<times> 'v outgoing) res" where
  "MainLoop_turn max_cluster_node draw cur_time msg ms =
     (case message_type msg of
        Message_MessageType_heartbeat \<Rightarrow>
          bind_res (ProcessHeartbeatMsg cur_time msg ms) (\<lambda>ms1. Inr (False, ms1, []))
      | Message_MessageType_register \<Rightarrow>
          bind_res (ProcessRegisterMsg msg ms) (\<lambda>ms1.
            if Ready (ms_config ms1) then
              bind_res (start_cluster max_cluster_node draw cur_time ms1) (\<lambda>(ms2, out).
                Inr (False, ms2, out))
            else Inr (False, ms1, []))
      | Message_MessageType_terminate \<Rightarrow>
          (let ms1 = ms\<lparr>ms_terminated_node := set_insert (send_id msg) (ms_terminated_node ms)\<rparr> in
           Inr (int (length (ms_terminated_node ms1)) = size_t_of_int (tc_worker_num (ms_config ms1)),
             ms1, []))
      | _ \<Rightarrow> Inr (False, ms, []))"

text \<open>
  The main loop on the messages that arrive, each with the random numbers that would be drawn
  and the time; the flag tells whether the loop has ended. A master that does not lead only
  sleeps.
\<close>

fun lead_loop ::
    "int \<Rightarrow> ((int \<Rightarrow> int) \<times> int \<times> 'v Message) list \<Rightarrow> master \<Rightarrow> (bool \<times> master \<times> 'v outgoing) res" where
  "lead_loop max_cluster_node [] ms = Inr (False, ms, [])"
| "lead_loop max_cluster_node ((draw, cur_time, msg) # es) ms =
     bind_res (MainLoop_turn max_cluster_node draw cur_time msg ms) (\<lambda>(terminated, ms1, out).
       if terminated then Inr (True, ms1, out)
       else bind_res (lead_loop max_cluster_node es ms1) (\<lambda>(t, ms2, out2). Inr (t, ms2, out @ out2)))"

definition MainLoop ::
    "int \<Rightarrow> ((int \<Rightarrow> int) \<times> int \<times> 'v Message) list \<Rightarrow> master \<Rightarrow> (bool \<times> master \<times> 'v outgoing) res" where
  "MainLoop max_cluster_node es ms =
     (if ms_is_lead ms then lead_loop max_cluster_node es ms else Inr (False, ms, []))"

section \<open>The threads\<close>

definition GetDeadNode :: "int \<Rightarrow> int \<Rightarrow> master \<Rightarrow> int list" where
  "GetDeadNode heartbeat_timeout cur_time ms =
     map fst (filter (\<lambda>(i, t). t + heartbeat_timeout < cur_time) (ms_alive_node ms))"

text \<open>
  One turn of \<open>DetectDeadNode\<close>. When a node is dead, the code first logs all dead nodes, looking each
  of them up with \<open>GetIp\<close>, through a reference to the stream of a temporary that no longer exists
  (line 312). That write has no defined behaviour; the model is of its lookups and of what follows it,
  so the results are those of a run which gets past the log line.
\<close>

definition DetectDeadNode_turn :: "int \<Rightarrow> int \<Rightarrow> master \<Rightarrow> master res" where
  "DetectDeadNode_turn heartbeat_timeout cur_time ms =
     (let dead_node = GetDeadNode heartbeat_timeout cur_time ms in
      if dead_node = [] then Inr ms
      else bind_res (FixConfig dead_node
          (fold (\<lambda>i tc. snd (GetIp i tc)) dead_node (ms_config ms))) (\<lambda>tc.
        Inr (ms\<lparr>ms_config := tc\<rparr>)))"

text \<open>One turn of \<open>DeliverHeartbeatLoop\<close>.\<close>

definition DeliverHeartbeat :: "int \<Rightarrow> master \<Rightarrow> (master \<times> 'v outgoing) res" where
  "DeliverHeartbeat max_cluster_node ms =
     (let msg = new_Message\<lparr>send_id := 0, message_type := Message_MessageType_heartbeat,
            heartbeat_msg := Some (default_HeartbeatMessage\<lparr>hb_is_live := True\<rparr>)\<rparr> in
      bind_res (if tc_config_changed (ms_config ms)
                then bind_res (ToMessage (ms_config ms)) (\<lambda>cfg.
                  Inr (msg\<lparr>config_msg := Some cfg\<rparr>,
                       ms\<lparr>ms_config := (ms_config ms)\<lparr>tc_config_changed := False\<rparr>\<rparr>))
                else Inr (msg, ms)) (\<lambda>(msg1, ms1).
      bind_res (map_res (\<lambda>i. bind_res (i32 (i + max_cluster_node)) (\<lambda>j.
          Inr (j, msg1\<lparr>recv_id := i\<rparr>))) (tc_agent_id (ms_config ms1))) (\<lambda>to_agents.
        Inr (ms1, to_agents @ map (\<lambda>i. (i, msg1\<lparr>recv_id := i\<rparr>)) (tc_server_id (ms_config ms1))))))"

end
