(* ===== verification/Master_Properties.thy ===== *)
theory Master_Properties
  imports Master
begin

text \<open>
  Properties of the master: how a cluster forms, when the main loop ends, and what the detection
  of dead nodes does to the configuration.
\<close>

section \<open>Addresses\<close>

lemma getlines_not_Nil: "getlines sep s \<noteq> []"
  by (induction sep s rule: getlines.induct) (auto split: list.split)

lemma getlines_no_sep: "sep \<notin> set s \<Longrightarrow> getlines sep s = [s]"
  by (induction sep s rule: getlines.induct) auto

lemma getlines_sep: "sep \<notin> set s \<Longrightarrow> getlines sep (s @ sep # t) = s # getlines sep t"
  by (induction s) (auto split: list.split)

text \<open>The address of the heartbeat port of a node that registered with host and port.\<close>

lemma heartbeat_addr_of:
  assumes "CHR '':'' \<notin> set ip" "in_i32 port" "in_i32 (port + 1)"
  shows "heartbeat_addr (addr_of ip port) = Inr (addr_of ip (port + 1))"
proof -
  have "\<not> is_digit (CHR '':'')" by (simp add: is_digit_def)
  then have "CHR '':'' \<notin> set (show_int port)" using show_int_chars by fastforce
  then have "getlines (CHR '':'') (addr_of ip port) = [ip, show_int port]"
    using assms(1) by (simp add: addr_of_def getlines_sep getlines_no_sep)
  moreover have "stoi (show_int port) = Inr port"
    using scan_int_show_int [of "[]" port] assms(2) by (simp add: stoi_def)
  ultimately show ?thesis using assms(3) by (simp add: heartbeat_addr_def addr_of_def)
qed

text \<open>The address book of the master: every node, and its heartbeat port at a shifted identifier.\<close>

definition heartbeat_port :: "string \<Rightarrow> string" where
  "heartbeat_port a = (case heartbeat_addr a of Inr h \<Rightarrow> h | Inl _ \<Rightarrow> [])"

definition node_book :: "int \<Rightarrow> (int \<times> string) list \<Rightarrow> int \<rightharpoonup> string" where
  "node_book shift m j =
     (case map_of m j of Some a \<Rightarrow> Some a | None \<Rightarrow> map_option heartbeat_port (map_of m (j - shift)))"

lemma add_node_addrs:
  assumes "distinct (map fst m)"
    and "\<forall>(i, a)\<in>set m. 0 \<le> i \<and> i < shift \<and> in_i32 (i + shift) \<and> (\<exists>h. heartbeat_addr a = Inr h)"
  shows "returns (fold_res (add_node_addr shift) m c) (\<lambda>c'.
      id_to_addr c' = node_book shift m ++ id_to_addr c)"
  using assms
proof (induction m arbitrary: c)
  case Nil
  then show ?case by (simp add: node_book_def fun_eq_iff map_add_def split: option.split)
next
  case (Cons x m)
  obtain i a where x: "x = (i, a)" by force
  let ?c = "snd (AddIdAddr (i + shift) (heartbeat_port a) (snd (AddIdAddr i a c)))"
  have i: "0 \<le> i" "i < shift" using Cons.prems(2) by (auto simp: x)
  have add: "add_node_addr shift x c = Inr ?c"
    using Cons.prems(2) by (auto simp: x add_node_addr_def heartbeat_port_def Let_def)
  define u where "u = [i \<mapsto> a, i + shift \<mapsto> heartbeat_port a]"
  have c: "id_to_addr ?c = u ++ id_to_addr c"
    using i by (auto simp: u_def AddIdAddr_def fun_eq_iff map_add_def split: option.split)
  have below: "map_of m j = None" if "\<not> (0 \<le> j \<and> j < shift)" for j
    using Cons.prems(2) that by (auto simp: map_of_eq_None_iff)
  have new: "map_of m i = None" using Cons.prems(1) by (simp add: x map_of_eq_None_iff)
  have "node_book shift (x # m) j = (node_book shift m ++ u) j" for j
    using i below [of j] below [of "j - shift"] new
    by (auto simp: u_def node_book_def x map_add_def split: option.split)
  then have "node_book shift (x # m) = node_book shift m ++ u" by (rule ext)
  with Cons.IH [of ?c] Cons.prems add c show ?case by simp
qed

section \<open>The start of the cluster\<close>

text \<open>The message that carries a configuration to node \<open>i\<close>.\<close>

definition config_to :: "ConfigMessage \<Rightarrow> int \<Rightarrow> 'v Message" where
  "config_to cfg i = new_Message\<lparr>send_id := 0, recv_id := i,
     message_type := Message_MessageType_config, config_msg := Some cfg\<rparr>"

lemma DeliverConfig_enrolled:
  assumes "enrolled nodes (ms_config ms)"
  shows "DeliverConfig ms = Inr (map (\<lambda>i. (i, config_to (config_for nodes (ms_config ms)) i))
      [0..int (length nodes) - 1])"
  using ToMessage_enrolled [OF assms] enrolled_length [OF assms]
  by (simp add: DeliverConfig_def get_node_ip_def config_to_def)

lemma map_of_fold_umap_set:
  "map_of (fold (\<lambda>i m. umap_set i t m) is m) = (\<lambda>i. if i \<in> set is then Some t else map_of m i)"
  by (induction "is" arbitrary: m) (auto simp: map_of_umap_set fun_eq_iff)

lemma distinct_fold_umap_set:
  "distinct (map fst m) \<Longrightarrow> distinct (map fst (fold (\<lambda>i m. umap_set i t m) is m))"
  by (induction "is" arbitrary: m) (auto simp: distinct_umap_set)

definition drawn :: "(int \<Rightarrow> int) \<Rightarrow> int \<Rightarrow> int list" where
  "drawn draw n = sort (map draw [0..n - 1])"

text \<open>What the master knows once the cluster of \<open>nodes\<close> runs.\<close>

definition cluster_state ::
    "int \<Rightarrow> (role \<times> string) list \<Rightarrow> int list \<Rightarrow> int \<Rightarrow> master \<Rightarrow> bool" where
  "cluster_state max_cluster_node nodes pv cur_time ms \<longleftrightarrow>
     enrolled nodes (ms_config ms) \<and> tc_partition (ms_config ms) = pv \<and>
     (\<forall>i<length nodes. id_to_addr (ms_sender ms) (int i) = Some (snd (nodes ! i)) \<and>
        id_to_addr (ms_sender ms) (int i + max_cluster_node) = Some (heartbeat_port (snd (nodes ! i)))) \<and>
     distinct (map fst (ms_alive_node ms)) \<and>
     map_of (ms_alive_node ms) = (\<lambda>i. if 0 \<le> i \<and> i < int (length nodes) then Some cur_time else None)"

lemma start_cluster_starts:
  assumes nodes: "enrolled nodes (ms_config ms)" "tc_partition (ms_config ms) = []"
    and addrs: "\<forall>a\<in>snd ` set nodes. \<exists>h. heartbeat_addr a = Inr h"
    and ids: "int (length nodes) \<le> mcn" "in_i32 (int (length nodes) + mcn)"
    and fresh: "id_to_addr (ms_sender ms) = Map.empty" "ms_alive_node ms = []"
    and tc_def: "tc = (ms_config ms)\<lparr>tc_partition := drawn draw (tc_server_num (ms_config ms))\<rparr>"
  shows "returns (start_cluster mcn draw t ms :: (master \<times> 'v outgoing) res) (\<lambda>(ms', out).
      cluster_state mcn nodes (drawn draw (tc_server_num (ms_config ms))) t ms' \<and>
      ms_config ms' = tc \<and> ms_terminated_node ms' = ms_terminated_node ms \<and>
      ms_is_lead ms' = ms_is_lead ms \<and>
      out = map (\<lambda>i. (i, config_to (config_for nodes tc) i)) [0..int (length nodes) - 1])"
proof -
  let ?m = "tc_id_to_addr (ms_config ms)"
  have tc: "enrolled nodes tc" using nodes(1) by (simp add: tc_def enrolled_def addressed_def)
  have dist: "distinct (map fst ?m)" using nodes(1) by (simp add: enrolled_def addressed_def)
  have "\<forall>(i, a)\<in>set ?m. 0 \<le> i \<and> i < mcn \<and> in_i32 (i + mcn) \<and> (\<exists>h. heartbeat_addr a = Inr h)"
  proof (clarify)
    fix i a assume "(i, a) \<in> set ?m"
    then have "map_of ?m i = Some a" using dist by simp
    then have i: "0 \<le> i" "i < int (length nodes)" "a = snd (nodes ! nat i)"
      using enrolled_address [OF nodes(1), of i] by (simp_all split: if_splits)
    then have "a \<in> snd ` set nodes" using nat_less_iff by (intro image_eqI) auto
    with i ids addrs show "0 \<le> i \<and> i < mcn \<and> in_i32 (i + mcn) \<and> (\<exists>h. heartbeat_addr a = Inr h)"
      by (auto simp: in_i32_iff)
  qed
  from add_node_addrs [OF dist this, of "ms_sender ms"] obtain c where
    c: "fold_res (add_node_addr mcn) ?m (ms_sender ms) = Inr c" "id_to_addr c = node_book mcn ?m"
    by (auto simp: returns_iff fresh)
  have book: "id_to_addr c (int i) = Some (snd (nodes ! i))"
      "id_to_addr c (int i + mcn) = Some (heartbeat_port (snd (nodes ! i)))" if "i < length nodes" for i
    using that ids(1) by (auto simp: c(2) node_book_def enrolled_address [OF nodes(1)])
  define ms' where "ms' = ms\<lparr>ms_config := tc, ms_sender := c,
      ms_alive_node := fold (\<lambda>i m. umap_set i t m) [0..int (length nodes) - 1] []\<rparr>"
  have len: "length (get_node_ip tc) = length nodes"
    using enrolled_length [OF tc] by (simp add: get_node_ip_def)
  have deliver: "(DeliverConfig (ms\<lparr>ms_config := tc\<rparr>) :: 'v outgoing res) =
      Inr (map (\<lambda>i. (i, config_to (config_for nodes tc) i)) [0..int (length nodes) - 1])"
    using DeliverConfig_enrolled [of nodes "ms\<lparr>ms_config := tc\<rparr>"] tc by simp
  have "GeneratePartition draw (ms_config ms) = tc"
    using nodes(2) by (simp add: GeneratePartition_def tc_def drawn_def)
  moreover have "tc_id_to_addr tc = ?m" by (simp add: tc_def)
  ultimately have "(start_cluster mcn draw t ms :: (master \<times> 'v outgoing) res) = Inr (ms',
      map (\<lambda>i. (i, config_to (config_for nodes tc) i)) [0..int (length nodes) - 1])"
    using c(1) deliver len fresh(2) by (simp add: start_cluster_def ms'_def Let_def)
  moreover have "cluster_state mcn nodes (drawn draw (tc_server_num (ms_config ms))) t ms'"
    using tc book unfolding cluster_state_def
    by (auto simp: ms'_def map_of_fold_umap_set distinct_fold_umap_set tc_def)
  ultimately show ?thesis by (simp add: ms'_def)
qed

section \<open>Registration\<close>

definition reg_node :: "'v Message \<Rightarrow> role \<times> string" where
  "reg_node msg = (let r = the_register_msg msg in
     (if rg_is_server r then Server_role else Agent_role, addr_of (rg_ip r) (rg_port r)))"

lemma ProcessRegisterMsg_enrols:
  assumes "enrolled nodes (ms_config ms)" "in_i32 (int (length nodes) + 1)"
  shows "\<exists>tc. ProcessRegisterMsg msg ms = Inr (ms\<lparr>ms_config := tc\<rparr>) \<and>
      enrolled (nodes @ [reg_node msg]) tc \<and> settings tc = settings (ms_config ms)"
  using server_reg.register_enrols [OF assms, of "(rg_ip (the_register_msg msg), rg_port (the_register_msg msg))"]
    agent_reg.register_enrols [OF assms, of "(rg_ip (the_register_msg msg), rg_port (the_register_msg msg))"]
  by (auto simp: ProcessRegisterMsg_def reg_node_def Let_def returns_iff)

definition role_count :: "role \<Rightarrow> (role \<times> string) list \<Rightarrow> int" where
  "role_count r nodes = int (length (filter (\<lambda>x. fst x = r) nodes))"

lemma role_count_append [simp]:
  "role_count r (xs @ ys) = role_count r xs + role_count r ys"
  by (simp add: role_count_def)

lemma role_count_nonneg: "0 \<le> role_count r xs"
  by (simp add: role_count_def)

lemma Ready_enrolled:
  assumes "enrolled nodes tc" "0 \<le> tc_server_num tc" "in_i32 (tc_server_num tc)"
    and "0 \<le> tc_worker_num tc" "in_i32 (tc_worker_num tc)"
  shows "Ready tc \<longleftrightarrow> role_count Server_role nodes = tc_server_num tc \<and>
      role_count Agent_role nodes = tc_worker_num tc"
  using assms
  by (simp add: Ready_def enrolled_def addressed_def length_ids_with role_count_def size_t_of_int_nonneg)

definition registers :: "'v Message list \<Rightarrow> bool" where
  "registers msgs \<longleftrightarrow> (\<forall>m\<in>set msgs. message_type m = Message_MessageType_register)"

lemma reg_node_count:
  "role_count Server_role [reg_node m] + role_count Agent_role [reg_node m] = 1"
  by (simp add: role_count_def reg_node_def Let_def)

lemma reg_nodes_count:
  "role_count Server_role (map reg_node ms) + role_count Agent_role (map reg_node ms) = int (length ms)"
proof (induction ms rule: rev_induct)
  case Nil
  then show ?case by (simp add: role_count_def)
next
  case (snoc m ms)
  then show ?case using reg_node_count [of m] by simp
qed

text \<open>As long as nodes are missing, a registration is only recorded.\<close>

lemma cluster_forming:
  assumes "enrolled nodes (ms_config ms)" "registers (map (\<lambda>e. snd (snd e)) es)" "es \<noteq> []"
    and "role_count Server_role (nodes @ map (\<lambda>e. reg_node (snd (snd e))) es) = tc_server_num (ms_config ms)"
    and "role_count Agent_role (nodes @ map (\<lambda>e. reg_node (snd (snd e))) es) = tc_worker_num (ms_config ms)"
    and "in_i32 (tc_server_num (ms_config ms))" "in_i32 (tc_worker_num (ms_config ms))"
    and "in_i32 (int (length nodes) + int (length es))"
  shows "\<exists>tc. enrolled (nodes @ map (\<lambda>e. reg_node (snd (snd e))) (butlast es)) tc \<and>
      settings tc = settings (ms_config ms) \<and>
      lead_loop mcn es ms = lead_loop mcn [last es] (ms\<lparr>ms_config := tc\<rparr>)"
  using assms
proof (induction es arbitrary: nodes ms)
  case (Cons e es)
  obtain d t m where e: "e = (d, t, m)" by (cases e) auto
  show ?case
  proof (cases "es = []")
    case True
    then show ?thesis using Cons.prems(1) by (intro exI [of _ "ms_config ms"]) simp
  next
    case False
    have "in_i32 (int (length nodes) + 1)" using Cons.prems(8) by (simp add: in_i32_iff)
    from ProcessRegisterMsg_enrols [OF Cons.prems(1) this, of m] obtain tc1 where
      reg: "ProcessRegisterMsg m ms = Inr (ms\<lparr>ms_config := tc1\<rparr>)"
      and tc1: "enrolled (nodes @ [reg_node m]) tc1" "settings tc1 = settings (ms_config ms)"
      by blast
    note sel = settings_eqD [OF tc1(2)]
    let ?rest = "map (\<lambda>e. reg_node (snd (snd e))) es"
    have "1 \<le> role_count Server_role ?rest + role_count Agent_role ?rest"
      using reg_nodes_count [of "map (\<lambda>e. snd (snd e)) es"] False by (simp add: comp_def Suc_leI)
    moreover have sums: "role_count Server_role (nodes @ [reg_node m]) + role_count Server_role ?rest = tc_server_num tc1"
        "role_count Agent_role (nodes @ [reg_node m]) + role_count Agent_role ?rest = tc_worker_num tc1"
      using Cons.prems(4,5) role_count_append [of _ "[reg_node m]" ?rest] by (simp_all add: e sel)
    ultimately have "\<not> Ready tc1"
      using Ready_enrolled [OF tc1(1)] Cons.prems(6,7) sel
        role_count_nonneg [of _ "nodes @ [reg_node m]"] role_count_nonneg [of _ ?rest]
      by (metis add_0 add.right_neutral add_left_cancel add_nonneg_nonneg not_one_le_zero)
    then have turn: "lead_loop mcn (e # es) ms = lead_loop mcn es (ms\<lparr>ms_config := tc1\<rparr>)"
      using Cons.prems(2) reg
      by (cases "lead_loop mcn es (ms\<lparr>ms_config := tc1\<rparr>)")
        (auto simp: e registers_def MainLoop_turn_def)
    have "\<exists>tc. enrolled ((nodes @ [reg_node m]) @ map (\<lambda>e. reg_node (snd (snd e))) (butlast es)) tc \<and>
        settings tc = settings (ms_config (ms\<lparr>ms_config := tc1\<rparr>)) \<and>
        lead_loop mcn es (ms\<lparr>ms_config := tc1\<rparr>) =
          lead_loop mcn [last es] (ms\<lparr>ms_config := tc1, ms_config := tc\<rparr>)"
    proof (rule Cons.IH)
      show "registers (map (\<lambda>e. snd (snd e)) es)" using Cons.prems(2) by (simp add: registers_def)
      show "in_i32 (int (length (nodes @ [reg_node m])) + int (length es))"
        using Cons.prems(8) by (simp add: algebra_simps)
    qed (use tc1(1) False Cons.prems(4-7) sel in \<open>simp_all add: e\<close>)
    then show ?thesis using False turn tc1(2) by (simp add: e)
  qed
qed simp

section \<open>A cluster forms\<close>

lemma Master_Initialize_enrols:
  assumes "enrolled nodes (ms_config ms)" "in_i32 (int (length nodes) + int (length (getlines (CHR '','') s)))"
  defines "masters \<equiv> filter (\<lambda>p. p \<noteq> []) (getlines (CHR '','') s)"
  shows "\<exists>tc. Master_Initialize s ms = Inr (int (length masters), ms\<lparr>ms_config := tc\<rparr>) \<and>
      enrolled (nodes @ map (Pair Master_role) masters) tc \<and> settings tc = settings (ms_config ms)"
proof -
  let ?body = "\<lambda>ip_port (count, ms).
      if ip_port = [] then Inr (count, ms)
      else bind_res (AppendMaster ip_port (ms_config ms)) (\<lambda>tc.
        bind_res (i32 (count + 1)) (\<lambda>n. Inr (n, ms\<lparr>ms_config := tc\<rparr>)))"
  have "\<exists>tc. fold_res ?body ps (int k, ms) =
        Inr (int k + int (length (filter (\<lambda>p. p \<noteq> []) ps)), ms\<lparr>ms_config := tc\<rparr>) \<and>
      enrolled (nodes @ map (Pair Master_role) (filter (\<lambda>p. p \<noteq> []) ps)) tc \<and>
      settings tc = settings (ms_config ms)"
    if "enrolled nodes (ms_config ms)" "in_i32 (int (length nodes) + int (length ps))" "k \<le> length nodes"
    for ps k nodes and ms
    using that
  proof (induction ps arbitrary: k nodes ms)
    case Nil
    then show ?case by (intro exI [of _ "ms_config ms"]) simp
  next
    case (Cons p ps)
    have fits: "in_i32 (int (length nodes) + 1)" "in_i32 (int k + 1)" "in_i32 (int (length nodes) + int (length ps))"
        "in_i32 (int (length (nodes @ [(Master_role, p)])) + int (length ps))"
      using Cons.prems(2,3) by (simp_all add: in_i32_iff)
    show ?case
    proof (cases "p = []")
      case True
      then show ?thesis using Cons.IH [OF Cons.prems(1) fits(3) Cons.prems(3)] by simp
    next
      case False
      from master_reg.register_enrols [OF Cons.prems(1) fits(1), of p] obtain tc1 where
        one: "AppendMaster p (ms_config ms) = Inr tc1" "enrolled (nodes @ [(Master_role, p)]) tc1"
          "settings tc1 = settings (ms_config ms)"
        by (auto simp: returns_iff)
      from Cons.IH [of "nodes @ [(Master_role, p)]" "ms\<lparr>ms_config := tc1\<rparr>" "Suc k"]
      show ?thesis using one fits(2,4) False Cons.prems(3)
        by (simp add: ac_simps)
    qed
  qed
  from this [OF assms(1,2), of 0] show ?thesis
    by (simp add: Master_Initialize_def masters_def)
qed

text \<open>The nodes of a cluster: the masters of the command line, then the registered nodes in order.\<close>

definition cluster_nodes ::
    "string \<Rightarrow> ((int \<Rightarrow> int) \<times> int \<times> 'v Message) list \<Rightarrow> (role \<times> string) list" where
  "cluster_nodes master_ip_port es =
     map (Pair Master_role) (filter (\<lambda>p. p \<noteq> []) (getlines (CHR '','') master_ip_port)) @
     map (\<lambda>e. reg_node (snd (snd e))) es"

text \<open>
  A run that forms a cluster: exactly the expected numbers of servers and agents register, every
  address has a port, and the identifiers stay below \<open>max_cluster_node\<close>.
\<close>

definition forming_run ::
    "int \<Rightarrow> int \<Rightarrow> int \<Rightarrow> string \<Rightarrow> ((int \<Rightarrow> int) \<times> int \<times> 'v Message) list \<Rightarrow> bool" where
  "forming_run mcn worker_num server_num master_ip_port es \<longleftrightarrow>
     es \<noteq> [] \<and> (\<forall>e\<in>set es. message_type (snd (snd e)) = Message_MessageType_register) \<and>
     role_count Server_role (cluster_nodes master_ip_port es) = server_num \<and>
     role_count Agent_role (cluster_nodes master_ip_port es) = worker_num \<and>
     in_i32 server_num \<and> in_i32 worker_num \<and>
     (\<forall>x\<in>set (cluster_nodes master_ip_port es). \<exists>h. heartbeat_addr (snd x) = Inr h) \<and>
     int (length (getlines (CHR '','') master_ip_port) + length es) \<le> mcn \<and>
     in_i32 (2 * mcn)"

definition cluster_config ::
    "int \<Rightarrow> int \<Rightarrow> int \<Rightarrow> int \<Rightarrow> int \<Rightarrow> int list \<Rightarrow> (role \<times> string) list \<Rightarrow> ConfigMessage" where
  "cluster_config worker_num server_num kr bnd bsize pv nodes =
     \<lparr> cf_worker_num = worker_num, cf_server_num = server_num, cf_key_range = kr,
       cf_node_ip_port = map snd nodes, cf_partition = pv, cf_backup_size = bsize,
       cf_server_id = ids_with Server_role nodes, cf_worker_id = ids_with Agent_role nodes,
       cf_master_id = ids_with Master_role nodes, cf_bound = bnd \<rparr>"

lemma config_for_settings:
  "settings tc = settings tc' \<Longrightarrow> config_for nodes tc = config_for nodes tc'"
  using settings_eqD [of tc tc'] by (simp add: config_for_def)

text \<open>The registration of the last node starts the cluster.\<close>

lemma last_registration:
  assumes ms: "enrolled nodes0 (ms_config ms)" "tc_partition (ms_config ms) = []"
      "id_to_addr (ms_sender ms) = Map.empty" "ms_alive_node ms = []"
    and m: "message_type m = Message_MessageType_register" "nodes = nodes0 @ [reg_node m]"
    and complete: "role_count Server_role nodes = tc_server_num (ms_config ms)"
      "role_count Agent_role nodes = tc_worker_num (ms_config ms)"
      "in_i32 (tc_server_num (ms_config ms))" "in_i32 (tc_worker_num (ms_config ms))"
    and addrs: "\<forall>a\<in>snd ` set nodes. \<exists>h. heartbeat_addr a = Inr h"
    and ids: "int (length nodes) \<le> mcn" "in_i32 (int (length nodes) + mcn)"
    and pv: "pv = drawn draw (tc_server_num (ms_config ms))"
  shows "\<exists>ms' tc. lead_loop mcn [(draw, t, m)] ms = Inr (False, ms',
        map (\<lambda>i. (i, config_to (config_for nodes tc) i)) [0..int (length nodes) - 1]) \<and>
      cluster_state mcn nodes pv t ms' \<and> ms_config ms' = tc \<and>
      settings tc = (settings (ms_config ms))\<lparr>tc_partition := pv\<rparr> \<and>
      ms_terminated_node ms' = ms_terminated_node ms \<and> ms_is_lead ms' = ms_is_lead ms"
proof -
  have "in_i32 (int (length nodes0) + 1)" using ids by (simp add: m(2) in_i32_iff)
  from ProcessRegisterMsg_enrols [OF ms(1) this, of m] m(2) obtain tc2 where
    reg: "ProcessRegisterMsg m ms = Inr (ms\<lparr>ms_config := tc2\<rparr>)"
    and tc2: "enrolled nodes tc2" "settings tc2 = settings (ms_config ms)"
    by auto
  let ?ms2 = "ms\<lparr>ms_config := tc2\<rparr>"
  define tc where "tc = tc2\<lparr>tc_partition := pv\<rparr>"
  note sel = settings_eqD [OF tc2(2)]
  have "0 \<le> tc_server_num (ms_config ms)" "0 \<le> tc_worker_num (ms_config ms)"
    unfolding complete(1,2) [symmetric] by (rule role_count_nonneg)+
  then have ready: "Ready tc2" using Ready_enrolled [OF tc2(1)] sel(1,2) complete by simp
  have "returns (start_cluster mcn draw t ?ms2 :: (master \<times> 'a outgoing) res) (\<lambda>(ms', out).
      cluster_state mcn nodes (drawn draw (tc_server_num (ms_config ?ms2))) t ms' \<and>
      ms_config ms' = tc \<and> ms_terminated_node ms' = ms_terminated_node ?ms2 \<and>
      ms_is_lead ms' = ms_is_lead ?ms2 \<and>
      out = map (\<lambda>i. (i, config_to (config_for nodes tc) i)) [0..int (length nodes) - 1])"
    by (rule start_cluster_starts) (use tc2(1) sel ms addrs ids pv in \<open>simp_all add: tc_def\<close>)
  then obtain ms' where
    "start_cluster mcn draw t ?ms2 = Inr (ms', map (\<lambda>i. (i, config_to (config_for nodes tc) i :: 'a Message))
        [0..int (length nodes) - 1])"
    "cluster_state mcn nodes pv t ms'" "ms_config ms' = tc"
    "ms_terminated_node ms' = ms_terminated_node ms" "ms_is_lead ms' = ms_is_lead ms"
    using sel(2) pv by (auto simp: returns_iff)
  moreover have "settings tc = (settings (ms_config ms))\<lparr>tc_partition := pv\<rparr>"
    using tc2(2) by (simp add: tc_def settings_partition)
  ultimately show ?thesis using reg ready m(1) by (simp add: MainLoop_turn_def)
qed

lemma Initialize_new_master:
  assumes "in_i32 (int (length (getlines (CHR '','') s)))"
  defines "masters \<equiv> filter (\<lambda>p. p \<noteq> []) (getlines (CHR '','') s)"
  shows "\<exists>tc. Master_Initialize s (Master_new worker_num server_num kr bnd bsize c) =
        Inr (int (length masters), (Master_new worker_num server_num kr bnd bsize c)\<lparr>ms_config := tc\<rparr>) \<and>
      enrolled (map (Pair Master_role) masters) tc \<and>
      settings tc = settings (TaskConfig_Initialize worker_num server_num kr bnd bsize new_task_config)"
proof -
  have "enrolled [] (ms_config (Master_new worker_num server_num kr bnd bsize c))"
    by (simp add: enrolled_def addressed_def Master_new_def TaskConfig_Initialize_def new_task_config_def ids_with_def)
  from Master_Initialize_enrols [OF this, of s] assms show ?thesis by (simp add: Master_new_def)
qed

lemma forming_run_starts:
  assumes run: "forming_run mcn worker_num server_num s es" and fresh: "id_to_addr c = Map.empty"
    and last: "last es = (draw, t, m)"
  defines "nodes \<equiv> cluster_nodes s es" and "pv \<equiv> drawn draw server_num"
  shows "\<exists>n ms ms'. Master_Initialize s (Master_new worker_num server_num kr bnd bsize c) = Inr (n, ms) \<and>
      MainLoop mcn es ms = Inr (False, ms',
        map (\<lambda>i. (i, config_to (cluster_config worker_num server_num kr bnd bsize pv nodes) i))
          [0..int (length nodes) - 1]) \<and>
      cluster_state mcn nodes pv t ms' \<and> ms_terminated_node ms' = [] \<and> ms_is_lead ms' \<and>
      settings (ms_config ms') = settings ((TaskConfig_Initialize worker_num server_num kr bnd bsize
        new_task_config)\<lparr>tc_partition := pv\<rparr>)"
proof -
  let ?masters = "map (Pair Master_role) (filter (\<lambda>p. p \<noteq> []) (getlines (CHR '','') s))"
  let ?reg = "\<lambda>e. reg_node (snd (snd e))"
  let ?tc = "TaskConfig_Initialize worker_num server_num kr bnd bsize new_task_config"
  have nodes: "nodes = ?masters @ map ?reg es" by (simp add: nodes_def cluster_nodes_def)
  have len: "int (length ?masters) \<le> int (length (getlines (CHR '','') s))" by simp
  have r: "es \<noteq> []" "registers (map (\<lambda>e. snd (snd e)) es)"
      "role_count Server_role nodes = server_num" "role_count Agent_role nodes = worker_num"
      "in_i32 server_num" "in_i32 worker_num"
      "\<forall>a\<in>snd ` set nodes. \<exists>h. heartbeat_addr a = Inr h"
      "int (length (getlines (CHR '','') s)) + int (length es) \<le> mcn" "in_i32 (2 * mcn)"
    using run by (auto simp: forming_run_def registers_def nodes_def)
  then have "in_i32 (int (length (getlines (CHR '','') s)))" by (simp add: in_i32_iff)
  from Initialize_new_master [OF this, of worker_num server_num kr bnd bsize c] obtain n ms where
    init: "Master_Initialize s (Master_new worker_num server_num kr bnd bsize c) = Inr (n, ms)"
    and ms: "enrolled ?masters (ms_config ms)" "settings (ms_config ms) = settings ?tc"
      "ms_sender ms = c" "ms_alive_node ms = []" "ms_terminated_node ms = []" "ms_is_lead ms"
    by (auto simp: Master_new_def)
  note sel = settings_eqD [OF ms(2)]
  have nums: "tc_server_num (ms_config ms) = server_num" "tc_worker_num (ms_config ms) = worker_num"
      "tc_partition (ms_config ms) = []"
    using sel by (simp_all add: TaskConfig_Initialize_def new_task_config_def)
  have "in_i32 (int (length ?masters) + int (length es))"
    using len r(8,9) unfolding in_i32_iff by linarith
  with r nums obtain tc1 where tc1: "enrolled (?masters @ map ?reg (butlast es)) tc1"
      "settings tc1 = settings (ms_config ms)" and
    loop: "lead_loop mcn es ms = lead_loop mcn [last es] (ms\<lparr>ms_config := tc1\<rparr>)"
    using cluster_forming [OF ms(1) r(2,1), of mcn] by (auto simp: nodes)
  have "es = butlast es @ [(draw, t, m)]" using r(1) last by (metis append_butlast_last_id)
  then have "map ?reg es = map ?reg (butlast es @ [(draw, t, m)])" by (rule arg_cong)
  then have all: "nodes = (?masters @ map ?reg (butlast es)) @ [reg_node m]" by (simp add: nodes)
  have type: "message_type m = Message_MessageType_register"
    using r(2) last_in_set [OF r(1)] last by (auto simp: registers_def)
  have ids: "int (length nodes) \<le> mcn" "in_i32 (int (length nodes) + mcn)"
    using len r(8,9) unfolding in_i32_iff nodes length_append length_map by linarith+
  note sel1 = settings_eqD [OF tc1(2)]
  have "\<exists>ms' tc. lead_loop mcn [(draw, t, m)] (ms\<lparr>ms_config := tc1\<rparr>) = Inr (False, ms',
        map (\<lambda>i. (i, config_to (config_for nodes tc) i)) [0..int (length nodes) - 1]) \<and>
      cluster_state mcn nodes pv t ms' \<and> ms_config ms' = tc \<and>
      settings tc = (settings (ms_config (ms\<lparr>ms_config := tc1\<rparr>)))\<lparr>tc_partition := pv\<rparr> \<and>
      ms_terminated_node ms' = ms_terminated_node (ms\<lparr>ms_config := tc1\<rparr>) \<and>
      ms_is_lead ms' = ms_is_lead (ms\<lparr>ms_config := tc1\<rparr>)"
    by (rule last_registration [OF _ _ _ _ type all _ _ _ _ r(7) ids])
      (use tc1(1) sel1 nums r ms(3,4) fresh in \<open>simp_all add: pv_def\<close>)
  then obtain ms' where
    turn: "lead_loop mcn es ms = Inr (False, ms',
        map (\<lambda>i. (i, config_to (config_for nodes (ms_config ms')) i)) [0..int (length nodes) - 1])"
    and ms': "cluster_state mcn nodes pv t ms'" "ms_terminated_node ms' = []" "ms_is_lead ms'"
      "settings (ms_config ms') = (settings ?tc)\<lparr>tc_partition := pv\<rparr>"
    using loop last ms tc1(2) by auto
  then have set: "settings (ms_config ms') = settings (?tc\<lparr>tc_partition := pv\<rparr>)"
    by (simp add: settings_partition)
  have "config_for nodes (ms_config ms') = cluster_config worker_num server_num kr bnd bsize pv nodes"
    unfolding config_for_settings [OF set]
    by (simp add: config_for_def cluster_config_def TaskConfig_Initialize_def)
  with turn init ms' set ms(6) show ?thesis by (auto simp: MainLoop_def)
qed

section \<open>Properties\<close>

text \<open>A run for witnesses: one master, two servers and two agents on ten keys.\<close>

definition example_register :: "bool \<Rightarrow> string \<Rightarrow> int \<Rightarrow> int Message" where
  "example_register is_server ip port = new_Message\<lparr>message_type := Message_MessageType_register,
     send_id := -1, register_msg := Some \<lparr> rg_ip = ip, rg_port = port, rg_is_server = is_server \<rparr>\<rparr>"

definition example_events :: "((int \<Rightarrow> int) \<times> int \<times> int Message) list" where
  "example_events = [(\<lambda>i. 6 - 4 * i, 100, example_register True ''10.0.0.1'' 5000),
     (\<lambda>i. 6 - 4 * i, 101, example_register True ''10.0.0.2'' 5000),
     (\<lambda>i. 6 - 4 * i, 102, example_register False ''10.0.0.3'' 5555),
     (\<lambda>i. 6 - 4 * i, 103, example_register False ''10.0.0.4'' 5555)]"

definition example_nodes :: "(role \<times> string) list" where
  "example_nodes = [(Master_role, ''10.0.0.9:16666''), (Server_role, addr_of ''10.0.0.1'' 5000),
     (Server_role, addr_of ''10.0.0.2'' 5000), (Agent_role, addr_of ''10.0.0.3'' 5555),
     (Agent_role, addr_of ''10.0.0.4'' 5555)]"

lemma example_cluster_nodes: "cluster_nodes ''10.0.0.9:16666'' example_events = example_nodes"
  by (simp add: cluster_nodes_def example_events_def example_nodes_def reg_node_def Let_def
    example_register_def the_register_msg_def new_Message_def)

lemma example_forming: "forming_run 10000 2 2 ''10.0.0.9:16666'' example_events"
proof -
  have "char_of (49::nat) = CHR ''1''" "char_of (54::nat) = CHR ''6''" by code_simp+
  then have "''10.0.0.9:16666'' = addr_of ''10.0.0.9'' 16666"
    by (simp add: addr_of_def show_int_def show_nat.simps digit_char_def)
  then have "\<exists>h. heartbeat_addr ''10.0.0.9:16666'' = Inr h"
    by (simp add: heartbeat_addr_of in_i32_iff)
  moreover have "\<exists>h. heartbeat_addr (addr_of ''10.0.0.1'' 5000) = Inr h"
    "\<exists>h. heartbeat_addr (addr_of ''10.0.0.2'' 5000) = Inr h"
    "\<exists>h. heartbeat_addr (addr_of ''10.0.0.3'' 5555) = Inr h"
    "\<exists>h. heartbeat_addr (addr_of ''10.0.0.4'' 5555) = Inr h"
    by (simp_all add: heartbeat_addr_of in_i32_iff)
  ultimately show ?thesis
    unfolding forming_run_def example_cluster_nodes
    by (simp add: example_events_def example_register_def example_nodes_def role_count_def
      new_Message_def in_i32_iff)
qed

text \<open>
  C13: formation of a cluster. A new master is given the comma separated addresses of the
  masters and then receives registrations. When exactly the configured numbers of servers and
  agents have registered (and not before) it sends every node one configuration message. The
  identifiers follow the order of registration, masters first; the message names the servers,
  agents and masters by identifier, lists every address at its identifier, and carries one sorted
  hash value per server. The master then knows the address and the heartbeat port of every node
  and counts every node as alive from that moment.
\<close>

theorem cluster_forms:
  assumes "forming_run mcn worker_num server_num masters es" "id_to_addr c = Map.empty"
    and "last es = (draw, t, m)" "nodes = cluster_nodes masters es"
  shows "\<exists>n ms ms'. Master_Initialize masters (Master_new worker_num server_num kr bnd bsize c) = Inr (n, ms) \<and>
      MainLoop mcn es ms = Inr (False, ms', map (\<lambda>i. (i, config_to
          \<lparr> cf_worker_num = worker_num, cf_server_num = server_num, cf_key_range = kr,
            cf_node_ip_port = map snd nodes, cf_partition = sort (map draw [0..server_num - 1]),
            cf_backup_size = bsize, cf_server_id = ids_with Server_role nodes,
            cf_worker_id = ids_with Agent_role nodes, cf_master_id = ids_with Master_role nodes,
            cf_bound = bnd \<rparr> i))
        [0..int (length nodes) - 1]) \<and>
      (\<forall>i<length nodes. id_to_addr (ms_sender ms') (int i) = Some (snd (nodes ! i)) \<and>
         heartbeat_addr (snd (nodes ! i)) = Inr (the (id_to_addr (ms_sender ms') (int i + mcn)))) \<and>
      map_of (ms_alive_node ms') = (\<lambda>i. if 0 \<le> i \<and> i < int (length nodes) then Some t else None)"
proof -
  from forming_run_starts [OF assms(1-3), of kr bnd bsize] obtain n ms ms' where
    start: "Master_Initialize masters (Master_new worker_num server_num kr bnd bsize c) = Inr (n, ms)"
      "MainLoop mcn es ms = Inr (False, ms', map (\<lambda>i. (i, config_to (cluster_config worker_num server_num
          kr bnd bsize (drawn draw server_num) nodes) i)) [0..int (length nodes) - 1])"
      "cluster_state mcn nodes (drawn draw server_num) t ms'"
    using assms(4) by auto
  have "\<exists>h. heartbeat_addr (snd (nodes ! i)) = Inr h" if "i < length nodes" for i
    using assms(1,4) nth_mem [OF that] by (auto simp: forming_run_def)
  then have "heartbeat_addr (snd (nodes ! i)) = Inr (heartbeat_port (snd (nodes ! i)))"
    if "i < length nodes" for i
    using that by (fastforce simp: heartbeat_port_def)
  with start show ?thesis
    by (auto simp: cluster_config_def drawn_def cluster_state_def)
qed

theorem cluster_forms_witness:
  "\<exists>n ms ms'. Master_Initialize ''10.0.0.9:16666'' (Master_new 2 2 10 1 1 (example_comm\<lparr>id_to_addr := Map.empty\<rparr>)) = Inr (n, ms) \<and>
      MainLoop 10000 example_events ms = Inr (False, ms', map (\<lambda>i. (i, config_to
          \<lparr> cf_worker_num = 2, cf_server_num = 2, cf_key_range = 10,
            cf_node_ip_port = map snd example_nodes, cf_partition = [2, 6], cf_backup_size = 1,
            cf_server_id = [1, 2], cf_worker_id = [3, 4], cf_master_id = [0], cf_bound = 1 \<rparr> i))
        [0, 1, 2, 3, 4])"
proof -
  have l: "last example_events = (\<lambda>i. 6 - 4 * i, 103, example_register False ''10.0.0.4'' 5555)"
    by (simp add: example_events_def)
  have c: "id_to_addr (example_comm\<lparr>id_to_addr := Map.empty\<rparr>) = Map.empty" by simp
  have ids: "ids_with Server_role example_nodes = [1, 2]" "ids_with Agent_role example_nodes = [3, 4]"
    "ids_with Master_role example_nodes = [0]" "length example_nodes = 5"
    by (simp_all add: ids_with_def example_nodes_def upt_rec)
  have up: "[0..1::int] = [0, 1]" "[0..4::int] = [0, 1, 2, 3, 4]" by code_simp+
  show ?thesis
    using cluster_forms [OF example_forming c l, where kr = 10 and bnd = 1 and bsize = 1]
    by (simp add: example_cluster_nodes ids up) blast
qed

end
