(* ===== verification/Master_Running.thy ===== *)
theory Master_Running
  imports Master_Properties Transition_Systems
begin

text \<open>
  The master of a running cluster: the main loop on the messages of the nodes and the turns of the
  two threads as steps of a transition system, its invariant, the end of the main loop, and what
  the detection of dead nodes does to the configuration.
\<close>

section \<open>The invariant\<close>

text \<open>
  Every identifier keeps its address; the servers and agents left are some of those that
  registered, with one hash value per server; every node has a time of last contact.
\<close>

definition running :: "(role \<times> string) list \<Rightarrow> master \<Rightarrow> bool" where
  "running nodes ms \<longleftrightarrow> addressed nodes (ms_config ms) \<and> wf_ids (ms_config ms) \<and>
     tc_master_id (ms_config ms) = ids_with Master_role nodes \<and>
     set (tc_server_id (ms_config ms)) \<subseteq> set (ids_with Server_role nodes) \<and>
     set (tc_agent_id (ms_config ms)) \<subseteq> set (ids_with Agent_role nodes) \<and>
     distinct (map fst (ms_alive_node ms)) \<and> fst ` set (ms_alive_node ms) = {0..<int (length nodes)}"

text \<open>What the nodes of a running cluster send to the master.\<close>

definition node_message :: "(role \<times> string) list \<Rightarrow> 'v Message \<Rightarrow> bool" where
  "node_message nodes msg \<longleftrightarrow> message_type msg \<noteq> Message_MessageType_register \<and>
     (message_type msg = Message_MessageType_heartbeat \<longrightarrow>
        0 \<le> send_id msg \<and> send_id msg < int (length nodes) \<and>
        (\<exists>h. heartbeat_msg msg = Some h \<and> hb_is_live h))"

lemma GetIp_known: "map_of (tc_id_to_addr tc) i \<noteq> None \<Longrightarrow> snd (GetIp i tc) = tc"
  by (auto simp: GetIp_def umap_at_def)

text \<open>The effect of one turn of the main loop of a running cluster.\<close>

definition turn_state :: "int \<Rightarrow> 'v Message \<Rightarrow> master \<Rightarrow> master" where
  "turn_state cur_time msg ms =
     (case message_type msg of
        Message_MessageType_heartbeat \<Rightarrow>
          ms\<lparr>ms_alive_node := umap_set (send_id msg) cur_time (ms_alive_node ms)\<rparr>
      | Message_MessageType_terminate \<Rightarrow>
          ms\<lparr>ms_terminated_node := set_insert (send_id msg) (ms_terminated_node ms)\<rparr>
      | _ \<Rightarrow> ms)"

lemma MainLoop_turn_running:
  assumes "running nodes ms" "node_message nodes msg"
  shows "MainLoop_turn mcn draw t msg ms = Inr (message_type msg = Message_MessageType_terminate \<and>
      int (length (ms_terminated_node (turn_state t msg ms))) = size_t_of_int (tc_worker_num (ms_config ms)),
      turn_state t msg ms, [])"
    and "running nodes (turn_state t msg ms)"
    and "tc_worker_num (ms_config (turn_state t msg ms)) = tc_worker_num (ms_config ms)"
proof -
  have known: "snd (GetIp (send_id msg) (ms_config ms)) = ms_config ms"
    if "message_type msg = Message_MessageType_heartbeat"
    using assms that addressed_lookup [of nodes "ms_config ms" "send_id msg"]
    by (intro GetIp_known) (simp add: running_def node_message_def)
  show "MainLoop_turn mcn draw t msg ms = Inr (message_type msg = Message_MessageType_terminate \<and>
      int (length (ms_terminated_node (turn_state t msg ms))) = size_t_of_int (tc_worker_num (ms_config ms)),
      turn_state t msg ms, [])"
    using assms(2) known
    by (cases "message_type msg")
      (auto simp: MainLoop_turn_def node_message_def turn_state_def ProcessHeartbeatMsg_def
        the_heartbeat_msg_def Let_def)
  show "running nodes (turn_state t msg ms)"
    using assms
    by (cases "message_type msg")
      (auto simp: turn_state_def running_def node_message_def distinct_umap_set keys_umap_set)
  show "tc_worker_num (ms_config (turn_state t msg ms)) = tc_worker_num (ms_config ms)"
    by (cases "message_type msg") (simp_all add: turn_state_def)
qed

section \<open>Dead nodes\<close>

text \<open>A node is dead when its last contact is older than the timeout.\<close>

definition dead :: "int \<Rightarrow> int \<Rightarrow> master \<Rightarrow> int \<Rightarrow> bool" where
  "dead timeout now ms i \<longleftrightarrow> (\<exists>t. map_of (ms_alive_node ms) i = Some t \<and> t + timeout < now)"

lemma set_GetDeadNode:
  "distinct (map fst (ms_alive_node ms)) \<Longrightarrow> set (GetDeadNode timeout now ms) = {i. dead timeout now ms i}"
  by (force simp: GetDeadNode_def dead_def)

text \<open>The last contact of node \<open>i\<close> is not before \<open>t\<close>.\<close>

definition seen_since :: "int \<Rightarrow> int \<Rightarrow> master \<Rightarrow> bool" where
  "seen_since t i ms \<longleftrightarrow> (\<exists>t'. map_of (ms_alive_node ms) i = Some t' \<and> t \<le> t')"

lemma GetDeadNode_none:
  assumes "running nodes ms"
  shows "GetDeadNode timeout now ms = [] \<longleftrightarrow> (\<forall>i\<in>{0..<int (length nodes)}. seen_since (now - timeout) i ms)"
proof -
  have alive: "distinct (map fst (ms_alive_node ms))" "dom (map_of (ms_alive_node ms)) = {0..<int (length nodes)}"
    using assms by (simp_all add: running_def dom_map_of_conv_image_fst)
  have "GetDeadNode timeout now ms = [] \<longleftrightarrow> (\<forall>i. \<not> dead timeout now ms i)"
    using set_GetDeadNode [OF alive(1), of timeout now] by auto
  also have "\<dots> \<longleftrightarrow> (\<forall>i\<in>dom (map_of (ms_alive_node ms)). seen_since (now - timeout) i ms)"
    by (fastforce simp: dead_def seen_since_def dom_def)
  finally show ?thesis by (simp only: alive(2))
qed

lemma GetIp_all_known:
  "\<forall>i\<in>set is. map_of (tc_id_to_addr tc) i \<noteq> None \<Longrightarrow> fold (\<lambda>i tc. snd (GetIp i tc)) is tc = tc"
  by (induction "is") (simp_all add: GetIp_known)

lemma DetectDeadNode_running:
  assumes "running nodes ms"
  shows "returns (DetectDeadNode_turn timeout now ms) (\<lambda>ms'. running nodes ms' \<and>
      tc_server_id (ms_config ms') = filter (\<lambda>i. \<not> dead timeout now ms i) (tc_server_id (ms_config ms)) \<and>
      tc_agent_id (ms_config ms') = filter (\<lambda>i. \<not> dead timeout now ms i) (tc_agent_id (ms_config ms)) \<and>
      set (tc_partition (ms_config ms')) \<subseteq> set (tc_partition (ms_config ms)) \<and>
      tc_config_changed (ms_config ms') = (tc_config_changed (ms_config ms) \<or> (\<exists>i. dead timeout now ms i)) \<and>
      tc_worker_num (ms_config ms') = tc_worker_num (ms_config ms) \<and>
      tc_server_num (ms_config ms') = tc_server_num (ms_config ms) \<and>
      ms' = ms\<lparr>ms_config := ms_config ms'\<rparr>)"
proof -
  let ?dead = "GetDeadNode timeout now ms" and ?tc = "ms_config ms"
  have r: "addressed nodes ?tc" "wf_ids ?tc" "distinct (map fst (ms_alive_node ms))"
      "fst ` set (ms_alive_node ms) = {0..<int (length nodes)}"
    using assms by (simp_all add: running_def)
  have set: "set ?dead = {i. dead timeout now ms i}" by (rule set_GetDeadNode [OF r(3)])
  show ?thesis
  proof (cases "?dead = []")
    case True
    then have none: "\<not> dead timeout now ms i" for i using set by auto
    with True assms show ?thesis by (simp add: DetectDeadNode_turn_def)
  next
    case False
    have "map_of (tc_id_to_addr ?tc) i \<noteq> None" if "i \<in> set ?dead" for i
    proof -
      have "i \<in> fst ` set (ms_alive_node ms)" using that by (force simp: GetDeadNode_def)
      with r(4) show ?thesis using addressed_lookup [OF r(1)] by simp
    qed
    then have "fold (\<lambda>i tc. snd (GetIp i tc)) ?dead ?tc = ?tc" by (intro GetIp_all_known) blast
    moreover have "wf_ids (?tc\<lparr>tc_config_changed := True\<rparr>)" using r(2) by (simp add: wf_ids_def)
    from remove_nodes_wf [OF this, of ?dead] obtain tc where
      tc: "fold_res remove_node ?dead (?tc\<lparr>tc_config_changed := True\<rparr>) = Inr tc" "wf_ids tc"
        "tc_server_id tc = filter (\<lambda>i. \<not> dead timeout now ms i) (tc_server_id ?tc)"
        "tc_agent_id tc = filter (\<lambda>i. \<not> dead timeout now ms i) (tc_agent_id ?tc)"
        "set (tc_partition tc) \<subseteq> set (tc_partition ?tc)"
        "kept_by_removal tc = kept_by_removal (?tc\<lparr>tc_config_changed := True\<rparr>)"
      using set by (auto simp: returns_iff)
    note kept = kept_by_removalD [OF tc(6)]
    ultimately have "DetectDeadNode_turn timeout now ms = Inr (ms\<lparr>ms_config := tc\<rparr>)"
      using False tc(1) by (simp add: DetectDeadNode_turn_def FixConfig_def Let_def)
    moreover have "running nodes (ms\<lparr>ms_config := tc\<rparr>)"
      using assms tc(2-4) kept by (auto simp: running_def addressed_def)
    moreover have "\<exists>i. dead timeout now ms i" using False set by (cases ?dead) auto
    ultimately show ?thesis using tc(3-5) kept by simp
  qed
qed

section \<open>Heartbeats\<close>

text \<open>The configuration of the nodes left, as the heartbeat after a change carries it.\<close>

definition running_config :: "(role \<times> string) list \<Rightarrow> task_config \<Rightarrow> ConfigMessage" where
  "running_config nodes tc = (config_for nodes tc)\<lparr>cf_server_id := tc_server_id tc,
     cf_worker_id := tc_agent_id tc\<rparr>"

definition heartbeat_to :: "ConfigMessage option \<Rightarrow> int \<Rightarrow> 'v Message" where
  "heartbeat_to cfg i = new_Message\<lparr>send_id := 0, recv_id := i,
     message_type := Message_MessageType_heartbeat, config_msg := cfg,
     heartbeat_msg := Some (default_HeartbeatMessage\<lparr>hb_is_live := True\<rparr>)\<rparr>"

lemma DeliverHeartbeat_running:
  assumes "running nodes ms" "0 \<le> mcn" "in_i32 (int (length nodes) + mcn)"
  defines "cfg \<equiv> (if tc_config_changed (ms_config ms) then Some (running_config nodes (ms_config ms)) else None)"
  shows "(DeliverHeartbeat mcn ms :: (master \<times> 'a outgoing) res) =
      Inr (ms\<lparr>ms_config := (ms_config ms)\<lparr>tc_config_changed := False\<rparr>\<rparr>,
        map (\<lambda>i. (i + mcn, heartbeat_to cfg i)) (tc_agent_id (ms_config ms)) @
        map (\<lambda>i. (i, heartbeat_to cfg i)) (tc_server_id (ms_config ms)))"
    and "running nodes (ms\<lparr>ms_config := (ms_config ms)\<lparr>tc_config_changed := False\<rparr>\<rparr>)"
proof -
  let ?tc = "ms_config ms"
  have "ToMessage ?tc = Inr (running_config nodes ?tc)"
    using ToMessage_addressed [of nodes ?tc] assms(1)
    by (simp add: running_def running_config_def config_for_def)
  moreover have "map_res (\<lambda>i. bind_res (i32 (i + mcn)) (\<lambda>j. Inr (j, f i))) (tc_agent_id ?tc) =
      Inr (map (\<lambda>i. (i + mcn, f i)) (tc_agent_id ?tc))" for f :: "int \<Rightarrow> 'a Message"
  proof (rule map_res_pure)
    fix i assume "i \<in> set (tc_agent_id ?tc)"
    then have "i \<in> set (ids_with Agent_role nodes)" using assms(1) by (auto simp: running_def)
    then have "0 \<le> i" "i < int (length nodes)" by (auto simp: set_ids_with)
    then have "in_i32 (i + mcn)" using assms(2,3) by (simp add: in_i32_iff)
    then show "bind_res (i32 (i + mcn)) (\<lambda>j. Inr (j, f i)) = Inr (i + mcn, f i)"
      by simp
  qed
  moreover have "ms\<lparr>ms_config := ?tc\<lparr>tc_config_changed := False\<rparr>\<rparr> = ms" if "\<not> tc_config_changed ?tc"
    using that by (cases ms, cases ?tc) simp
  ultimately show "(DeliverHeartbeat mcn ms :: (master \<times> 'a outgoing) res) =
      Inr (ms\<lparr>ms_config := ?tc\<lparr>tc_config_changed := False\<rparr>\<rparr>,
        map (\<lambda>i. (i + mcn, heartbeat_to cfg i)) (tc_agent_id ?tc) @
        map (\<lambda>i. (i, heartbeat_to cfg i)) (tc_server_id ?tc))"
    by (simp add: DeliverHeartbeat_def cfg_def heartbeat_to_def new_Message_def Let_def)
  show "running nodes (ms\<lparr>ms_config := ?tc\<lparr>tc_config_changed := False\<rparr>\<rparr>)"
    using assms(1) by (simp add: running_def addressed_def wf_ids_def)
qed

section \<open>The master as a transition system\<close>

definition started :: "int \<Rightarrow> (role \<times> string) list \<Rightarrow> master \<Rightarrow> bool" where
  "started mcn nodes ms \<longleftrightarrow> 0 \<le> mcn \<and> in_i32 (int (length nodes) + mcn) \<and>
     (\<exists>pv t. cluster_state mcn nodes pv t ms \<and> sorted pv \<and> length pv = length (ids_with Server_role nodes))"

text \<open>The steps of a master to which the messages \<open>arrives\<close> come.\<close>

inductive master_step :: "('v Message \<Rightarrow> bool) \<Rightarrow> int \<Rightarrow> int \<Rightarrow> master \<Rightarrow> master \<Rightarrow> bool"
  for arrives :: "'v Message \<Rightarrow> bool" and mcn timeout where
  main: "arrives msg \<Longrightarrow> MainLoop_turn mcn draw t msg ms = Inr (False, ms', out) \<Longrightarrow>
    master_step arrives mcn timeout ms ms'"
| detect: "DetectDeadNode_turn timeout t ms = Inr ms' \<Longrightarrow> master_step arrives mcn timeout ms ms'"
| deliver: "DeliverHeartbeat mcn ms = Inr (ms', out :: 'v outgoing) \<Longrightarrow>
    master_step arrives mcn timeout ms ms'"

inductive_cases master_stepE: "master_step arrives mcn timeout ms ms'"

lemma started_running:
  assumes "started mcn nodes ms"
  shows "running nodes ms"
proof -
  from assms obtain pv t where "cluster_state mcn nodes pv t ms" "sorted pv"
      "length pv = length (ids_with Server_role nodes)"
    by (auto simp: started_def)
  then have e: "enrolled nodes (ms_config ms)" and "wf_ids (ms_config ms)"
    and alive: "distinct (map fst (ms_alive_node ms))"
      "dom (map_of (ms_alive_node ms)) = {0..<int (length nodes)}"
    by (auto simp: cluster_state_def wf_ids_def enrolled_def distinct_ids_with set_ids_with dom_def
      split: if_splits)
  then show ?thesis
    by (simp add: running_def enrolled_addressed dom_map_of_conv_image_fst) (simp add: enrolled_def)
qed

lemma DeliverHeartbeat_state:
  assumes "DeliverHeartbeat mcn ms = Inr (ms', out)" "running nodes ms"
  shows "running nodes ms'"
proof -
  have "ms' = ms \<or> ms' = ms\<lparr>ms_config := (ms_config ms)\<lparr>tc_config_changed := False\<rparr>\<rparr>"
    using assms(1)
    by (auto simp: DeliverHeartbeat_def bind_res_def Let_def split: sum.splits if_splits)
  with assms(2) show ?thesis by (elim disjE) (simp_all add: running_def addressed_def wf_ids_def)
qed

interpretation mast: invariant_system "started mcn nodes"
  "master_step (node_message nodes :: 'v Message \<Rightarrow> bool) mcn timeout" "running nodes"
  for mcn nodes timeout
proof
  fix ms ms'
  assume run: "running nodes ms"
    and "master_step (node_message nodes :: 'v Message \<Rightarrow> bool) mcn timeout ms ms'"
  from this(2) show "running nodes ms'"
  proof (rule master_stepE)
    fix msg :: "'v Message" and draw t out
    assume "node_message nodes msg" "MainLoop_turn mcn draw t msg ms = Inr (False, ms', out)"
    with MainLoop_turn_running(1) [OF run, of msg mcn draw t] MainLoop_turn_running(2) [OF run, of msg t]
    show ?thesis by simp
  next
    fix t assume "DetectDeadNode_turn timeout t ms = Inr ms'"
    with DetectDeadNode_running [OF run, of timeout t] show ?thesis by simp
  next
    fix out :: "'v outgoing" assume "DeliverHeartbeat mcn ms = Inr (ms', out)"
    then show ?thesis using run by (rule DeliverHeartbeat_state)
  qed
qed (rule started_running)

section \<open>Properties\<close>

lemma reach_start: "reach init step s \<Longrightarrow> \<exists>s0. init s0"
  by (induction rule: reach.induct) auto

lemma forming_started:
  assumes "forming_run mcn worker_num server_num s es" "id_to_addr (c :: zmq_communicator) = Map.empty" "0 \<le> mcn"
  shows "\<exists>ms. started mcn (cluster_nodes s es) ms \<and> ms_terminated_node ms = [] \<and>
      tc_worker_num (ms_config ms) = worker_num \<and> ms_is_lead ms"
proof -
  obtain draw t m where last: "last es = (draw, t, m)" by (cases "last es")
  let ?nodes = "cluster_nodes s es"
  from forming_run_starts [OF assms(1,2) last, of 0 0 0] obtain ms where
    ms: "cluster_state mcn ?nodes (drawn draw server_num) t ms" "ms_terminated_node ms = []" "ms_is_lead ms"
      "settings (ms_config ms) = settings ((TaskConfig_Initialize worker_num server_num 0 0 0
        new_task_config)\<lparr>tc_partition := drawn draw server_num\<rparr>)"
    by blast
  have n: "role_count Server_role ?nodes = server_num"
      "int (length (getlines (CHR '','') s)) + int (length es) \<le> mcn" "in_i32 (2 * mcn)"
    using assms(1) by (simp_all add: forming_run_def)
  have len: "int (length ?nodes) \<le> int (length (getlines (CHR '','') s)) + int (length es)"
    by (simp add: cluster_nodes_def)
  have "in_i32 (int (length ?nodes) + mcn)"
    using n(2,3) len assms(3) unfolding in_i32_iff by linarith
  moreover have "length (drawn draw server_num) = length (ids_with Server_role ?nodes)"
    using n(1) by (auto simp: drawn_def length_ids_with role_count_def)
  moreover have "sorted (drawn draw server_num)" by (simp add: drawn_def)
  ultimately have "started mcn ?nodes ms" using assms(3) ms(1) by (auto simp: started_def)
  then show ?thesis using ms settings_eqD(1) [OF ms(4)] by (auto simp: TaskConfig_Initialize_def)
qed

definition terminate_from :: "int \<Rightarrow> int Message" where
  "terminate_from i = new_Message\<lparr>message_type := Message_MessageType_terminate, send_id := i\<rparr>"

lemma example_started:
  "\<exists>ms. started 10000 example_nodes ms \<and> ms_terminated_node ms = [] \<and>
     tc_worker_num (ms_config ms) = 2 \<and> ms_is_lead ms"
  using forming_started [OF example_forming, of "example_comm\<lparr>id_to_addr := Map.empty\<rparr>"]
  by (simp add: example_cluster_nodes)

text \<open>
  C19: the configuration of a running cluster stays well-formed. In every state that the
  master reaches by turns of its main loop, detections of dead nodes and heartbeats, in any
  order, the configuration message can be built, lists the address of every node at its
  identifier, names only nodes that registered with that role, each once, and carries one hash
  value per server left, in order.
\<close>

theorem configuration_stays_wf:
  assumes "reach (started mcn nodes) (master_step (node_message nodes :: 'v Message \<Rightarrow> bool) mcn timeout) ms"
  shows "\<exists>cfg. ToMessage (ms_config ms) = Inr cfg \<and> cf_node_ip_port cfg = map snd nodes \<and>
      cf_master_id cfg = ids_with Master_role nodes \<and>
      set (cf_server_id cfg) \<subseteq> set (ids_with Server_role nodes) \<and> distinct (cf_server_id cfg) \<and>
      set (cf_worker_id cfg) \<subseteq> set (ids_with Agent_role nodes) \<and> distinct (cf_worker_id cfg) \<and>
      length (cf_partition cfg) = length (cf_server_id cfg) \<and> sorted (cf_partition cfg)"
  using mast.reach_invar [OF assms] ToMessage_addressed [of nodes "ms_config ms"]
  by (simp add: running_def wf_ids_def config_for_def)

theorem configuration_stays_wf_witness:
  "\<exists>ms. reach (started 10000 example_nodes)
       (master_step (node_message example_nodes :: int Message \<Rightarrow> bool) 10000 30) ms \<and>
     (\<exists>cfg. ToMessage (ms_config ms) = Inr cfg \<and> cf_node_ip_port cfg = map snd example_nodes)"
  using example_started configuration_stays_wf [where 'v = int and mcn = 10000 and nodes = example_nodes
    and timeout = 30] reach_init [of "started 10000 example_nodes"]
  by blast

text \<open>
  C20: the turns of a running master that do not log dead nodes return. Every turn of the main
  loop on a heartbeat, a termination or an unexpected message returns and sends nothing; every
  delivery of heartbeats returns; and a detection logs nothing and leaves the master as it is exactly
  when every node was heard from within the timeout. (A detection that does find a dead node logs it
  through a dangling reference, so nothing is claimed here about its return.)
\<close>

theorem master_turns_return:
  assumes "reach (started mcn nodes) (master_step (node_message nodes :: 'v Message \<Rightarrow> bool) mcn timeout) ms"
  shows "(\<forall>(msg :: 'v Message) draw t. node_message nodes msg \<longrightarrow>
        (\<exists>ended ms'. MainLoop_turn mcn draw t msg ms = Inr (ended, ms', []))) \<and>
      (\<exists>ms' (out :: 'v outgoing). DeliverHeartbeat mcn ms = Inr (ms', out)) \<and>
      (\<forall>now. GetDeadNode timeout now ms = [] \<longleftrightarrow>
        (\<forall>i\<in>{0..<int (length nodes)}. seen_since (now - timeout) i ms)) \<and>
      (\<forall>now. GetDeadNode timeout now ms = [] \<longrightarrow> DetectDeadNode_turn timeout now ms = Inr ms)"
proof -
  have run: "running nodes ms" by (rule mast.reach_invar [OF assms])
  have num: "0 \<le> mcn" "in_i32 (int (length nodes) + mcn)"
    using reach_start [OF assms] by (auto simp: started_def)
  have "GetDeadNode timeout now ms = [] \<longleftrightarrow> (\<forall>i\<in>{0..<int (length nodes)}. seen_since (now - timeout) i ms)" for now
    by (rule GetDeadNode_none [OF run])
  moreover have "DetectDeadNode_turn timeout now ms = Inr ms" if "GetDeadNode timeout now ms = []" for now
    using that by (simp add: DetectDeadNode_turn_def)
  ultimately show ?thesis
    using MainLoop_turn_running(1) [OF run] DeliverHeartbeat_running(1) [OF run num] by blast
qed

theorem master_turns_return_witness:
  "\<exists>ms t. started 10000 example_nodes ms \<and>
     (\<exists>ms'. MainLoop_turn 10000 (\<lambda>_. 0) 110 (terminate_from 3) ms = Inr (False, ms', [])) \<and>
     (\<exists>ms' (out :: int outgoing). DeliverHeartbeat 10000 ms = Inr (ms', out)) \<and>
     DetectDeadNode_turn 30 (t + 30) ms = Inr ms \<and> GetDeadNode 30 (t + 31) ms \<noteq> []"
proof -
  from example_started obtain ms where ms: "started 10000 example_nodes ms" "ms_terminated_node ms = []"
      "tc_worker_num (ms_config ms) = 2" by blast
  then obtain pv t where "cluster_state 10000 example_nodes pv t ms" by (auto simp: started_def)
  then have t: "\<forall>i\<in>{0..<int (length example_nodes)}. map_of (ms_alive_node ms) i = Some t"
    by (simp add: cluster_state_def)
  have r: "reach (started 10000 example_nodes)
      (master_step (node_message example_nodes :: int Message \<Rightarrow> bool) 10000 30) ms"
    using ms(1) by (rule reach_init)
  have m: "node_message example_nodes (terminate_from 3)" by (simp add: node_message_def terminate_from_def)
  note returns = master_turns_return [OF r]
  from conjunct1 [OF returns] m obtain ended ms' where
    turn: "MainLoop_turn 10000 (\<lambda>_. 0) 110 (terminate_from 3) ms = Inr (ended, ms', [])"
    by blast
  have "turn_state 110 (terminate_from 3) ms = ms\<lparr>ms_terminated_node := [3]\<rparr>"
    using ms(2) by (simp add: turn_state_def terminate_from_def set_insert_def)
  then have "\<not> ended"
    using turn MainLoop_turn_running(1) [OF started_running [OF ms(1)] m, of 10000 "\<lambda>_. 0" 110] ms(3)
    by (simp add: size_t_of_int_nonneg in_i32_iff)
  moreover have quiet: "GetDeadNode 30 now ms = [] \<longleftrightarrow>
      (\<forall>i\<in>{0..<int (length example_nodes)}. seen_since (now - 30) i ms)" for now
    using returns by simp
  have "GetDeadNode 30 (t + 30) ms = []" using t by (simp add: quiet seen_since_def)
  moreover from this have "DetectDeadNode_turn 30 (t + 30) ms = Inr ms" using returns by simp
  moreover have "0 \<in> {0..<int (length example_nodes)}" by (simp add: example_nodes_def)
  then have "GetDeadNode 30 (t + 31) ms \<noteq> []" unfolding quiet using t by (auto simp: seen_since_def)
  moreover have "\<exists>ms' (out :: int outgoing). DeliverHeartbeat 10000 ms = Inr (ms', out)" using returns by simp
  ultimately show ?thesis using ms(1) turn by (intro exI [of _ ms] exI [of _ t]) auto
qed

text \<open>The nodes that announce their termination in a sequence of messages.\<close>

definition terminators :: "((int \<Rightarrow> int) \<times> int \<times> 'v Message) list \<Rightarrow> int set" where
  "terminators es = {send_id m | d t m. (d, t, m) \<in> set es \<and> message_type m = Message_MessageType_terminate}"

lemma terminators_Nil: "terminators [] = {}"
  by (simp add: terminators_def)

lemma terminators_Cons:
  "terminators ((d, t, m) # es) =
     (if message_type m = Message_MessageType_terminate then insert (send_id m) (terminators es)
      else terminators es)"
  by (auto simp: terminators_def)

lemma terminated_turn:
  "set (ms_terminated_node (turn_state t m ms)) \<union> terminators es =
     set (ms_terminated_node ms) \<union> terminators ((d, t, m) # es)"
  "distinct (ms_terminated_node (turn_state t m ms)) = distinct (ms_terminated_node ms)"
  "length (ms_terminated_node (turn_state t m ms)) \<le> Suc (length (ms_terminated_node ms))"
  "message_type m \<noteq> Message_MessageType_terminate \<Longrightarrow>
     ms_terminated_node (turn_state t m ms) = ms_terminated_node ms"
proof -
  show "set (ms_terminated_node (turn_state t m ms)) \<union> terminators es =
      set (ms_terminated_node ms) \<union> terminators ((d, t, m) # es)"
    by (cases "message_type m") (auto simp: turn_state_def terminators_Cons)
qed (cases "message_type m"; simp add: turn_state_def set_insert_def)+

lemma finite_terminators: "finite (terminators es)"
  by (rule finite_subset [of _ "send_id ` (snd ` snd ` set es)"]) (force simp: terminators_def)+

lemma lead_loop_running:
  assumes "running nodes ms" "\<forall>e\<in>set es. node_message nodes (snd (snd e))"
    and "distinct (ms_terminated_node ms)" "int (length (ms_terminated_node ms)) < tc_worker_num (ms_config ms)"
    and "in_i32 (tc_worker_num (ms_config ms))"
  shows "\<exists>ms'. lead_loop mcn es ms = Inr (tc_worker_num (ms_config ms) \<le>
      int (card (set (ms_terminated_node ms) \<union> terminators es)), ms', [])"
  using assms
proof (induction es arbitrary: ms)
  case Nil
  then show ?case by (simp add: terminators_def distinct_card)
next
  case (Cons e es)
  obtain d t m where e: "e = (d, t, m)" by (cases e)
  let ?ms = "turn_state t m ms" and ?W = "tc_worker_num (ms_config ms)"
  let ?T = "ms_terminated_node ?ms"
  have m: "node_message nodes m" using Cons.prems(2) by (simp add: e)
  note turn = MainLoop_turn_running [OF Cons.prems(1) m]
  have W: "size_t_of_int ?W = ?W" using Cons.prems(4,5) by (simp add: size_t_of_int_nonneg)
  note T = terminated_turn(1) [of t m ms es d, folded e] terminated_turn(2,3) [of t m ms] terminated_turn(4) [of m t ms]
  have dist: "distinct ?T" using Cons.prems(3) T by simp
  show ?case
  proof (cases "message_type m = Message_MessageType_terminate \<and> int (length ?T) = ?W")
    case True
    have "card (set ?T) \<le> card (set ?T \<union> terminators es)" by (intro card_mono) (auto simp: finite_terminators)
    then have "?W \<le> int (card (set (ms_terminated_node ms) \<union> terminators (e # es)))"
      using True dist T(1) by (simp add: distinct_card)
    with True turn(1) [of mcn d t] W show ?thesis by (simp add: e)
  next
    case False
    have "int (length ?T) < ?W" using False T(3,4) Cons.prems(4) by (cases "message_type m = Message_MessageType_terminate") auto
    then have "\<exists>ms'. lead_loop mcn es ?ms = Inr (?W \<le> int (card (set ?T \<union> terminators es)), ms', [])"
      using Cons.IH [OF turn(2) [of t]] Cons.prems(2,5) dist turn(3) [of t] by (simp add: e)
    then show ?thesis using False turn(1) [of mcn d t] W T(1) by (auto simp: e)
  qed
qed

text \<open>
  C21: the main loop ends exactly when as many different nodes have announced their
  termination as there are workers. On any sequence of messages of a running cluster the loop
  handles them all or ends early, without a fault, and its flag says which.
\<close>

theorem MainLoop_ends:
  assumes "running nodes ms" "ms_is_lead ms" "ms_terminated_node ms = []"
    and "\<forall>e\<in>set es. node_message nodes (snd (snd e))"
    and "1 \<le> tc_worker_num (ms_config ms)" "in_i32 (tc_worker_num (ms_config ms))"
  shows "\<exists>ms'. MainLoop mcn es ms =
      Inr (tc_worker_num (ms_config ms) \<le> int (card (terminators es)), ms', [])"
  using lead_loop_running [OF assms(1,4), of mcn] assms by (simp add: MainLoop_def)

theorem MainLoop_ends_witness:
  "\<exists>ms ms' ms''. running example_nodes ms \<and>
     MainLoop 10000 [(\<lambda>_. 0, 110, terminate_from 3), (\<lambda>_. 0, 111, terminate_from 3)] ms = Inr (False, ms', []) \<and>
     MainLoop 10000 [(\<lambda>_. 0, 110, terminate_from 3), (\<lambda>_. 0, 111, terminate_from 3),
       (\<lambda>_. 0, 112, terminate_from 4)] ms = Inr (True, ms'', [])"
proof -
  from example_started obtain ms where
    ms: "running example_nodes ms" "ms_terminated_node ms = []" "tc_worker_num (ms_config ms) = 2" "ms_is_lead ms"
    using started_running by blast
  have n: "\<forall>e\<in>set [(\<lambda>_. 0 :: int, 110 :: int, terminate_from 3), (\<lambda>_. 0, 111, terminate_from 3)].
      node_message example_nodes (snd (snd e))"
    "\<forall>e\<in>set [(\<lambda>_. 0 :: int, 110 :: int, terminate_from 3), (\<lambda>_. 0, 111, terminate_from 3), (\<lambda>_. 0, 112, terminate_from 4)].
      node_message example_nodes (snd (snd e))"
    by (simp_all add: node_message_def terminate_from_def)
  have t: "terminators [(\<lambda>_. 0 :: int, 110 :: int, terminate_from 3), (\<lambda>_. 0, 111, terminate_from 3)] = {3}"
    "terminators [(\<lambda>_. 0 :: int, 110 :: int, terminate_from 3), (\<lambda>_. 0, 111, terminate_from 3),
      (\<lambda>_. 0, 112, terminate_from 4)] = {3, 4}"
    by (simp_all add: terminators_Cons terminators_Nil terminate_from_def)
  have W: "1 \<le> tc_worker_num (ms_config ms)" "in_i32 (tc_worker_num (ms_config ms))"
    using ms(3) by (simp_all add: in_i32_iff)
  note ends = MainLoop_ends [OF ms(1,4,2) n(1) W, of 10000] MainLoop_ends [OF ms(1,4,2) n(2) W, of 10000]
  have "(2 \<le> int (card {3 :: int})) = False" "(2 \<le> int (card {3 :: int, 4})) = True" by simp_all
  with ends ms(1) show ?thesis unfolding t ms(3) by metis
qed

text \<open>
  C22: a detection of dead nodes removes exactly the servers and agents whose last contact is
  older than the timeout, keeps the order of the others and one hash value for every server
  left, and marks the configuration as changed when any node is dead.
\<close>

theorem DetectDeadNode_removes_dead:
  assumes "reach (started mcn nodes) (master_step (node_message nodes :: 'v Message \<Rightarrow> bool) mcn timeout) ms"
  shows "\<exists>ms'. DetectDeadNode_turn timeout now ms = Inr ms' \<and>
      tc_server_id (ms_config ms') = filter (\<lambda>i. \<not> dead timeout now ms i) (tc_server_id (ms_config ms)) \<and>
      tc_agent_id (ms_config ms') = filter (\<lambda>i. \<not> dead timeout now ms i) (tc_agent_id (ms_config ms)) \<and>
      length (tc_partition (ms_config ms')) = length (tc_server_id (ms_config ms')) \<and>
      sorted (tc_partition (ms_config ms')) \<and>
      set (tc_partition (ms_config ms')) \<subseteq> set (tc_partition (ms_config ms)) \<and>
      tc_config_changed (ms_config ms') = (tc_config_changed (ms_config ms) \<or> (\<exists>i. dead timeout now ms i))"
  using DetectDeadNode_running [OF mast.reach_invar [OF assms], of timeout now]
  by (auto simp: returns_iff running_def wf_ids_def)

theorem DetectDeadNode_removes_dead_witness:
  "\<exists>ms ms'. started 10000 example_nodes ms \<and> DetectDeadNode_turn 30 200 ms = Inr ms' \<and>
     tc_server_id (ms_config ms') = filter (\<lambda>i. \<not> dead 30 200 ms i) (tc_server_id (ms_config ms))"
proof -
  from example_started obtain ms where ms: "started 10000 example_nodes ms" by blast
  have "reach (started 10000 example_nodes)
      (master_step (node_message example_nodes :: int Message \<Rightarrow> bool) 10000 30) ms"
    using ms by (rule reach_init)
  from DetectDeadNode_removes_dead [OF this, of 200] ms show ?thesis by blast
qed

lemma seen_since_turn: "t \<le> t' \<Longrightarrow> seen_since t i ms \<Longrightarrow> seen_since t i (turn_state t' msg ms)"
  by (cases "message_type msg") (auto simp: seen_since_def turn_state_def map_of_umap_set)

lemma seen_since_loop:
  assumes "running nodes ms" "\<forall>e\<in>set es. node_message nodes (snd (snd e)) \<and> t \<le> fst (snd e)"
    and "seen_since t i ms" "lead_loop mcn es ms = Inr (ended, ms', out)"
  shows "running nodes ms' \<and> seen_since t i ms' \<and> ms_config ms' = ms_config ms"
  using assms
proof (induction es arbitrary: ms out)
  case (Cons e es)
  obtain d t' m where e: "e = (d, t', m)" by (cases e)
  have m: "node_message nodes m" "t \<le> t'" using Cons.prems(2) by (simp_all add: e)
  have seen: "seen_since t i (turn_state t' m ms)" by (rule seen_since_turn [OF m(2) Cons.prems(3)])
  have cfg: "ms_config (turn_state t' m ms) = ms_config ms"
    by (cases "message_type m") (simp_all add: turn_state_def)
  from Cons.prems(4) consider "ms' = turn_state t' m ms"
    | out' where "lead_loop mcn es (turn_state t' m ms) = Inr (ended, ms', out')"
    by (auto simp: e MainLoop_turn_running(1) [OF Cons.prems(1) m(1)] bind_res_def split: if_splits sum.splits)
  then show ?case
    using Cons.IH [of "turn_state t' m ms"] Cons.prems(2) seen cfg
      MainLoop_turn_running(2) [OF Cons.prems(1) m(1), of t'] by cases auto
qed simp

text \<open>
  C23: a node that sends heartbeats is never removed. When a heartbeat of a server or agent
  that the configuration names is handled at time \<open>t\<close>, then no detection up to
  \<open>t + heartbeat_timeout\<close> removes it, whatever messages of the nodes arrive in between at
  times not before \<open>t\<close>.
\<close>

theorem heartbeat_keeps_node:
  assumes "running nodes ms" "ms_is_lead ms" "node_message nodes msg"
    and "message_type msg = Message_MessageType_heartbeat" "send_id msg = i"
    and "\<forall>e\<in>set es. node_message nodes (snd (snd e)) \<and> t \<le> fst (snd e)"
    and "MainLoop mcn ((draw, t, msg) # es) ms = Inr (ended, ms1, out)" "now \<le> t + timeout"
  shows "\<exists>ms2. DetectDeadNode_turn timeout now ms1 = Inr ms2 \<and>
      (i \<in> set (tc_server_id (ms_config ms)) \<longrightarrow> i \<in> set (tc_server_id (ms_config ms2))) \<and>
      (i \<in> set (tc_agent_id (ms_config ms)) \<longrightarrow> i \<in> set (tc_agent_id (ms_config ms2)))"
proof -
  let ?ms = "turn_state t msg ms"
  have run: "running nodes ?ms" by (rule MainLoop_turn_running(2) [OF assms(1,3)])
  have "seen_since t i ?ms" using assms(4,5) by (simp add: seen_since_def turn_state_def map_of_umap_set)
  moreover have cfg: "ms_config ?ms = ms_config ms" using assms(4) by (simp add: turn_state_def)
  moreover obtain out' where "lead_loop mcn es ?ms = Inr (ended, ms1, out')"
    using assms(2,4,7)
    by (auto simp: MainLoop_def MainLoop_turn_running(1) [OF assms(1,3)] bind_res_def split: sum.splits)
  ultimately have ms1: "running nodes ms1" "seen_since t i ms1" "ms_config ms1 = ms_config ms"
    using seen_since_loop [OF run assms(6)] by auto
  have "\<not> dead timeout now ms1 i" using ms1(2) assms(8) by (auto simp: dead_def seen_since_def)
  with DetectDeadNode_running [OF ms1(1), of timeout now] ms1(3) show ?thesis by (auto simp: returns_iff)
qed

definition heartbeat_from :: "int \<Rightarrow> int Message" where
  "heartbeat_from i = new_Message\<lparr>message_type := Message_MessageType_heartbeat, send_id := i,
     heartbeat_msg := Some \<lparr> hb_is_live = True, hb_agent_epoch_num = 0 \<rparr>\<rparr>"

theorem heartbeat_keeps_node_witness:
  "\<exists>ms ms1 ms2. running example_nodes ms \<and>
     MainLoop 10000 [(\<lambda>_. 0, 140, heartbeat_from 1), (\<lambda>_. 0, 141, heartbeat_from 3)] ms = Inr (False, ms1, []) \<and>
     DetectDeadNode_turn 30 170 ms1 = Inr ms2 \<and> 1 \<in> set (tc_server_id (ms_config ms2))"
proof -
  from example_started obtain ms where ms: "started 10000 example_nodes ms" "ms_terminated_node ms = []"
      "tc_worker_num (ms_config ms) = 2" "ms_is_lead ms" by blast
  note run = started_running [OF ms(1)]
  have server: "1 \<in> set (tc_server_id (ms_config ms))"
    using ms(1) by (auto simp: started_def cluster_state_def enrolled_def set_ids_with example_nodes_def)
  have m: "node_message example_nodes (heartbeat_from 1)" "node_message example_nodes (heartbeat_from 3)"
    by (simp_all add: node_message_def heartbeat_from_def example_nodes_def)
  let ?es = "[(\<lambda>_. 0 :: int, 140 :: int, heartbeat_from 1), (\<lambda>_. 0, 141, heartbeat_from 3)]"
  have "terminators ?es = {}" by (simp add: terminators_Cons terminators_Nil heartbeat_from_def)
  then obtain ms1 where loop: "MainLoop 10000 ?es ms = Inr (False, ms1, [])"
    using lead_loop_running [OF run, of ?es 10000] ms m by (auto simp: MainLoop_def in_i32_iff)
  have "\<exists>ms2. DetectDeadNode_turn 30 170 ms1 = Inr ms2 \<and>
      (1 \<in> set (tc_server_id (ms_config ms)) \<longrightarrow> 1 \<in> set (tc_server_id (ms_config ms2))) \<and>
      (1 \<in> set (tc_agent_id (ms_config ms)) \<longrightarrow> 1 \<in> set (tc_agent_id (ms_config ms2)))"
    by (rule heartbeat_keeps_node [OF run ms(4) m(1) _ _ _ loop]) (use m in \<open>simp_all add: heartbeat_from_def\<close>)
  with run loop server show ?thesis by blast
qed

text \<open>
  C24: what the heartbeats carry. Each turn sends one live heartbeat to the heartbeat port of
  every agent left and to every server left. When the configuration has changed, all of them carry
  the new configuration; the following heartbeats do not repeat it.
\<close>

theorem DeliverHeartbeat_sends:
  assumes "reach (started mcn nodes) (master_step (node_message nodes :: 'v Message \<Rightarrow> bool) mcn timeout) ms"
    and "cfg = (if tc_config_changed (ms_config ms) then Some (running_config nodes (ms_config ms)) else None)"
  shows "\<exists>ms'. DeliverHeartbeat mcn ms =
      Inr (ms', map (\<lambda>i. (i + mcn, heartbeat_to cfg i :: 'v Message)) (tc_agent_id (ms_config ms)) @
                map (\<lambda>i. (i, heartbeat_to cfg i)) (tc_server_id (ms_config ms))) \<and>
      DeliverHeartbeat mcn ms' =
      Inr (ms', map (\<lambda>i. (i + mcn, heartbeat_to None i :: 'v Message)) (tc_agent_id (ms_config ms)) @
                map (\<lambda>i. (i, heartbeat_to None i)) (tc_server_id (ms_config ms)))"
proof -
  have run: "running nodes ms" by (rule mast.reach_invar [OF assms(1)])
  have num: "0 \<le> mcn" "in_i32 (int (length nodes) + mcn)"
    using reach_start [OF assms(1)] by (auto simp: started_def)
  note first = DeliverHeartbeat_running [OF run num]
  from first(1) DeliverHeartbeat_running(1) [OF first(2) num] show ?thesis
    unfolding assms(2) by (intro exI conjI) simp_all
qed

theorem DeliverHeartbeat_sends_witness:
  "\<exists>ms ms' out. started 10000 example_nodes ms \<and>
     DeliverHeartbeat 10000 ms = Inr (ms', out) \<and>
     map fst (out :: int outgoing) = map (\<lambda>i. i + 10000) (tc_agent_id (ms_config ms)) @ tc_server_id (ms_config ms)"
proof -
  from example_started obtain ms where ms: "started 10000 example_nodes ms" by blast
  have r: "reach (started 10000 example_nodes)
      (master_step (node_message example_nodes :: int Message \<Rightarrow> bool) 10000 30) ms"
    using ms by (rule reach_init)
  from DeliverHeartbeat_sends [OF r refl] ms show ?thesis by (fastforce simp: comp_def)
qed

text \<open>
  A heartbeat of an identifier that was never given breaks the configuration. The log
  line of the handler inserts an empty address for the sender; with an identifier more than one
  beyond the last, the next configuration message is built with an index outside its field.
\<close>

lemma unknown_heartbeat_breaks_configuration:
  assumes "addressed nodes (ms_config ms)" "message_type msg = Message_MessageType_heartbeat"
    and "heartbeat_msg msg = Some h" "hb_is_live h" "int (length nodes) < send_id msg"
  shows "\<exists>ms'. MainLoop_turn mcn draw t msg ms = Inr (False, ms', []) \<and>
      ToMessage (ms_config ms') = Inl OutOfBounds"
proof -
  let ?m = "tc_id_to_addr (ms_config ms)" and ?i = "send_id msg"
  let ?tc = "(ms_config ms)\<lparr>tc_id_to_addr := ?m @ [(?i, [])]\<rparr>"
  have none: "map_of ?m ?i = None" using addressed_lookup [OF assms(1), of ?i] assms(5) by simp
  then have "umap_set ?i [] ?m = ?m @ [(?i, [])]" by (intro umap_set_new) (simp add: map_of_eq_None_iff)
  with none have "snd (GetIp ?i (ms_config ms)) = ?tc" by (simp add: GetIp_def umap_at_def)
  then have turn: "MainLoop_turn mcn draw t msg ms =
      Inr (False, ms\<lparr>ms_alive_node := umap_set ?i t (ms_alive_node ms), ms_config := ?tc\<rparr>, [])"
    using assms(2-4) by (simp add: MainLoop_turn_def ProcessHeartbeatMsg_def the_heartbeat_msg_def)
  let ?xs = "map snd (sort_key fst (?m @ [(?i, [])]))"
  have len: "length ?m = length nodes" by (rule addressed_length [OF assms(1)])
  have "distinct (map fst ?m)" using assms(1) by (simp add: addressed_def)
  moreover have "fst ` set ?m \<subseteq> {0..<int (length ?xs)}" using addressed_keys [OF assms(1)] len by auto
  ultimately obtain ys where
    ys: "fold_res (\<lambda>(i, addr) xs. vec_set xs i addr) ?m ?xs = Inr ys" "length ys = length ?xs"
    using set_addresses by blast
  then have "fold_res (\<lambda>(i, addr) xs. vec_set xs i addr) (?m @ [(?i, [])]) ?xs = Inl OutOfBounds"
    using assms(5) len by (simp add: fold_res_append vec_set_out)
  then have "ToMessage ?tc = Inl OutOfBounds" by (simp add: ToMessage_def)
  with turn show ?thesis by simp
qed

end
