(* ===== verification/Cluster.thy ===== *)
theory Cluster
  imports Server_Reconfigure Agent_Pull Master_Running
begin

text \<open>
  The parts of the system together: the configuration that the master delivers makes every server
  and every agent start, agents and servers divide the keys in the same way, the requests of the
  agents are requests that the servers can serve, and what happens when the master reports a
  change to a running cluster.
\<close>

section \<open>Agents and servers divide the keys in the same way\<close>

text \<open>The hash values of a configuration as the master sends them, not all the same.\<close>

definition spread :: "ConfigMessage \<Rightarrow> bool" where
  "spread cfg \<longleftrightarrow> int (length (cf_partition cfg)) = cf_server_num cfg \<and> sorted (cf_partition cfg) \<and>
     cf_partition cfg ! 0 < last (cf_partition cfg)"

text \<open>The partition object that an agent builds from it.\<close>

definition partition_of :: "ConfigMessage \<Rightarrow> Partition" where
  "partition_of cfg = \<lparr> part_key_range = cf_key_range cfg, part_server_num = cf_server_num cfg,
     part_vec = cf_partition cfg \<rparr>"

lemma wf_partition_of:
  assumes "wf_layout cfg" "spread cfg"
  shows "wf_partition (partition_of cfg)"
  using assms by (auto simp: wf_partition_def partition_of_def wf_layout_def spread_def in_i32_iff)

lemma neg_mod: "- m \<le> d \<Longrightarrow> d < 0 \<Longrightarrow> d mod m = d + m" for d m :: int
  using mod_pos_pos_trivial [of "d + m" m] by simp

lemma ring_offset:
  fixes k m a :: int
  assumes "0 \<le> k" "k < m" "0 \<le> a" "a < m"
  shows "(k - a) mod m = (if a \<le> k then k - a else k - a + m)"
  using assms neg_mod [of m "k - a"] by simp

lemma spread_layout:
  assumes "wf_layout cfg" "spread cfg"
  shows "cf_server_num cfg = int (length (cf_partition cfg))" "sorted (cf_partition cfg)"
    and "length (cf_server_id cfg) = length (cf_partition cfg)"
    and "cf_partition cfg ! 0 < cf_partition cfg ! (length (cf_partition cfg) - 1)"
    and "j < length (cf_partition cfg) \<Longrightarrow> 0 \<le> cf_partition cfg ! j \<and> cf_partition cfg ! j < cf_key_range cfg"
proof -
  have ne: "cf_partition cfg \<noteq> []" using assms by (auto simp: wf_layout_def spread_def)
  then show "cf_server_num cfg = int (length (cf_partition cfg))" "sorted (cf_partition cfg)"
    "length (cf_server_id cfg) = length (cf_partition cfg)"
    "cf_partition cfg ! 0 < cf_partition cfg ! (length (cf_partition cfg) - 1)"
    using assms by (auto simp: wf_layout_def spread_def last_conv_nth [OF ne])
  show "0 \<le> cf_partition cfg ! j \<and> cf_partition cfg ! j < cf_key_range cfg"
    if "j < length (cf_partition cfg)"
    using assms(1) that by (simp add: wf_layout_def)
qed

text \<open>The number of keys of a server: up to the next hash value, or around the end of the ring.\<close>

lemma ring_dist_inner:
  assumes "wf_layout cfg" "spread cfg" "Suc i < length (cf_partition cfg)"
  shows "ring_dist cfg (int i) = cf_partition cfg ! Suc i - cf_partition cfg ! i"
proof -
  note sp = spread_layout [OF assms(1,2)]
  have "cf_partition cfg ! i \<le> cf_partition cfg ! Suc i" using sp(2) assms(3) by (simp add: sorted_nth_mono)
  moreover have "(int i + 1) mod cf_server_num cfg = int (Suc i)" unfolding sp(1) using assms(3) by simp
  moreover have "nat (int (Suc i)) = Suc i" by (rule nat_int)
  ultimately show ?thesis
    using ring_offset [of "cf_partition cfg ! Suc i" "cf_key_range cfg" "cf_partition cfg ! i"]
      sp(5) [of i] sp(5) [OF assms(3)] assms(3)
    by (simp add: ring_dist_def del: of_nat_Suc)
qed

lemma ring_dist_last:
  assumes "wf_layout cfg" "spread cfg" "Suc i = length (cf_partition cfg)"
  shows "ring_dist cfg (int i) = cf_partition cfg ! 0 - cf_partition cfg ! i + cf_key_range cfg"
    and "cf_partition cfg ! 0 < cf_partition cfg ! i"
proof -
  note sp = spread_layout [OF assms(1,2)]
  show first: "cf_partition cfg ! 0 < cf_partition cfg ! i" using sp(4) by (simp flip: assms(3))
  have "0 < length (cf_partition cfg)" using assms(3) by linarith
  note zero = sp(5) [OF this]
  have "int i + 1 = cf_server_num cfg" unfolding sp(1) using assms(3) by linarith
  then have "(int i + 1) mod cf_server_num cfg = 0" by simp
  then show "ring_dist cfg (int i) = cf_partition cfg ! 0 - cf_partition cfg ! i + cf_key_range cfg"
    using ring_offset [of "cf_partition cfg ! 0" "cf_key_range cfg" "cf_partition cfg ! i"]
      zero sp(5) [of i] assms(3) first
    by (simp add: ring_dist_def)
qed

lemma owns_ring:
  assumes layout: "wf_layout cfg" and spread: "spread cfg"
    and k: "0 \<le> k" "k < cf_key_range cfg" and i: "i < length (cf_partition cfg)"
  shows "owns (partition_of cfg) (int i) k \<longleftrightarrow>
      (k - cf_partition cfg ! i) mod cf_key_range cfg < ring_dist cfg (int i)"
proof -
  let ?pv = "cf_partition cfg"
  note sp = spread_layout [OF layout spread]
  have off: "(k - ?pv ! i) mod cf_key_range cfg =
      (if ?pv ! i \<le> k then k - ?pv ! i else k - ?pv ! i + cf_key_range cfg)"
    using ring_offset k sp(5) [OF i] by simp
  show ?thesis
  proof (cases "Suc i = length ?pv")
    case True
    have "0 < length ?pv" "int i = int (length ?pv) - 1" "nat (int (length ?pv) - 1) = i"
      using True by linarith+
    then show ?thesis
      unfolding off ring_dist_last(1) [OF layout spread True]
      using ring_dist_last(2) [OF layout spread True] k sp(5) [of 0]
      by (auto simp: owns_def partition_of_def Let_def)
  next
    case False
    then have j: "Suc i < length ?pv" using i by simp
    then have "int i \<noteq> int (length ?pv) - 1" "nat (int i + 1) = Suc i" by auto
    then show ?thesis
      unfolding off ring_dist_inner [OF layout spread j]
      using k sp(5) [OF j] i by (auto simp: owns_def partition_of_def Let_def)
  qed
qed

lemma example_configured: "configured int_ops example_config 0 example_server"
  using Server_Initialize_configured [of example_fresh "example_config_message 1" example_config 0
      "''10.0.0.1''" int_ops 8888 "''a:1''"] example_initialize
  by (simp add: fresh_server_def example_fresh_def example_config_message_def wf_config_def
    wf_layout_def example_config_def in_i32_iff)

lemma example_layout: "wf_layout example_config" "spread example_config"
  by (simp_all add: wf_layout_def spread_def example_config_def in_i32_iff)

text \<open>
  C7: agents and servers agree on who stores a key. When the hash values of a configuration are
  not all the same, the agent's binary search finds server \<open>idx\<close> for a key exactly when the
  key lies in the stretch of the ring that server \<open>idx\<close> computed for itself on the same
  configuration: \<open>parameter_length\<close> keys from \<open>start_key\<close> on, modulo the number of keys.
\<close>

theorem agents_and_servers_agree:
  assumes "wf_layout cfg" "spread cfg" "configured F cfg idx st" "idx < length (cf_server_id cfg)"
    and "0 \<le> key" "key < cf_key_range cfg"
  shows "GetServerByKey (partition_of cfg) key = Inr (int idx) \<longleftrightarrow>
      (key - start_key st) mod key_range st < parameter_length st"
proof -
  have wf: "wf_partition (partition_of cfg)" by (rule wf_partition_of [OF assms(1,2)])
  have "idx < length (cf_partition cfg)" using assms(1,2,4) by (auto simp: wf_layout_def spread_def)
  note ring = owns_ring [OF assms(1,2,5,6) this]
  have "GetServerByKey (partition_of cfg) key = Inr (int idx) \<longleftrightarrow> owns (partition_of cfg) (int idx) key"
    using GetServerByKey_iff [OF wf assms(5)] assms(6) by (simp add: partition_of_def)
  with ring assms(3) show ?thesis by (simp add: configured_def)
qed

theorem agents_and_servers_agree_witness:
  "GetServerByKey (partition_of example_config) 3 = Inr 0 \<and> GetServerByKey (partition_of example_config) 1 \<noteq> Inr 0"
proof -
  have l: "0 < length (cf_server_id example_config)" by (simp add: example_config_def)
  show ?thesis
    using agents_and_servers_agree [OF example_layout example_configured l, of 3]
      agents_and_servers_agree [OF example_layout example_configured l, of 1]
    by (simp add: example_config_def example_server_def)
qed

section \<open>The start of all nodes\<close>

lemma ids_with_bound: "x \<in> set (ids_with r nodes) \<Longrightarrow> 0 \<le> x \<and> x < int (length nodes)"
  by (auto simp: set_ids_with)

lemma drawn_facts:
  assumes "0 \<le> n" "\<forall>i. 0 \<le> i \<and> i < n \<longrightarrow> 1 \<le> draw i \<and> draw i \<le> kr - 2"
  shows "length (drawn draw n) = nat n" "sorted (drawn draw n)"
    and "\<forall>p\<in>set (drawn draw n). 1 \<le> p \<and> p \<le> kr - 2"
  using assms by (auto simp: drawn_def)

text \<open>The flags with which a cluster can run.\<close>

definition wf_flags :: "int \<Rightarrow> int \<Rightarrow> int \<Rightarrow> int \<Rightarrow> int \<Rightarrow> bool" where
  "wf_flags wn sn kr bnd bsize \<longleftrightarrow> 1 \<le> wn \<and> 1 \<le> sn \<and>
     in_i32 (2 * sn) \<and> 3 \<le> kr \<and> in_i32 (2 * kr) \<and> 1 \<le> bnd \<and> in_i32 bnd \<and>
     0 \<le> bsize \<and> bsize < sn"

lemma cluster_config_wf:
  assumes "role_count Server_role nodes = sn" "role_count Agent_role nodes = wn"
    and "in_i32 wn" "wf_flags wn sn kr bnd bsize"
    and "\<forall>i. 0 \<le> i \<and> i < sn \<longrightarrow> 1 \<le> draw i \<and> draw i \<le> kr - 2"
  shows "wf_config (cluster_config wn sn kr bnd bsize (drawn draw sn) nodes)"
proof -
  have f: "1 \<le> sn" "1 \<le> wn" "3 \<le> kr" using assms(4) by (simp_all add: wf_flags_def)
  have "length (ids_with Server_role nodes) = nat sn" "length (ids_with Agent_role nodes) = nat wn"
    using assms(1,2) by (auto simp: role_count_def length_ids_with)
  moreover have "0 \<le> sn" using f by simp
  note d = drawn_facts [OF this assms(5)]
  moreover have "\<forall>p\<in>set (drawn draw sn). 0 \<le> p \<and> p < kr" using d(3) by auto
  ultimately show ?thesis
    using assms(3,4) f
    by (simp add: wf_config_def wf_layout_def cluster_config_def wf_flags_def distinct_ids_with)
qed

text \<open>The configurations with which an agent can start.\<close>

definition agent_config :: "ConfigMessage \<Rightarrow> bool" where
  "agent_config cfg \<longleftrightarrow> cf_server_num cfg = int (length (cf_server_id cfg)) \<and> 1 \<le> cf_server_num cfg \<and>
     length (cf_partition cfg) = length (cf_server_id cfg) \<and> sorted (cf_partition cfg) \<and>
     (\<forall>x\<in>set (cf_partition cfg). 0 \<le> x \<and> x < cf_key_range cfg) \<and>
     in_i32 (cf_server_num cfg) \<and> in_i32 (cf_key_range cfg) \<and>
     (\<forall>s\<in>set (cf_server_id cfg). 0 \<le> s \<and> s < int (length (cf_node_ip_port cfg)))"

lemma agent_config_starts:
  assumes "config_msg m = Some cfg" "ip \<noteq> []" "agent_config cfg"
  shows "\<exists>ag' out. Agent_Initialize ip zero objects (Some m) pf gf pm gm master port ag =
      Inr (True, ag', out) \<and> wf_agent ag' \<and> ag_local_id ag' = recv_id m \<and>
    ag_server_ids ag' = cf_server_id cfg \<and> part_vec (ag_partition ag') = cf_partition cfg \<and>
    part_key_range (ag_partition ag') = cf_key_range cfg \<and> ag_reconfig_msg ag' = None \<and>
    ag_epoch_num ag' = 0 \<and> (\<forall>s\<in>set (cf_server_id cfg). id_to_addr (ag_sender ag') s \<noteq> None)"
  by (rule Agent_Initialize_wf [OF assms(1,2)]) (use assms(3) in \<open>auto simp: agent_config_def\<close>)

lemma cluster_agent_config:
  assumes "role_count Server_role nodes = sn" "role_count Agent_role nodes = wn"
    and "in_i32 sn" "wf_flags wn sn kr bnd bsize"
    and "\<forall>i. 0 \<le> i \<and> i < sn \<longrightarrow> 1 \<le> draw i \<and> draw i \<le> kr - 2"
  shows "agent_config (cluster_config wn sn kr bnd bsize (drawn draw sn) nodes)"
proof -
  have f: "1 \<le> sn" "3 \<le> kr" "in_i32 kr" using assms(4) by (simp_all add: wf_flags_def in_i32_iff)
  then have "0 \<le> sn" by simp
  note d = drawn_facts [OF this assms(5)]
  have "length (ids_with Server_role nodes) = nat sn" using assms(1) by (auto simp: role_count_def length_ids_with)
  moreover have "\<forall>p\<in>set (drawn draw sn). 0 \<le> p \<and> p < kr" using d(3) by auto
  ultimately show ?thesis
    using f d assms(3) by (auto simp: agent_config_def cluster_config_def dest: ids_with_bound)
qed

text \<open>
  C5: from the registrations to a running cluster. When the expected nodes have registered,
  every server that then initialises with the configuration message addressed to it succeeds and
  holds exactly its stretch of the ring, with zero parameters, and every agent that initialises
  with its message succeeds with the same hash values and servers. The random numbers are only
  assumed to lie in the interval \<open>[1, key_range - 2]\<close> of the distribution.
\<close>

theorem cluster_starts:
  fixes F :: "'v fops" and es :: "((int \<Rightarrow> int) \<times> int \<times> 'v Message) list"
  assumes run: "forming_run mcn wn sn masters es" and c: "id_to_addr c = Map.empty"
    and last: "last es = (draw, t, m)" and nodes: "nodes = cluster_nodes masters es"
    and flags: "wf_flags wn sn kr bnd bsize"
    and draws: "\<forall>i. 0 \<le> i \<and> i < sn \<longrightarrow> 1 \<le> draw i \<and> draw i \<le> kr - 2"
    and cfg: "cfg = cluster_config wn sn kr bnd bsize (drawn draw sn) nodes"
  shows "\<exists>n ms ms' out. Master_Initialize masters (Master_new wn sn kr bnd bsize c) = Inr (n, ms) \<and>
      MainLoop mcn es ms = Inr (False, ms', out) \<and> map fst out = [0..int (length nodes) - 1] \<and>
      (\<forall>(i, msg)\<in>set out.
        (\<forall>idx<length (ids_with Server_role nodes). ids_with Server_role nodes ! idx = i \<longrightarrow>
           (\<forall>st ip port addr. fresh_server st \<and> ip \<noteq> [] \<longrightarrow>
              returns (Server_Initialize F ip port addr (Some msg) st)
                (\<lambda>(ok, st', _). ok \<and> configured F cfg idx st'))) \<and>
        (i \<in> set (ids_with Agent_role nodes) \<longrightarrow>
           (\<forall>ip zero objects pf gf pm gm port addr ag. ip \<noteq> [] \<longrightarrow>
              returns (Agent_Initialize ip zero objects (Some msg) pf gf pm gm addr port ag)
                (\<lambda>(ok, ag', _). ok \<and> wf_agent ag' \<and> ag_local_id ag' = i \<and>
                   ag_server_ids ag' = ids_with Server_role nodes \<and>
                   part_vec (ag_partition ag') = cf_partition cfg \<and>
                   part_key_range (ag_partition ag') = kr))))"
proof -
  have r: "role_count Server_role nodes = sn" "role_count Agent_role nodes = wn"
      "in_i32 sn" "in_i32 wn"
    using run by (simp_all add: forming_run_def nodes)
  have wf: "wf_config cfg" unfolding cfg by (rule cluster_config_wf [OF r(1,2,4) flags draws])
  have agents: "agent_config cfg" unfolding cfg by (rule cluster_agent_config [OF r(1,2,3) flags draws])
  have sel: "cf_server_id cfg = ids_with Server_role nodes" "cf_key_range cfg = kr"
    by (simp_all add: cfg cluster_config_def)
  from forming_run_starts [OF run c last, of kr bnd bsize] obtain n ms ms' where
    start: "Master_Initialize masters (Master_new wn sn kr bnd bsize c) = Inr (n, ms)"
      "MainLoop mcn es ms = Inr (False, ms', map (\<lambda>i. (i, config_to cfg i)) [0..int (length nodes) - 1])"
    by (auto simp: nodes cfg)
  have server: "returns (Server_Initialize F ip port addr (Some (config_to cfg i)) st)
      (\<lambda>(ok, st', _). ok \<and> configured F cfg idx st')"
    if "idx < length (ids_with Server_role nodes)" "ids_with Server_role nodes ! idx = i" "fresh_server st" "ip \<noteq> []"
    for idx i st ip port addr
    using Server_Initialize_configured [OF that(3) _ wf, of "config_to cfg i" idx ip F port addr] that
    by (simp add: sel config_to_def)
  have agent: "returns (Agent_Initialize ip zero objects (Some (config_to cfg i)) pf gf pm gm addr port ag)
      (\<lambda>(ok, ag', _). ok \<and> wf_agent ag' \<and> ag_local_id ag' = i \<and>
         ag_server_ids ag' = ids_with Server_role nodes \<and> part_vec (ag_partition ag') = cf_partition cfg \<and>
         part_key_range (ag_partition ag') = kr)"
    if "ip \<noteq> []" for i ip zero objects pf gf pm gm addr port and ag :: "'v agent"
    using agent_config_starts [OF _ that agents, of "config_to cfg i" zero objects pf gf pm gm addr port ag]
    by (auto simp: sel config_to_def)
  show ?thesis
    using start server agent by (intro exI conjI) (auto simp: comp_def)
qed

theorem cluster_starts_witness:
  "\<exists>n ms ms' out. Master_Initialize ''10.0.0.9:16666''
       (Master_new 2 2 10 1 1 (example_comm\<lparr>id_to_addr := Map.empty\<rparr>)) = Inr (n, ms) \<and>
     MainLoop 10000 example_events ms = Inr (False, ms', out) \<and> map fst out = [0, 1, 2, 3, 4]"
proof -
  have l: "last example_events = (\<lambda>i. 6 - 4 * i, 103, example_register False ''10.0.0.4'' 5555)"
    by (simp add: example_events_def)
  have c: "id_to_addr (example_comm\<lparr>id_to_addr := Map.empty\<rparr>) = Map.empty" by simp
  have flags: "wf_flags 2 2 10 1 1" by (simp add: wf_flags_def in_i32_iff)
  have draws: "\<forall>i. 0 \<le> i \<and> i < 2 \<longrightarrow> 1 \<le> 6 - 4 * i \<and> 6 - 4 * i \<le> 10 - (2 :: int)" by auto
  have "[0..4::int] = [0, 1, 2, 3, 4]" by code_simp
  then have up: "[0..int (length example_nodes) - 1] = [0, 1, 2, 3, 4]" by (simp add: example_nodes_def)
  show ?thesis
    using cluster_starts [OF example_forming c l example_cluster_nodes [symmetric] flags draws refl,
      of int_ops, unfolded up]
    by (elim exE conjE) (intro exI conjI, assumption+)
qed

section \<open>The requests of the agents\<close>

text \<open>An agent that initialised with the configuration.\<close>

definition agent_of :: "ConfigMessage \<Rightarrow> 'v agent \<Rightarrow> bool" where
  "agent_of cfg ag \<longleftrightarrow> wf_agent ag \<and> ag_local_id ag \<notin> set (cf_server_id cfg) \<and>
     ag_server_ids ag = cf_server_id cfg \<and> part_vec (ag_partition ag) = cf_partition cfg \<and>
     part_key_range (ag_partition ag) = cf_key_range cfg"

lemma owns_partition_of:
  assumes "agent_of cfg ag"
  shows "owns (ag_partition ag) i k = owns (partition_of cfg) i k"
  using assms by (simp add: agent_of_def owns_def partition_of_def)

text \<open>An agent is not among the servers.\<close>

lemma no_server:
  assumes a: "a \<notin> set (cf_server_id cfg)" and st: "configured F cfg idx st"
  shows "servers st a = None"
proof (rule ccontr)
  assume "servers st a \<noteq> None"
  then obtain p where "servers st a = Some p" by blast
  moreover have "wf_servers st" "server_ids st = cf_server_id cfg"
    using st by (simp_all add: configured_def server_inv_def)
  ultimately have "0 \<le> p" "p < int (length (cf_server_id cfg))" "cf_server_id cfg ! nat p = a"
    by (auto simp: wf_servers_def wf_ring_def)
  then have "a \<in> set (cf_server_id cfg)" by (metis nth_mem nat_less_iff)
  with a show False by simp
qed

lemma agent_no_server: "agent_of cfg ag \<Longrightarrow> configured F cfg idx st \<Longrightarrow> servers st (ag_local_id ag) = None"
  by (rule no_server) (auto simp: agent_of_def)

text \<open>The keys that a server owns are in its range, unless it is the last on the ring.\<close>

lemma owns_in_range:
  assumes "wf_layout cfg" "spread cfg" "configured F cfg idx st" "Suc idx < length (cf_server_id cfg)"
    and "owns (partition_of cfg) (int idx) k"
  shows "in_range st k"
proof -
  have j: "Suc idx < length (cf_partition cfg)" using assms(4) spread_layout(3) [OF assms(1,2)] by simp
  with assms(3,5) ring_dist_inner [OF assms(1,2) j] show ?thesis
    by (auto simp: in_range_def configured_def owns_def partition_of_def Let_def nat_add_distrib)
qed


lemma routed_admissible:
  assumes ag: "agent_of cfg ag" and cfg: "wf_layout cfg" "spread cfg"
    and st: "configured F cfg idx st" "Suc idx < length (cf_server_id cfg)"
    and m: "routed ag RequestType_key_value (cf_server_id cfg ! idx, m)" "wf_push (the_request_msg m)"
  shows "admissible st m \<and> (\<forall>k\<in>set (rq_keys (the_request_msg m)). in_range st k)"
proof -
  have dist: "distinct (cf_server_id cfg)" using cfg(1) by (simp add: wf_layout_def)
  from m(1) obtain i where i: "i < length (cf_server_id cfg)" "cf_server_id cfg ! idx = cf_server_id cfg ! i"
      "\<forall>k\<in>set (rq_keys (the_request_msg m)). owns (partition_of cfg) (int i) k"
    and r: "message_type m = Message_MessageType_request" "request_type (the_request_msg m) = RequestType_key_value"
      "send_id m = ag_local_id ag"
    using ag by (auto simp: routed_def owns_partition_of [OF ag]) (auto simp: agent_of_def)
  have "i = idx" using i(1,2) st(2) dist by (simp add: nth_eq_iff_index_eq)
  then have "in_range st k" if "k \<in> set (rq_keys (the_request_msg m))" for k
    using i(3) that owns_in_range [OF cfg st] by simp
  moreover have "servers st (send_id m) = None" using agent_no_server [OF ag st(1)] r(3) by simp
  ultimately show ?thesis using r(1,2) m(2) by (simp add: admissible_def valid_push_def)
qed

lemma step_static:
  assumes "server_rep F st" "server_step F zc st st'"
  shows "static st st'"
  using assms(2)
proof (rule server_stepE)
  fix msg out
  assume a: "admissible st msg" "bottom_version st < kInt32Max" "Start_turn F zc msg st = Inr (st', out)"
  from assms(1) obtain h where h: "server_inv st" "ssp_rep F h st" by (auto simp: server_rep_def)
  from Start_turn_refines [OF h a(1) version_in_i32 [OF h(1) a(2)], of zc] a(3) show ?thesis by simp
qed

lemma steps_static:
  assumes "configured F cfg idx st0" "(server_step F zc)\<^sup>*\<^sup>* st0 st"
  shows "server_rep F st" "static st0 st"
proof -
  have rep0: "server_rep F st0" using assms(1) configured_rep [OF assms(1)] by (auto simp: server_rep_def configured_def)
  then show "server_rep F st" using param.steps_invar [OF assms(2)] by blast
  show "static st0 st"
    by (rule param.steps_mono [OF assms(2) rep0, of static])
      (rule static_refl, erule (1) static_trans, erule (1) step_static)
qed

text \<open>
  C18: the updates of the agents are updates that the servers can take. Every request that
  \<open>Push\<close> sends to a server that is not the last on the ring is handled without a fault in
  every state the server can be in after it started with the same configuration: all its keys are
  in bounds of the parameters.
\<close>

theorem pushed_updates_can_be_served:
  assumes ag: "agent_of cfg ag" and cfg: "wf_layout cfg" "spread cfg"
    and req: "wf_request ag (ag_gradients ag)" "distinct (shm_prefix (ag_gradients ag))"
    and st: "configured F cfg idx st0" "Suc idx < length (cf_server_id cfg)"
    and steps: "(server_step F zc)\<^sup>*\<^sup>* st0 st" "bottom_version st < kInt32Max"
  shows "\<exists>ag' out. Push ag = Some (Inr (ag', out)) \<and>
      (\<forall>(dst, m)\<in>set out. dst = cf_server_id cfg ! idx \<longrightarrow>
         (\<forall>k\<in>set (rq_keys (the_request_msg m)). 0 \<le> k - start_key st \<and> k - start_key st < int (length (parameters st))) \<and>
         (\<exists>st' replies. Start_turn F zc m st = Inr (st', replies)))"
proof -
  have "wf_agent ag" using ag by (simp add: agent_of_def)
  from Push_sends [OF this req] obtain ag' out where
    push: "Push ag = Some (Inr (ag', out))"
      "\<forall>x\<in>set out. routed ag RequestType_key_value x \<and> wf_push (the_request_msg (snd x))"
    by blast
  note static = steps_static(2) [OF st(1) steps(1)]
  have inv: "server_inv st" using steps_static(1) [OF st(1) steps(1)] by (simp add: server_rep_def)
  have served: "(\<forall>k\<in>set (rq_keys (the_request_msg m)). in_range st k) \<and>
      (\<exists>st' replies. Start_turn F zc m st = Inr (st', replies))"
    if "(cf_server_id cfg ! idx, m) \<in> set out" for m
  proof -
    from push(2) that have m: "routed ag RequestType_key_value (cf_server_id cfg ! idx, m)"
        "wf_push (the_request_msg m)" by fastforce+
    have "in_range st = in_range st0" using static by (simp add: static_def in_range_def fun_eq_iff)
    with routed_admissible [OF ag cfg st m] static_admissible [OF static]
    have "admissible st m" "\<forall>k\<in>set (rq_keys (the_request_msg m)). in_range st k" by simp_all
    with Start_turn_returns [OF inv this(1) version_in_i32 [OF inv steps(2)], of F zc] show ?thesis
      by (auto simp: returns_iff)
  qed
  have "int (length (parameters st)) = parameter_length st"
    using inv by (simp add: server_inv_def wf_range_def)
  with push(1) served show ?thesis
    by (intro exI [of _ ag'] exI [of _ out]) (auto simp: in_range_def diff_less_eq add.commute)
qed

theorem pushed_updates_can_be_served_witness:
  "\<exists>ag' out. Push example_agent = Some (Inr (ag', out)) \<and>
     (\<forall>(dst, m)\<in>set out. dst = 1 \<longrightarrow>
        (\<exists>st' replies. Start_turn int_ops (\<lambda>_. 0) m example_server = Inr (st', replies)))"
proof -
  have ag: "agent_of example_config example_agent"
    by (simp add: agent_of_def example_agent_wf example_agent_def example_config_def)
      (simp add: wf_agent_def wf_partition_def in_i32_iff)
  have req: "wf_request example_agent (ag_gradients example_agent)"
    "distinct (shm_prefix (ag_gradients example_agent))"
    by (simp_all add: wf_request_def wf_shm_def shm_prefix_def example_agent_def numeral_eq_Suc)
  have st: "Suc 0 < length (cf_server_id example_config)" "bottom_version example_server < kInt32Max"
    "cf_server_id example_config ! 0 = 1"
    by (simp_all add: example_config_def example_server_def kInt32Max_def)
  show ?thesis
    using pushed_updates_can_be_served [OF ag example_layout req example_configured st(1)
      rtranclp.rtrancl_refl st(2), of "\<lambda>_. 0"] unfolding st(3)
    by (elim exE conjE) (intro exI conjI, assumption, fastforce)
qed

text \<open>The offsets of the keys that the last server owns: wrapped keys have a negative one.\<close>

lemma last_offset:
  assumes cfg: "wf_layout cfg" "spread cfg" and st: "configured F cfg idx st" "Suc idx = length (cf_server_id cfg)"
    and k: "owns (partition_of cfg) (int idx) k"
  shows "in_i32 (k - start_key st)" "k < cf_partition cfg ! 0 \<Longrightarrow> k - start_key st < 0"
    and "k < cf_partition cfg ! 0 \<Longrightarrow> in_i32 (k - start_key st + key_range st) \<and> 0 \<le> k - start_key st + key_range st \<and>
      k - start_key st + key_range st < parameter_length st"
proof -
  note sp = spread_layout [OF cfg]
  have i: "Suc idx = length (cf_partition cfg)" using st(2) sp(3) by simp
  note last = ring_dist_last [OF cfg i]
  have r: "0 \<le> k" "k < cf_key_range cfg"
    using owns_range [OF wf_partition_of [OF cfg] k] by (simp_all add: partition_of_def)
  have s: "start_key st = cf_partition cfg ! idx" "key_range st = cf_key_range cfg"
      "parameter_length st = ring_dist cfg (int idx)" using st(1) by (simp_all add: configured_def)
  have p: "0 \<le> cf_partition cfg ! idx" "cf_partition cfg ! idx < cf_key_range cfg" using sp(5) [of idx] i by simp_all
  have kr: "in_i32 (2 * cf_key_range cfg)" using cfg(1) by (simp add: wf_layout_def)
  show "in_i32 (k - start_key st)" using r p kr by (simp add: s in_i32_iff)
  show "k - start_key st < 0" if "k < cf_partition cfg ! 0" using that last(2) by (simp add: s)
  show "in_i32 (k - start_key st + key_range st) \<and> 0 \<le> k - start_key st + key_range st \<and>
      k - start_key st + key_range st < parameter_length st" if "k < cf_partition cfg ! 0"
    using that r p kr last(1) by (simp add: s in_i32_iff)
qed

text \<open>
  C34: the last server on the ring owns the keys below the first hash value, and it answers pulls
  of such a key with the parameter at the wrapped position, but it cannot merge an update of it: the
  merge computes the position without the wrap-around. In every state that the server can reach, an
  update with such a key from the agent that completes the round makes the turn fault.
\<close>

theorem wrapped_update_faults:
  assumes cfg: "wf_layout cfg" "spread cfg"
    and st: "configured F cfg idx st0" "Suc idx = length (cf_server_id cfg)" "(server_step F zc)\<^sup>*\<^sup>* st0 st"
    and a: "a \<in> set (agent_ids st)" "a \<notin> set (cf_server_id cfg)"
    and turn: "version_buffer st ! agent_index st a = []"
      "\<forall>b\<in>set (agent_ids st). b \<noteq> a \<longrightarrow> version_buffer st ! agent_index st b \<noteq> []"
    and k: "0 \<le> k" "k < cf_partition cfg ! 0"
    and m: "send_id m = a" "message_type m = Message_MessageType_request" "wf_push (the_request_msg m)"
      "request_type (the_request_msg m) = RequestType_key_value" "k \<in> set (rq_keys (the_request_msg m))"
      "\<forall>k\<in>set (rq_keys (the_request_msg m)). owns (partition_of cfg) (int idx) k"
  shows "GetServerByKey (partition_of cfg) k = Inr (int idx) \<and>
    ServePull a \<lparr> request_type = RequestType_key, rq_keys = [k], rq_values = [] \<rparr> st =
      Inr (st, [(a, key_value_message (local_id st) a [k] [parameters st ! nat (k - start_key st + key_range st)])]) \<and>
    Start_turn F zc m st = Inl OutOfBounds"
proof -
  note static = steps_static(2) [OF st(1,3)]
  have inv: "server_inv st" using steps_static(1) [OF st(1,3)] by (simp add: server_rep_def)
  then have wf: "wf_agents st" "wf_range st" "0 < bound st" "wf_counts st"
    by (simp_all add: server_inv_def wf_counts_def)
  note j = agent_index_less [OF wf(1) a(1)]
  note last = last_offset [OF cfg st(1,2)]
  have sel: "start_key st0 = start_key st" "parameter_length st0 = parameter_length st" "key_range st0 = key_range st"
    using static by (simp_all add: static_def)
  have own: "owns (partition_of cfg) (int idx) k" using m(5,6) by blast
  note off = last [OF own, unfolded sel]
  have "GetServerByKey (partition_of cfg) k = Inr (int idx)"
    using GetServerByKey_iff [OF wf_partition_of [OF cfg] k(1)] owns_range [OF wf_partition_of [OF cfg] own] own by simp
  moreover have "ServePull a \<lparr> request_type = RequestType_key, rq_keys = [k], rq_values = [] \<rparr> st =
      Inr (st, [(a, key_value_message (local_id st) a [k] [parameters st ! nat (k - start_key st + key_range st)])])"
    using j turn(1) wf off k(2)
    by (simp add: ServePull_def size_t_of_int_nonneg wf_counts_def wf_range_def)
  moreover have "Start_turn F zc m st = Inl OutOfBounds"
  proof -
    obtain l where l: "push_list (the_request_msg m) = Inr l" "wf_kv l" "kv_keys l = rq_keys (the_request_msg m)"
      using push_list_pairs [OF m(3)] by auto
    have "version_buffer st ! i \<noteq> []" if "i < length (version_buffer st)" "i \<noteq> agent_index st a" for i
      using agent_with_index [OF wf(1) that(1)] turn(2) that(2) by metis
    moreover have "\<forall>k\<in>set (kv_keys l). in_i32 (k - start_key st)" using last(1) m(6) by (simp add: l(3) sel)
    moreover have "\<exists>k\<in>set (kv_keys l). \<not> in_range st k"
      using m(5) off(2) k(2) by (intro bexI [of _ k]) (auto simp: l(3) in_range_def)
    ultimately have "ServePush F a (the_request_msg m) st = Inl OutOfBounds"
      using ServePush_fault [OF inv a(1) j(2,1) turn(1) _ l(1,2)] by blast
    moreover have "servers st a = None" using no_server [OF a(2) st(1)] static by (simp add: static_def)
    ultimately show ?thesis using m(1,2,4) by (simp add: Start_turn_def)
  qed
  ultimately show ?thesis by blast
qed

text \<open>The example with one agent: the last server, and an update of key 0.\<close>

definition single_agent_config :: ConfigMessage where
  "single_agent_config = example_config\<lparr>cf_worker_num := 1, cf_worker_id := [3]\<rparr>"

definition wrapped_push :: "int Message" where
  "wrapped_push = new_Message\<lparr>message_type := Message_MessageType_request, send_id := 3, recv_id := 2,
     request_msg := Some \<lparr> request_type = RequestType_key_value, rq_keys = [7, 0], rq_values = [70, 10] \<rparr>\<rparr>"

theorem wrapped_update_faults_witness:
  "\<exists>st. configured int_ops single_agent_config 1 st \<and> GetServerByKey (partition_of single_agent_config) 0 = Inr 1 \<and>
     Start_turn int_ops (\<lambda>_. 0) wrapped_push st = Inl OutOfBounds"
proof -
  have sel: "cf_server_id single_agent_config = [1, 2]" "cf_partition single_agent_config = [2, 6]"
      "cf_worker_id single_agent_config = [3]" "cf_worker_num single_agent_config = 1"
    by (simp_all add: single_agent_config_def example_config_def)
  have cfg: "wf_config single_agent_config" "spread single_agent_config"
    using example_layout by (simp_all add: wf_config_def wf_layout_def spread_def single_agent_config_def
        example_config_def in_i32_iff)
  then have lay: "wf_layout single_agent_config" by (simp add: wf_config_def)
  let ?m = "(example_config_message 2 :: int Message)\<lparr>config_msg := Some single_agent_config\<rparr>"
  have "returns (Server_Initialize int_ops ''10.0.0.2'' 8888 ''a:1'' (Some ?m) example_fresh)
      (\<lambda>(ok, st', out). ok \<and> configured int_ops single_agent_config 1 st')"
    by (rule Server_Initialize_configured [OF _ _ cfg(1)])
      (simp_all add: sel fresh_server_def example_fresh_def example_config_message_def)
  then obtain st where st: "configured int_ops single_agent_config 1 st" by (auto simp: returns_iff)
  then have vb: "agent_index st 3 = 0" "version_buffer st = [[]]" "set (agent_ids st) = {3}"
    by (auto simp: configured_def sel agent_index_def)
  have m: "send_id wrapped_push = 3" "message_type wrapped_push = Message_MessageType_request"
      "wf_push (the_request_msg wrapped_push)" "request_type (the_request_msg wrapped_push) = RequestType_key_value"
      "0 \<in> set (rq_keys (the_request_msg wrapped_push))"
      "\<forall>k\<in>set (rq_keys (the_request_msg wrapped_push)). owns (partition_of single_agent_config) (int 1) k"
    by (simp_all add: wrapped_push_def wf_push_def in_i32_iff owns_def partition_of_def sel)
      (simp add: single_agent_config_def example_config_def)
  have "GetServerByKey (partition_of single_agent_config) 0 = Inr (int 1) \<and>
      ServePull 3 \<lparr> request_type = RequestType_key, rq_keys = [0], rq_values = [] \<rparr> st =
        Inr (st, [(3, key_value_message (local_id st) 3 [0] [parameters st ! nat (0 - start_key st + key_range st)])]) \<and>
      Start_turn int_ops (\<lambda>_. 0) wrapped_push st = Inl OutOfBounds"
    by (rule wrapped_update_faults [OF lay cfg(2) st _ rtranclp.rtrancl_refl _ _ _ _ _ _ m]) (simp_all add: sel vb)
  with st show ?thesis by auto
qed

section \<open>A change of the configuration\<close>

text \<open>Messages of nodes other than the masters, which send no heartbeats.\<close>

definition from_workers :: "(role \<times> string) list \<Rightarrow> 'v Message \<Rightarrow> bool" where
  "from_workers nodes msg \<longleftrightarrow> node_message nodes msg \<and> send_id msg \<notin> set (ids_with Master_role nodes)"

lemma silent_node:
  assumes "running nodes ms" "\<forall>e\<in>set es. node_message nodes (snd (snd e)) \<and> send_id (snd (snd e)) \<noteq> i"
    and "lead_loop mcn es ms = Inr (ended, ms', out)"
  shows "running nodes ms' \<and> map_of (ms_alive_node ms') i = map_of (ms_alive_node ms) i \<and>
      ms_config ms' = ms_config ms"
  using assms
proof (induction es arbitrary: ms out)
  case (Cons e es)
  obtain d t m where e: "e = (d, t, m)" by (cases e)
  have m: "node_message nodes m" "send_id m \<noteq> i" using Cons.prems(2) by (simp_all add: e)
  let ?ms = "turn_state t m ms"
  have one: "map_of (ms_alive_node ?ms) i = map_of (ms_alive_node ms) i" "ms_config ?ms = ms_config ms"
    using m(2) by (cases "message_type m"; simp add: turn_state_def map_of_umap_set)+
  have run: "running nodes ?ms" by (rule MainLoop_turn_running(2) [OF Cons.prems(1) m(1)])
  from Cons.prems(3) consider "ms' = ?ms" | out' where "lead_loop mcn es ?ms = Inr (ended, ms', out')"
    by (auto simp: e MainLoop_turn_running(1) [OF Cons.prems(1) m(1)] bind_res_def split: if_splits sum.splits)
  then show ?case
  proof cases
    case 1
    then show ?thesis using one run by simp
  next
    case 2
    with Cons.IH [OF run _ 2] Cons.prems(2) one show ?thesis by simp
  qed
qed simp

lemma fewer_servers:
  assumes "i \<in> set (ids_with Master_role nodes)"
  shows "length (ids_with Server_role nodes) < length nodes"
proof -
  from assms obtain j where "j < length nodes" "fst (nodes ! j) \<noteq> Server_role"
    by (auto simp: set_ids_with)
  then show ?thesis
    unfolding length_ids_with by (intro length_filter_less [of "nodes ! j"]) simp_all
qed

text \<open>The heartbeat with the configuration makes the next turn of the agent fault.\<close>

lemma heartbeat_reconfigures_agent:
  assumes "length (cf_partition cfg) = length (cf_server_id cfg)"
    and "cf_server_num cfg = int (length (cf_server_id cfg))" "in_i32 (cf_server_num cfg + 1)"
  shows "AgentWork_turn zc sig incoming (fst (Agent_HeartBeat_turn lid (heartbeat_to (Some cfg) i) ag)) =
      Some (Inl OutOfBounds)"
proof -
  have "Reconfigurate zc (heartbeat_to (Some cfg) i) a = Inl OutOfBounds" for a :: "'a agent"
    by (rule Reconfigurate_fault [OF _ assms(1) _ assms(3)]) (simp_all add: heartbeat_to_def assms(2))
  then show ?thesis
    by (simp add: AgentWork_turn_def Agent_HeartBeat_turn_def Let_def heartbeat_to_def)
qed

text \<open>The servers take the same heartbeat for a message of no interest.\<close>

lemma heartbeat_ignored_by_server:
  assumes "servers st 0 = None"
  shows "Start_turn F zc (heartbeat_to cfg i) st = Inr (st, [])"
  using assms by (simp add: Start_turn_def heartbeat_to_def)

text \<open>
  C32: the first detection after the timeout stops a healthy cluster. The masters are counted as
  nodes but send no heartbeats, so some time after the start the master declares them dead, even
  when every server and agent has been heard in time. No server or agent is removed, but the
  configuration counts as changed, the next heartbeats carry it, and the next turn of every agent
  that receives one faults in its reconfiguration. The servers ignore the configuration, because
  it comes in a heartbeat message.
\<close>

theorem healthy_cluster_is_reconfigured:
  assumes start: "started mcn nodes ms" "cluster_state mcn nodes pv t ms" "ms_is_lead ms"
      "\<not> tc_config_changed (ms_config ms)"
    and n: "tc_server_num (ms_config ms) = int (length (ids_with Server_role nodes))"
    and master: "ids_with Master_role nodes \<noteq> []"
    and es: "\<forall>e\<in>set es. from_workers nodes (snd (snd e))"
    and loop: "MainLoop mcn es ms = Inr (False, ms1, out)" and late: "t + timeout < now"
    and heard: "\<forall>i\<in>set (ids_with Server_role nodes @ ids_with Agent_role nodes). seen_since (now - timeout) i ms1"
  shows "\<exists>ms2 ms3 cfg. DetectDeadNode_turn timeout now ms1 = Inr ms2 \<and>
      DeliverHeartbeat mcn ms2 =
        Inr (ms3, map (\<lambda>i. (i + mcn, heartbeat_to (Some cfg) i :: 'v Message)) (ids_with Agent_role nodes) @
                  map (\<lambda>i. (i, heartbeat_to (Some cfg) i)) (ids_with Server_role nodes)) \<and>
      (\<forall>i zc sig incoming lid (ag :: 'v agent).
         AgentWork_turn zc sig incoming (fst (Agent_HeartBeat_turn lid (heartbeat_to (Some cfg) i) ag)) =
           Some (Inl OutOfBounds)) \<and>
      (\<forall>F zc i (st :: 'v server). servers st 0 = None \<longrightarrow>
         Start_turn F zc (heartbeat_to (Some cfg) i) st = Inr (st, []))"
proof -
  note run = started_running [OF start(1)]
  let ?i = "hd (ids_with Master_role nodes)"
  have i: "?i \<in> set (ids_with Master_role nodes)" using master by simp
  have "map_of (ms_alive_node ms) ?i = Some t"
    using start(2) ids_with_bound [OF i] by (simp add: cluster_state_def)
  moreover have "lead_loop mcn es ms = Inr (False, ms1, out)" using loop start(3) by (simp add: MainLoop_def)
  moreover have "\<forall>e\<in>set es. node_message nodes (snd (snd e)) \<and> send_id (snd (snd e)) \<noteq> ?i"
    using es i by (auto simp: from_workers_def)
  ultimately have ms1: "running nodes ms1" "map_of (ms_alive_node ms1) ?i = Some t" "ms_config ms1 = ms_config ms"
    using silent_node [OF run, of es ?i mcn False ms1 out] by auto
  have ids: "tc_server_id (ms_config ms) = ids_with Server_role nodes"
      "tc_agent_id (ms_config ms) = ids_with Agent_role nodes"
    using start(2) by (simp_all add: cluster_state_def enrolled_def)
  have "\<not> dead timeout now ms1 j" if "j \<in> set (ids_with Server_role nodes @ ids_with Agent_role nodes)" for j
    using bspec [OF heard that] by (auto simp: dead_def seen_since_def)
  then have alive: "filter (\<lambda>j. \<not> dead timeout now ms1 j) (ids_with Server_role nodes) = ids_with Server_role nodes"
      "filter (\<lambda>j. \<not> dead timeout now ms1 j) (ids_with Agent_role nodes) = ids_with Agent_role nodes"
    by (auto simp: filter_id_conv)
  have "\<exists>j. dead timeout now ms1 j" using ms1(2) late by (auto simp: dead_def)
  with DetectDeadNode_running [OF ms1(1), of timeout now] obtain ms2 where
    ms2: "DetectDeadNode_turn timeout now ms1 = Inr ms2" "running nodes ms2"
      "tc_server_id (ms_config ms2) = ids_with Server_role nodes" "tc_agent_id (ms_config ms2) = ids_with Agent_role nodes"
      "tc_config_changed (ms_config ms2)" "tc_server_num (ms_config ms2) = tc_server_num (ms_config ms)"
    using ms1(3) ids alive by (auto simp: returns_iff)
  let ?cfg = "running_config nodes (ms_config ms2)"
  have num: "0 \<le> mcn" "in_i32 (int (length nodes) + mcn)" using start(1) by (auto simp: started_def)
  have "in_i32 (int (length (ids_with Server_role nodes)) + 1)" using fewer_servers [OF i] num by (simp add: in_i32_iff)
  then have fault: "AgentWork_turn zc sig incoming (fst (Agent_HeartBeat_turn lid (heartbeat_to (Some ?cfg) i) ag)) =
      Some (Inl OutOfBounds)" for zc sig incoming lid i and ag :: "'v agent"
    using ms2 n by (intro heartbeat_reconfigures_agent)
      (simp_all add: running_config_def config_for_def running_def wf_ids_def)
  note deliver = DeliverHeartbeat_running(1) [OF ms2(2) num]
  show ?thesis
    by (rule exI [of _ ms2], rule exI [of _ "ms2\<lparr>ms_config := (ms_config ms2)\<lparr>tc_config_changed := False\<rparr>\<rparr>"],
        rule exI [of _ ?cfg])
      (use ms2 fault in \<open>simp add: deliver heartbeat_ignored_by_server\<close>)
qed

theorem healthy_cluster_is_reconfigured_witness:
  "\<exists>ms ms1 ms2. started 10000 example_nodes ms \<and>
     MainLoop 10000 [(\<lambda>_. 0, 140, heartbeat_from 1), (\<lambda>_. 0, 141, heartbeat_from 2),
       (\<lambda>_. 0, 142, heartbeat_from 3), (\<lambda>_. 0, 143, heartbeat_from 4)] ms = Inr (False, ms1, []) \<and>
     DetectDeadNode_turn 30 150 ms1 = Inr ms2 \<and>
     (\<exists>cfg. AgentWork_turn (\<lambda>_. 0) 1 [] (fst (Agent_HeartBeat_turn 3 (heartbeat_to (Some cfg) 3) example_agent)) =
        Some (Inl OutOfBounds))"
proof -
  have l: "last example_events = (\<lambda>i. 6 - 4 * i, 103, example_register False ''10.0.0.4'' 5555)"
    by (simp add: example_events_def)
  have c: "id_to_addr (example_comm\<lparr>id_to_addr := Map.empty\<rparr>) = Map.empty" by simp
  have ids: "ids_with Server_role example_nodes = [1, 2]" "ids_with Agent_role example_nodes = [3, 4]"
      "ids_with Master_role example_nodes = [0]" "length example_nodes = 5"
    by (simp_all add: ids_with_def example_nodes_def upt_rec)
  let ?pv = "drawn (\<lambda>i. 6 - 4 * i) 2"
  from forming_run_starts [OF example_forming c l, of 10 1 1, unfolded example_cluster_nodes] obtain ms where
    ms: "cluster_state 10000 example_nodes ?pv 103 ms" "ms_terminated_node ms = []" "ms_is_lead ms"
      "settings (ms_config ms) = settings ((TaskConfig_Initialize 2 2 10 1 1 new_task_config)\<lparr>tc_partition := ?pv\<rparr>)"
    by blast
  note sel = settings_eqD [OF ms(4)]
  have set: "tc_server_num (ms_config ms) = 2" "tc_worker_num (ms_config ms) = 2" "\<not> tc_config_changed (ms_config ms)"
    using sel by (simp_all add: TaskConfig_Initialize_def new_task_config_def)
  have "length ?pv = 2" "sorted ?pv" by (simp_all add: drawn_def)
  then have st: "started 10000 example_nodes ms" using ms(1) ids by (auto simp: started_def in_i32_iff)
  let ?es = "[(\<lambda>_. 0 :: int, 140 :: int, heartbeat_from 1), (\<lambda>_. 0, 141, heartbeat_from 2),
      (\<lambda>_. 0, 142, heartbeat_from 3), (\<lambda>_. 0, 143, heartbeat_from 4)]"
  have hb: "node_message example_nodes (heartbeat_from i)" if "i \<in> {1, 2, 3, 4}" for i
    using that ids(4) by (auto simp: node_message_def heartbeat_from_def)
  have "send_id (heartbeat_from i) = i" for i by (simp add: heartbeat_from_def)
  then have es: "\<forall>e\<in>set ?es. from_workers example_nodes (snd (snd e))"
    by (simp add: from_workers_def ids hb)
  define ms1 where "ms1 = turn_state 143 (heartbeat_from 4) (turn_state 142 (heartbeat_from 3)
      (turn_state 141 (heartbeat_from 2) (turn_state 140 (heartbeat_from 1) ms)))"
  have type: "message_type (heartbeat_from i) = Message_MessageType_heartbeat" for i
    by (simp add: heartbeat_from_def)
  have turn: "MainLoop_turn 10000 d t (heartbeat_from i) x = Inr (False, turn_state t (heartbeat_from i) x, []) \<and>
      running example_nodes (turn_state t (heartbeat_from i) x)"
    if "running example_nodes x" "i \<in> {1, 2, 3, 4}" for d t i x
    using MainLoop_turn_running(1) [OF that(1) hb [OF that(2)], of 10000 d t]
      MainLoop_turn_running(2) [OF that(1) hb [OF that(2)], of t] type by simp
  note t1 = turn [of ms 1 "\<lambda>_. 0" 140, OF started_running [OF st], simplified]
  note t2 = turn [of _ 2 "\<lambda>_. 0" 141, OF conjunct2 [OF t1], simplified]
  note t3 = turn [of _ 3 "\<lambda>_. 0" 142, OF conjunct2 [OF t2], simplified]
  note t4 = turn [of _ 4 "\<lambda>_. 0" 143, OF conjunct2 [OF t3], simplified]
  have "lead_loop 10000 ?es ms = Inr (False, ms1, [])" by (simp add: t1 t2 t3 t4 ms1_def)
  then have loop: "MainLoop 10000 ?es ms = Inr (False, ms1, [])" using ms(3) by (simp add: MainLoop_def)
  have heard: "\<forall>i\<in>set (ids_with Server_role example_nodes @ ids_with Agent_role example_nodes).
      seen_since (150 - 30) i ms1"
    by (simp add: ids seen_since_def ms1_def turn_state_def heartbeat_from_def map_of_umap_set)
  have n: "tc_server_num (ms_config ms) = int (length (ids_with Server_role example_nodes))"
      "ids_with Master_role example_nodes \<noteq> []" "103 + 30 < (150 :: int)"
    using set(1) by (simp_all add: ids)
  from healthy_cluster_is_reconfigured [where 'v = int, OF st ms(1,3) set(3) n(1,2) es loop n(3) heard]
  obtain ms2 cfg where "DetectDeadNode_turn 30 150 ms1 = Inr ms2"
    and fault: "\<forall>i zc sig incoming lid (ag :: int agent).
      AgentWork_turn zc sig incoming (fst (Agent_HeartBeat_turn lid (heartbeat_to (Some cfg) i) ag)) = Some (Inl OutOfBounds)"
    by (elim exE conjE) (rule that)
  moreover have "AgentWork_turn (\<lambda>_. 0) 1 [] (fst (Agent_HeartBeat_turn 3 (heartbeat_to (Some cfg) 3) example_agent)) =
      Some (Inl OutOfBounds)"
    using fault by (rule allE) fast
  ultimately show ?thesis using st loop by blast
qed

end
