(* ===== verification/Server_Full_Round.thy ===== *)
theory Server_Full_Round
  imports Server_SSP
begin

text \<open>
  Whole rounds of the server. When no update is waiting and every agent pushes once, the round ends and
  the parameters are those of one round of averaging; as long as one agent has not pushed, nothing
  changes. Both are shown for the abstract machine first and then, through the refinement, for the code.
\<close>

section \<open>A round on the abstract machine\<close>

text \<open>Agents that are not ahead of the slowest one, each pushing once, are all accepted.\<close>

lemma ssp_pushes_once:
  assumes "0 < s" "distinct (map fst xs)"
    and "\<forall>x\<in>set xs. fst x < length h \<and> length (h ! fst x) \<le> min_clock h"
  shows "length (fold (\<lambda>(j, u). ssp_push s j u) xs h) = length h \<and>
    (\<forall>i<length h. fold (\<lambda>(j, u). ssp_push s j u) xs h ! i =
       h ! i @ (case map_of xs i of None \<Rightarrow> [] | Some u \<Rightarrow> [u]))"
  using assms(2,3)
proof (induction xs arbitrary: h)
  case (Cons x xs)
  obtain j u where x: "x = (j, u)" by force
  have j: "j < length h" "length (h ! j) \<le> min_clock h" using Cons.prems(2) by (simp_all add: x)
  then have push: "ssp_push s j u h = h[j := h ! j @ [u]]" using assms(1) by (simp add: ssp_push_def)
  have new: "j \<notin> fst ` set xs" using Cons.prems(1) by (simp add: x)
  have "min_clock h \<le> min_clock (h[j := h ! j @ [u]])"
    using min_clock_ssp_push [OF j(1), of s u] by (simp add: push)
  moreover have "y \<in> set xs \<Longrightarrow> j \<noteq> fst y" for y using new by force
  ultimately have "\<forall>y\<in>set xs. fst y < length (h[j := h ! j @ [u]]) \<and>
      length (h[j := h ! j @ [u]] ! fst y) \<le> min_clock (h[j := h ! j @ [u]])"
    using Cons.prems(2) by (auto intro: order_trans)
  note IH = Cons.IH [OF _ this]
  moreover have "map_of xs j = None" using new by (simp add: map_of_eq_None_iff)
  ultimately show ?case
    using Cons.prems(1) j by (auto simp: x push nth_list_update)
qed simp

lemma ssp_params_prefix:
  assumes "length h' = length h" "\<And>i. i < length h \<Longrightarrow> v \<le> length (h ! i) \<and> take v (h' ! i) = take v (h ! i)"
  shows "ssp_params F start len h' v = ssp_params F start len h v"
proof -
  have "ssp_round h' w = ssp_round h w" if "w < v" for w
  proof (rule nth_equalityI)
    fix i assume "i < length (ssp_round h' w)"
    then have "i < length h" using assms(1) by (simp add: ssp_round_def)
    from assms(2) [OF this] have "h' ! i ! w = h ! i ! w" using that by (metis nth_take)
    with \<open>i < length h\<close> assms(1) show "ssp_round h' w ! i = ssp_round h w ! i" by (simp add: ssp_round_def)
  qed (simp add: assms(1) ssp_round_def)
  then show ?thesis unfolding ssp_params_def by (intro fold_cong) auto
qed

text \<open>The history after every agent has pushed once, \<open>us ! j\<close> being the update of agent \<open>j\<close>.\<close>

lemma ssp_turns_once:
  assumes inv: "server_inv st" and rep: "ssp_rep F h st" and idle: "\<forall>q\<in>set (version_buffer st). q = []"
    and once: "distinct (map send_id (filter (pushes st) msgs))"
    and all: "set (agent_ids st) \<subseteq> send_id ` set (filter (pushes st) msgs)"
    and us: "\<forall>msg\<in>set msgs. pushes st msg \<longrightarrow>
      us ! agent_index st (send_id msg) = request_pairs (the_request_msg msg)"
  shows "length (fold (ssp_turn st) msgs h) = length h"
    and "i < length h \<Longrightarrow> length (h ! i) = nat (bottom_version st)"
    and "i < length h \<Longrightarrow> fold (ssp_turn st) msgs h ! i = h ! i @ [us ! i]"
proof -
  let ?ps = "filter (pushes st) msgs"
  let ?xs = "map (\<lambda>msg. (agent_index st (send_id msg), request_pairs (the_request_msg msg))) ?ps"
  have wf: "wf_agents st" "some_empty st" "0 < bound st"
    using inv by (simp_all add: server_inv_def wf_counts_def)
  have n: "length h = length (version_buffer st)" using rep by (simp add: ssp_rep_def)
  show len: "length (h ! i) = nat (bottom_version st)" if "i < length h" for i
    using ssp_rep_clock [OF rep that] idle that n nth_mem [of i "version_buffer st"] by simp
  note min = ssp_rep_min_clock [OF rep wf(2)]
  have sender: "send_id msg \<in> set (agent_ids st)" if "msg \<in> set ?ps" for msg
    using that by (simp add: pushes_def)
  have "inj_on (agent_index st) (set (map send_id ?ps))"
    by (rule inj_onI) (use sender in \<open>auto intro: agent_index_inj [OF wf(1)]\<close>)
  then have dist: "distinct (map fst ?xs)" using once by (simp add: comp_def distinct_map inj_on_def)
  moreover have ok: "\<forall>x\<in>set ?xs. fst x < length h \<and> length (h ! fst x) \<le> min_clock h"
    using sender agent_index_less(1) [OF wf(1)] len by (auto simp: n min)
  ultimately have fold: "length (fold (ssp_turn st) msgs h) = length h \<and>
      (\<forall>i<length h. fold (ssp_turn st) msgs h ! i = h ! i @ (case map_of ?xs i of None \<Rightarrow> [] | Some u \<Rightarrow> [u]))"
    unfolding fold_ssp_turn by (rule ssp_pushes_once [OF wf(3)])
  then show "length (fold (ssp_turn st) msgs h) = length h" by blast
  show "fold (ssp_turn st) msgs h ! i = h ! i @ [us ! i]" if i: "i < length h"
  proof -
    obtain a where a: "a \<in> set (agent_ids st)" "agent_index st a = i"
      using agent_with_index [OF wf(1)] i n by metis
    then obtain msg where m: "msg \<in> set ?ps" "send_id msg = a" using all by auto
    then have "map_of ?xs i = Some (request_pairs (the_request_msg msg))"
      using dist a(2) by (intro map_of_is_SomeI) (auto simp: image_iff)
    moreover have "us ! i = request_pairs (the_request_msg msg)" using us m a(2) by auto
    ultimately show ?thesis using fold i by simp
  qed
qed

section \<open>A round of the server\<close>

lemma full_round:
  assumes inv: "server_inv st" and rep: "ssp_rep F h st" and idle: "\<forall>q\<in>set (version_buffer st). q = []"
    and adm: "\<forall>msg\<in>set msgs. admissible st msg" and fits: "in_i32 (bottom_version st + int (length msgs))"
    and once: "distinct (map send_id (filter (pushes st) msgs))"
    and all: "set (agent_ids st) \<subseteq> send_id ` set (filter (pushes st) msgs)"
    and us: "\<forall>msg\<in>set msgs. pushes st msg \<longrightarrow>
      us ! agent_index st (send_id msg) = request_pairs (the_request_msg msg)"
    and n: "length us = length (version_buffer st)"
  shows "returns (serve_turns F zc msgs st) (\<lambda>st'. server_inv st' \<and> static st st' \<and>
      ssp_rep F (fold (ssp_turn st) msgs h) st' \<and> bottom_version st' = bottom_version st + 1 \<and> (\<forall>q\<in>set (version_buffer st'). q = []) \<and>
      parameters st' = apply_round F (start_key st) us (parameters st))"
proof -
  let ?h = "fold (ssp_turn st) msgs h" and ?b = "nat (bottom_version st)"
  note hist = ssp_turns_once [OF inv rep idle once all us]
  have h: "length h = length us" using rep n by (simp add: ssp_rep_def)
  have pos: "0 \<le> bottom_version st" and "version_buffer st \<noteq> []"
    using inv by (auto simp: server_inv_def wf_agents_def)
  then have ne: "0 < length h" using h n by simp
  obtain st' where run: "serve_turns F zc msgs st = Inr st'"
    and inv': "server_inv st'" and rep': "ssp_rep F ?h st'" and stat: "static st st'"
    using serve_turns_refine [OF inv rep adm fits, of zc] by (auto simp: returns_iff)
  have len: "length (?h ! i) = Suc ?b" if "i < length h" for i using hist(2,3) [OF that] by simp
  have "?h ! 0 \<in> set ?h" using ne hist(1) by simp
  then have "min_clock ?h = Suc ?b"
    using len ne hist(1) by (intro min_clock_eqI [of "?h ! 0"]) (auto simp: in_set_conv_nth)
  moreover have "min_clock ?h = nat (bottom_version st')"
    using ssp_rep_min_clock [OF rep'] inv' by (simp add: server_inv_def)
  ultimately have v: "nat (bottom_version st') = Suc ?b" "bottom_version st' = bottom_version st + 1"
    using pos by auto
  have empty: "version_buffer st' ! j = []" if "j < length (version_buffer st')" for j
    using rep' that len hist(1) v(1) by (auto simp: ssp_rep_def)
  have "ssp_round ?h ?b = us"
    by (rule nth_equalityI) (use hist h in \<open>auto simp: ssp_round_def nth_append\<close>)
  moreover have "ssp_params F start len ?h ?b = ssp_params F start len h ?b" for start len
    by (rule ssp_params_prefix) (use hist in auto)
  ultimately have "parameters st' = apply_round F (start_key st) us (parameters st)"
    using rep rep' v(1) stat by (simp add: ssp_rep_def ssp_params_Suc static_def)
  with run inv' rep' stat v(2) empty show ?thesis by (auto simp: in_set_conv_nth)
qed

text \<open>Without a push of some agent the round does not end.\<close>

lemma silent_turns:
  assumes wf: "wf_agents st" and a: "a \<in> set (agent_ids st)"
    and silent: "\<forall>msg\<in>set msgs. pushes st msg \<longrightarrow> send_id msg \<noteq> a"
  shows "length (fold (ssp_turn st) msgs h) = length h \<and>
    fold (ssp_turn st) msgs h ! agent_index st a = h ! agent_index st a \<and>
    (\<forall>i<length h. \<exists>ws. fold (ssp_turn st) msgs h ! i = h ! i @ ws)"
  using silent
proof (induction msgs arbitrary: h)
  case (Cons m ms)
  let ?j = "agent_index st a" and ?g = "ssp_turn st m h"
  have "agent_index st (send_id m) \<noteq> ?j" if "pushes st m"
    using that Cons.prems agent_index_inj [OF wf _ a] by (auto simp: pushes_def)
  then have g: "length ?g = length h" "?g ! ?j = h ! ?j" by (simp_all add: ssp_turn_def ssp_push_def)
  have app: "\<exists>ws. ?g ! i = h ! i @ ws" if "i < length h" for i
    using that by (cases "agent_index st (send_id m) = i") (simp_all add: ssp_turn_def ssp_push_def)
  have IH: "length (fold (ssp_turn st) ms ?g) = length ?g" "fold (ssp_turn st) ms ?g ! ?j = ?g ! ?j"
    "\<And>i. i < length ?g \<Longrightarrow> \<exists>ws. fold (ssp_turn st) ms ?g ! i = ?g ! i @ ws"
    using Cons.IH [of ?g] Cons.prems by simp_all
  have "\<exists>ws. fold (ssp_turn st) ms ?g ! i = h ! i @ ws" if "i < length h" for i
    using app [OF that] IH(3) [of i] that g(1) by fastforce
  with g(1,2) IH(1,2) show ?case by simp
qed simp

lemma round_waits:
  assumes inv: "server_inv st" and rep: "ssp_rep F h st"
    and adm: "\<forall>msg\<in>set msgs. admissible st msg" and fits: "in_i32 (bottom_version st + int (length msgs))"
    and a: "a \<in> set (agent_ids st)" "version_buffer st ! agent_index st a = []"
    and silent: "\<forall>msg\<in>set msgs. pushes st msg \<longrightarrow> send_id msg \<noteq> a"
  shows "returns (serve_turns F zc msgs st) (\<lambda>st'. bottom_version st' = bottom_version st \<and>
      parameters st' = parameters st)"
proof -
  let ?b = "nat (bottom_version st)" and ?j = "agent_index st a"
  have wf: "wf_agents st" "0 \<le> bottom_version st" using inv by (simp_all add: server_inv_def)
  have n: "length h = length (version_buffer st)" using rep by (simp add: ssp_rep_def)
  note j = agent_index_less(1) [OF wf(1) a(1)]
  let ?h = "fold (ssp_turn st) msgs h"
  have h: "length ?h = length h" "?h ! ?j = h ! ?j" "\<And>i. i < length h \<Longrightarrow> \<exists>ws. ?h ! i = h ! i @ ws"
    using silent_turns [OF wf(1) a(1) silent, of h] by auto
  obtain st' where run: "serve_turns F zc msgs st = Inr st'"
    and inv': "server_inv st'" and rep': "ssp_rep F ?h st'" and stat: "static st st'"
    using serve_turns_refine [OF inv rep adm fits, of zc] by (auto simp: returns_iff)
  have len: "?b \<le> length (h ! i)" if "i < length h" for i using rep that by (simp add: ssp_rep_def)
  have prefix: "?b \<le> length (h ! i) \<and> take ?b (?h ! i) = take ?b (h ! i)" if "i < length h" for i
    using h(3) [OF that] len [OF that] by auto
  have "length (h ! ?j) = ?b" using ssp_rep_clock [OF rep] j n a(2) by simp
  then have "min_clock ?h = ?b"
    using j n h(1,2) h(3) len by (intro min_clock_eqI [of "?h ! ?j"]) (fastforce simp: in_set_conv_nth)+
  moreover have "min_clock ?h = nat (bottom_version st')"
    using ssp_rep_min_clock [OF rep'] inv' by (simp add: server_inv_def)
  ultimately have v: "nat (bottom_version st') = ?b" "bottom_version st' = bottom_version st"
    using wf(2) inv' by (auto simp: server_inv_def)
  have "parameters st' = parameters st"
    using rep rep' v(1) stat ssp_params_prefix [OF h(1) prefix] by (simp add: ssp_rep_def static_def)
  with run v(2) show ?thesis by simp
qed

text \<open>The pulls of an idle server are answered at once.\<close>

lemma idle_pull:
  assumes "server_inv st" "\<forall>q\<in>set (version_buffer st). q = []" "a \<in> set (agent_ids st)" "valid_pull st r"
  shows "ServePull a r st = Inr (st, [pull_reply st a (rq_keys r)])"
proof -
  have wf: "wf_agents st" "wf_counts st" "wf_range st" using assms(1) by (simp_all add: server_inv_def)
  note j = agent_index_less [OF wf(1) assms(3)]
  have "version_buffer st ! agent_index st a = []" using assms(2) j(1) by simp
  moreover have "0 < bound st" using wf(2) by (simp add: wf_counts_def)
  ultimately show ?thesis using ServePull_result [OF wf(2,3) j(2,1) assms(4)] by (simp add: pull_result_def)
qed

section \<open>Services that work in rounds\<close>

text \<open>
  What a client relies on that trains for many rounds: between two rounds the service is in a good
  state, and serving the messages of one round advances its clock by one and moves every value
  that it holds by a given step. Then any number of rounds compose.
\<close>

locale round_service =
  fixes serve :: "'m list \<Rightarrow> 's \<Rightarrow> 's res" and msgs :: "'r \<Rightarrow> 'm list" and ok :: "'r \<Rightarrow> bool"
    and good :: "'s \<Rightarrow> bool" and clock :: "'s \<Rightarrow> int" and limit :: int
    and holds :: "'k \<Rightarrow> bool" and val :: "'s \<Rightarrow> 'k \<Rightarrow> 'v" and step :: "'r \<Rightarrow> 'k \<Rightarrow> 'v \<Rightarrow> 'v"
  assumes serve_Nil: "serve [] s = Inr s"
    and serve_append: "serve (xs @ ys) s = bind_res (serve xs s) (serve ys)"
    and one_round: "good s \<Longrightarrow> ok r \<Longrightarrow> clock s + int (length (msgs r)) \<le> limit \<Longrightarrow>
      msgs r \<noteq> [] \<and> returns (serve (msgs r) s) (\<lambda>s'. good s' \<and> clock s' = clock s + 1 \<and>
        (\<forall>k. holds k \<longrightarrow> val s' k = step r k (val s k)))"
begin

lemma many_rounds:
  assumes "good s" "\<forall>r\<in>set rs. ok r" "clock s + int (length (concat (map msgs rs))) \<le> limit"
  shows "returns (serve (concat (map msgs rs)) s) (\<lambda>s'. good s' \<and> clock s' = clock s + int (length rs) \<and>
    (\<forall>k. holds k \<longrightarrow> val s' k = fold (\<lambda>r. step r k) rs (val s k)))"
  using assms
proof (induction rs arbitrary: s)
  case Nil
  then show ?case by (simp add: serve_Nil)
next
  case (Cons r rs)
  have "clock s + int (length (msgs r)) \<le> limit" using Cons.prems(3) by simp
  from one_round [OF Cons.prems(1) _ this] Cons.prems(2) obtain s1 where
    one: "serve (msgs r) s = Inr s1" "good s1" "clock s1 = clock s + 1"
      "\<forall>k. holds k \<longrightarrow> val s1 k = step r k (val s k)" and "msgs r \<noteq> []"
    by (auto simp: returns_iff)
  then have "1 \<le> int (length (msgs r))" by (cases "msgs r") simp_all
  then have "clock s1 + int (length (concat (map msgs rs))) \<le> limit" using Cons.prems(3) one(3) by simp
  from Cons.IH [OF one(2) _ this] Cons.prems(2) one(1,3,4) show ?case
    by (auto simp: serve_append returns_iff)
qed

end

end
