(* ===== verification/Training.thy ===== *)
theory Training
  imports Cluster Server_Full_Round
begin

text \<open>
  Rounds of training through agents and server. The agents push their gradients, the messages
  reach a server in any order and with other messages in between, and the server's parameters have
  moved by the average of what the agents gave; the server is an instance of \<open>round_service\<close>, so
  rounds compose. When an agent has no gradient for a server, the round never ends there.
\<close>

section \<open>What a push sends to one server\<close>

definition sent :: "'v agent \<Rightarrow> 'v outgoing" where
  "sent ag = (case Push ag of Some (Inr (_, out)) \<Rightarrow> out | _ \<Rightarrow> [])"

definition sent_to :: "int \<Rightarrow> 'v outgoing \<Rightarrow> 'v Message list" where
  "sent_to d out = map snd (filter (\<lambda>x. fst x = d) out)"

lemma concat_map_filter:
  assumes "\<And>x y. x \<in> set xs \<Longrightarrow> y \<in> set (f x) \<Longrightarrow> P y \<longleftrightarrow> Q x"
  shows "filter P (concat (map f xs)) = concat (map f (filter Q xs))"
  using assms by (induction xs) (auto simp: filter_id_conv filter_empty_conv)

text \<open>The agent is ready to push, and the keys of its gradients are distinct.\<close>

definition ready :: "ConfigMessage \<Rightarrow> 'v agent \<Rightarrow> bool" where
  "ready cfg ag \<longleftrightarrow> agent_of cfg ag \<and> wf_request ag (ag_gradients ag) \<and> distinct (shm_prefix (ag_gradients ag))"

lemma ready_keys:
  assumes "ready cfg ag"
  shows "map fst (shm_pairs (ag_gradients ag)) = shm_prefix (ag_gradients ag)"
    and "distinct (map fst (shm_pairs (ag_gradients ag)))"
proof -
  have "wf_shm (ag_gradients ag)" "shm_size (ag_gradients ag) \<le> 100"
    using assms by (simp_all add: ready_def wf_request_def)
  then show "map fst (shm_pairs (ag_gradients ag)) = shm_prefix (ag_gradients ag)"
    by (simp add: shm_pairs_def shm_prefix_def wf_shm_def)
  with assms show "distinct (map fst (shm_pairs (ag_gradients ag)))" by (simp add: ready_def)
qed

lemma sent_messages:
  assumes cfg: "wf_layout cfg" "spread cfg" and ag: "ready cfg ag"
  shows "Push ag = Some (Inr (ag', out)) \<Longrightarrow> sent ag = out"
    and "\<exists>ag'. Push ag = Some (Inr (ag', sent ag))"
    and "\<forall>x\<in>set (sent ag). routed ag RequestType_key_value x \<and> wf_push (the_request_msg (snd x))"
    and "one_each ag (sent ag)"
    and "mset (concat (map (\<lambda>x. request_pairs (the_request_msg (snd x))) (sent ag))) = mset (shm_pairs (ag_gradients ag))"
proof -
  have r: "wf_agent ag" "wf_request ag (ag_gradients ag)" "distinct (shm_prefix (ag_gradients ag))"
      "distinct (ag_server_ids ag)"
    using ag cfg(1) by (simp_all add: ready_def agent_of_def wf_layout_def)
  from Push_sends [OF r(1-3)] r(4) obtain d out where push: "Push ag = Some (Inr (ag\<lparr>ag_gradients := d\<rparr>, out))"
    "mset (concat (map (\<lambda>(dst, m). request_pairs (the_request_msg m)) out)) = mset (shm_pairs (ag_gradients ag))"
    "\<forall>x\<in>set out. routed ag RequestType_key_value x \<and> wf_push (the_request_msg (snd x))"
    "one_each ag out"
    by blast
  have out: "sent ag = out" using push(1) by (simp add: sent_def)
  show "\<exists>ag'. Push ag = Some (Inr (ag', sent ag))"
    "\<forall>x\<in>set (sent ag). routed ag RequestType_key_value x \<and> wf_push (the_request_msg (snd x))"
    "one_each ag (sent ag)"
    "mset (concat (map (\<lambda>x. request_pairs (the_request_msg (snd x))) (sent ag))) = mset (shm_pairs (ag_gradients ag))"
    unfolding out using push by (blast, blast, blast, simp add: split_def)
qed (simp add: sent_def)

text \<open>The pairs that go to a server are those whose keys it owns.\<close>

lemma sent_pairs:
  assumes cfg: "wf_layout cfg" "spread cfg" and ag: "ready cfg ag" and idx: "idx < length (cf_server_id cfg)"
  shows "mset (concat (map (\<lambda>m. request_pairs (the_request_msg m)) (sent_to (cf_server_id cfg ! idx) (sent ag)))) =
    filter_mset (\<lambda>x. owns (partition_of cfg) (int idx) (fst x)) (mset (shm_pairs (ag_gradients ag)))"
proof -
  let ?d = "cf_server_id cfg ! idx" and ?own = "\<lambda>x. owns (partition_of cfg) (int idx) (fst x)"
  let ?pairs = "\<lambda>x. request_pairs (the_request_msg (snd x))"
  have "agent_of cfg ag" using ag by (simp add: ready_def)
  note own = owns_partition_of [OF this]
  have ids: "ag_server_ids ag = cf_server_id cfg" "distinct (cf_server_id cfg)"
    using ag cfg(1) by (simp_all add: ready_def agent_of_def wf_layout_def)
  have "?own y \<longleftrightarrow> fst x = ?d" if x: "x \<in> set (sent ag)" and y: "y \<in> set (?pairs x)" for x y
  proof -
    have "fst y \<in> set (rq_keys (the_request_msg (snd x)))"
      using y by (metis prod.collapse request_pairs_def set_zip_leftD)
    moreover have "routed ag RequestType_key_value x" using sent_messages(3) [OF cfg ag] x by blast
    ultimately obtain i where i: "i < length (cf_server_id cfg)" "fst x = cf_server_id cfg ! i"
        "owns (partition_of cfg) (int i) (fst y)"
      by (cases x) (auto simp: routed_def ids own)
    have "?own y \<longleftrightarrow> i = idx" using i(3) owns_unique [OF wf_partition_of [OF cfg] i(3), of "int idx"] by auto
    with i idx ids(2) show ?thesis by (simp add: nth_eq_iff_index_eq)
  qed
  then have "filter ?own (concat (map ?pairs (sent ag))) = concat (map ?pairs (filter (\<lambda>x. fst x = ?d) (sent ag)))"
    by (rule concat_map_filter)
  then have "concat (map (\<lambda>m. request_pairs (the_request_msg m)) (sent_to ?d (sent ag))) =
      filter ?own (concat (map ?pairs (sent ag)))"
    by (simp add: sent_to_def comp_def)
  then show ?thesis using sent_messages(5) [OF cfg ag] by simp
qed

text \<open>A server that is not the last gets at most one message of a push, and one if it owns a key of it.\<close>

lemma sorted_wrt_short:
  assumes "sorted_wrt P xs" "\<And>x y. x \<in> set xs \<Longrightarrow> y \<in> set xs \<Longrightarrow> \<not> P x y"
  shows "tl xs = []"
  using assms by (cases xs; cases "tl xs") auto

lemma sent_once:
  assumes cfg: "wf_layout cfg" "spread cfg" and ag: "ready cfg ag" and idx: "Suc idx < length (cf_server_id cfg)"
    and k: "k \<in> set (shm_prefix (ag_gradients ag))" "owns (partition_of cfg) (int idx) k"
  shows "\<exists>m. sent_to (cf_server_id cfg ! idx) (sent ag) = [m]"
proof -
  let ?d = "cf_server_id cfg ! idx" and ?ids = "cf_server_id cfg"
  have ids: "ag_server_ids ag = ?ids" "distinct ?ids" "?ids \<noteq> []"
    using ag cfg(1) idx by (auto simp: ready_def agent_of_def wf_layout_def)
  have "?d \<noteq> last ?ids" using ids(2,3) idx by (simp add: last_conv_nth nth_eq_iff_index_eq)
  let ?xs = "filter (\<lambda>x. fst x = ?d) (sent ag)"
  have "sorted_wrt (\<lambda>x y. fst x = fst y \<longrightarrow> fst x = last ?ids) ?xs"
    using sent_messages(4) [OF cfg ag] ids(1) by (simp add: one_each_def sorted_wrt_filter)
  then have short: "tl ?xs = []"
    by (rule sorted_wrt_short) (use \<open>?d \<noteq> last ?ids\<close> in simp)
  have "k \<in> fst ` set (shm_pairs (ag_gradients ag))" using k(1) ready_keys(1) [OF ag] by (simp flip: set_map)
  then obtain x where "x \<in> set (shm_pairs (ag_gradients ag))" "fst x = k" by auto
  then have "x \<in># filter_mset (\<lambda>x. owns (partition_of cfg) (int idx) (fst x)) (mset (shm_pairs (ag_gradients ag)))"
    using k(2) by simp
  with sent_pairs [OF cfg ag Suc_lessD [OF idx]] have "sent_to ?d (sent ag) \<noteq> []"
    by (cases x) (intro notI, simp, blast)
  then have "?xs \<noteq> []" by (simp add: sent_to_def)
  with short obtain y where "?xs = [y]" by (cases ?xs) auto
  then show ?thesis by (simp add: sent_to_def)
qed

section \<open>The gradients of a key\<close>

text \<open>The gradient that the worker of an agent gave a key, if it gave one.\<close>

definition gradient :: "'v agent \<Rightarrow> int \<Rightarrow> 'v option" where
  "gradient ag = map_of (shm_pairs (ag_gradients ag))"

lemma filter_key:
  "distinct (map fst xs) \<Longrightarrow>
   map snd (filter (\<lambda>x. fst x = k) xs) = (case map_of xs k of None \<Rightarrow> [] | Some v \<Rightarrow> [v])"
  by (induction xs) (auto simp: filter_empty_conv image_iff split: option.split)

lemma map_of_mset_filter:
  assumes "mset ys = filter_mset (\<lambda>x. P (fst x)) (mset xs)" "distinct (map fst xs)" "P k"
  shows "distinct (map fst ys)" "map_of ys k = map_of xs k"
proof -
  let ?xs = "filter (\<lambda>x. P (fst x)) xs"
  have eq: "mset ys = mset ?xs" using assms(1) by simp
  have d: "distinct (map fst ?xs)" using assms(2) by (rule distinct_map_filter)
  moreover have "mset (map fst ys) = mset (map fst ?xs)" using eq by simp
  ultimately show "distinct (map fst ys)" using mset_eq_imp_distinct_iff by blast
  with d have "map_of ys = map_of ?xs"
    using mset_eq_setD [OF eq] by (subst map_of_inject_set) auto
  moreover have "map_of ?xs k = map_of xs k" using assms(3) by (induction xs) auto
  ultimately show "map_of ys k = map_of xs k" by simp
qed

text \<open>The message of an agent to a server carries the agent's gradient for every key that the server owns.\<close>

lemma sent_gradient:
  assumes cfg: "wf_layout cfg" "spread cfg" and ag: "ready cfg ag" and idx: "idx < length (cf_server_id cfg)"
    and m: "sent_to (cf_server_id cfg ! idx) (sent ag) = [m]" and k: "owns (partition_of cfg) (int idx) k"
  shows "map snd (filter (\<lambda>x. fst x = k) (request_pairs (the_request_msg m))) =
    (case gradient ag k of None \<Rightarrow> [] | Some v \<Rightarrow> [v])"
proof -
  have "mset (request_pairs (the_request_msg m)) =
      filter_mset (\<lambda>x. owns (partition_of cfg) (int idx) (fst x)) (mset (shm_pairs (ag_gradients ag)))"
    using sent_pairs [OF cfg ag idx] m by simp
  from map_of_mset_filter [OF this ready_keys(2) [OF ag] k] show ?thesis
    by (simp add: filter_key gradient_def)
qed

section \<open>A round of training\<close>

text \<open>The one message of every agent to the server, in the order of the agents.\<close>

definition round_messages :: "int \<Rightarrow> 'v agent list \<Rightarrow> 'v Message list" where
  "round_messages d ags = concat (map (\<lambda>ag. sent_to d (sent ag)) ags)"

lemma round_messages_each:
  assumes cfg: "wf_layout cfg" "spread cfg" and idx: "Suc idx < length (cf_server_id cfg)"
    and ags: "\<forall>ag\<in>set ags. ready cfg ag \<and> (\<exists>k\<in>set (shm_prefix (ag_gradients ag)). owns (partition_of cfg) (int idx) k)"
  shows "\<exists>f. (\<forall>ag\<in>set ags. sent_to (cf_server_id cfg ! idx) (sent ag) = [f ag]) \<and>
      round_messages (cf_server_id cfg ! idx) ags = map f ags"
proof -
  have "\<forall>ag\<in>set ags. \<exists>m. sent_to (cf_server_id cfg ! idx) (sent ag) = [m]"
    using sent_once [OF cfg _ idx] ags by blast
  then obtain f where f: "\<forall>ag\<in>set ags. sent_to (cf_server_id cfg ! idx) (sent ag) = [f ag]" by metis
  then have "concat (map (\<lambda>ag. sent_to (cf_server_id cfg ! idx) (sent ag)) ags) = map f ags"
    by (induction ags) auto
  with f show ?thesis by (auto simp: round_messages_def)
qed

text \<open>A message of an agent, in a state of the server after its start.\<close>

lemma sent_message:
  assumes cfg: "wf_layout cfg" "spread cfg" and ag: "ready cfg ag" and id: "ag_local_id ag \<in> set (cf_worker_id cfg)"
    and st: "configured F cfg idx st0" "Suc idx < length (cf_server_id cfg)" "static st0 st"
    and m: "m \<in> set (sent_to (cf_server_id cfg ! idx) (sent ag))"
  shows "admissible st m" "pushes st m" "send_id m = ag_local_id ag"
    and "\<forall>x\<in>set (request_pairs (the_request_msg m)). start_key st \<le> fst x"
proof -
  let ?d = "cf_server_id cfg ! idx"
  have "(?d, m) \<in> set (sent ag)" using m by (auto simp: sent_to_def)
  then have r: "routed ag RequestType_key_value (?d, m)" "wf_push (the_request_msg m)"
    using sent_messages(3) [OF cfg ag] by fastforce+
  have "agent_of cfg ag" using ag by (simp add: ready_def)
  from routed_admissible [OF this cfg st(1,2) r] static_admissible [OF st(3)]
  show adm: "admissible st m" and "\<forall>x\<in>set (request_pairs (the_request_msg m)). start_key st \<le> fst x"
    using st(3) by (auto simp: in_range_def static_def request_pairs_def dest!: set_zip_leftD)
  show "send_id m = ag_local_id ag" using r(1) by (simp add: routed_def)
  moreover have "servers st (ag_local_id ag) = None"
    using agent_no_server [OF \<open>agent_of cfg ag\<close> st(1)] st(3) by (simp add: static_def)
  ultimately show "pushes st m"
    using r(1) id st(1,3) by (simp add: pushes_def routed_def configured_def static_def)
qed

lemma map_filter_concat:
  "List.map_filter f xs = concat (map (\<lambda>x. case f x of None \<Rightarrow> [] | Some v \<Rightarrow> [v]) xs)"
  by (induction xs) (simp_all add: map_filter_simps split: option.split)

text \<open>The updates that have arrived, in the order of the agents.\<close>

lemma arrived_updates:
  assumes cfg: "wf_config cfg" "spread cfg"
    and st: "configured F cfg idx st0" "Suc idx < length (cf_server_id cfg)" and static: "static st0 st"
    and ids: "map ag_local_id ags = cf_worker_id cfg"
    and ags: "\<forall>ag\<in>set ags. ready cfg ag \<and> (\<exists>k\<in>set (shm_prefix (ag_gradients ag)). owns (partition_of cfg) (int idx) k)"
    and arrived: "mset (filter (pushes st) msgs) = mset (round_messages (cf_server_id cfg ! idx) ags)"
    and others: "\<forall>m\<in>set msgs. \<not> pushes st m \<longrightarrow> admissible st m"
  shows "\<exists>us. length us = length ags \<and> length us = nat (agent_num st) \<and> (\<forall>msg\<in>set msgs. admissible st msg) \<and>
    distinct (map send_id (filter (pushes st) msgs)) \<and>
    set (agent_ids st) \<subseteq> send_id ` set (filter (pushes st) msgs) \<and>
    (\<forall>msg\<in>set msgs. pushes st msg \<longrightarrow> us ! agent_index st (send_id msg) = request_pairs (the_request_msg msg)) \<and>
    (\<forall>xs\<in>set us. \<forall>x\<in>set xs. start_key st \<le> fst x) \<and>
    (\<forall>k. owns (partition_of cfg) (int idx) k \<longrightarrow>
      map snd (filter (\<lambda>x. fst x = k) (concat us)) = List.map_filter (\<lambda>ag. gradient ag k) ags)"
proof -
  let ?d = "cf_server_id cfg ! idx"
  have lay: "wf_layout cfg" "distinct (cf_worker_id cfg)" "int (length (cf_worker_id cfg)) = cf_worker_num cfg"
    using cfg(1) by (simp_all add: wf_config_def)
  have sel: "agent_num st = cf_worker_num cfg" "set (agent_ids st) = set (cf_worker_id cfg)"
      "\<And>j. j < length (cf_worker_id cfg) \<Longrightarrow> agent_index st (cf_worker_id cfg ! j) = j"
    using st(1) static by (simp_all add: configured_def static_def agent_index_def)
  from round_messages_each [OF lay(1) cfg(2) st(2) ags] obtain f where
    f: "\<forall>ag\<in>set ags. sent_to ?d (sent ag) = [f ag]" "round_messages ?d ags = map f ags" by blast
  have ag: "ready cfg ag" "ag_local_id ag \<in> set (cf_worker_id cfg)" "f ag \<in> set (sent_to ?d (sent ag))"
    if "ag \<in> set ags" for ag
    using that ags f(1) by (auto simp flip: ids)
  note msg = sent_message [OF lay(1) cfg(2) ag(1,2) st(1,2) static ag(3)]
  have arr: "mset (filter (pushes st) msgs) = mset (map f ags)" using arrived f(2) by simp
  then have mem: "set (filter (pushes st) msgs) = f ` set ags" by (metis mset_eq_setD set_map)
  have len: "length ags = length (cf_worker_id cfg)" using arg_cong [OF ids, of length] by simp
  have "map send_id (map f ags) = cf_worker_id cfg"
    unfolding ids [symmetric] using msg(3) by simp
  with arr have senders: "mset (map send_id (filter (pushes st) msgs)) = mset (cf_worker_id cfg)"
    by (metis mset_map)
  define us where "us = map (\<lambda>ag. request_pairs (the_request_msg (f ag))) ags"
  have at: "us ! agent_index st (send_id m) = request_pairs (the_request_msg m)" if "m \<in> f ` set ags" for m
  proof -
    from that obtain j where j: "j < length ags" "m = f (ags ! j)" by (auto simp: in_set_conv_nth)
    then have "send_id m = cf_worker_id cfg ! j" using msg(3) by (simp flip: ids)
    with j sel(3) len show ?thesis by (simp add: us_def)
  qed
  have "map snd (filter (\<lambda>x. fst x = k) (concat us)) = List.map_filter (\<lambda>ag. gradient ag k) ags"
    if "owns (partition_of cfg) (int idx) k" for k
    unfolding us_def map_filter_concat filter_concat map_concat
    using sent_gradient [OF lay(1) cfg(2) ag(1) Suc_lessD [OF st(2)] _ that] f(1)
    by (simp add: comp_def cong: map_cong)
  moreover have "distinct (map send_id (filter (pushes st) msgs))"
    using mset_eq_imp_distinct_iff [OF senders] lay(2) by simp
  moreover have "set (agent_ids st) \<subseteq> send_id ` set (filter (pushes st) msgs)"
    using mset_eq_setD [OF senders] sel(2) by simp
  moreover have "admissible st m" if m: "m \<in> set msgs" for m
  proof (cases "pushes st m")
    case True
    then have "m \<in> f ` set ags" using m by (simp flip: mem)
    then show ?thesis using msg(1) by blast
  qed (use others m in blast)
  moreover have "\<forall>xs\<in>set us. \<forall>x\<in>set xs. start_key st \<le> fst x" using msg(4) by (simp add: us_def)
  moreover have "us ! agent_index st (send_id m) = request_pairs (the_request_msg m)"
    if "m \<in> set msgs" "pushes st m" for m
    using that by (intro at) (simp flip: mem)
  moreover have "length us = length ags" "length us = nat (agent_num st)"
    using len lay(3) sel(1) by (simp_all add: us_def)
  ultimately show ?thesis by (intro exI [of _ us]) blast
qed

text \<open>The average of the gradients that the agents give a key, added up in the order of the agents.\<close>

definition average :: "'v fops \<Rightarrow> 'v agent list \<Rightarrow> int \<Rightarrow> 'v" where
  "average F ags k = fdiv F (foldl (fadd F) (fzero F) (List.map_filter (\<lambda>ag. gradient ag k) ags))
     (fof_int F (int (length ags)))"

text \<open>
  A round: the agents of the configuration, each with a gradient for the server, and the messages
  that arrive at the server, in which the pushes are those of the agents in any order.
\<close>

definition round_ok :: "ConfigMessage \<Rightarrow> nat \<Rightarrow> 'v server \<Rightarrow> 'v agent list \<times> 'v Message list \<Rightarrow> bool" where
  "round_ok cfg idx st r = (case r of (ags, msgs) \<Rightarrow> map ag_local_id ags = cf_worker_id cfg \<and>
     (\<forall>ag\<in>set ags. ready cfg ag \<and> (\<exists>k\<in>set (shm_prefix (ag_gradients ag)). owns (partition_of cfg) (int idx) k)) \<and>
     mset (filter (pushes st) msgs) = mset (round_messages (cf_server_id cfg ! idx) ags) \<and>
     (\<forall>m\<in>set msgs. \<not> pushes st m \<longrightarrow> admissible st m))"

lemma round_ok_static:
  assumes "static st0 st"
  shows "round_ok cfg idx st = round_ok cfg idx st0"
proof -
  have "pushes st = pushes st0" using assms by (simp add: pushes_def static_def fun_eq_iff)
  moreover have "admissible st = admissible st0" using static_admissible [OF assms] by blast
  ultimately show ?thesis by (simp add: round_ok_def fun_eq_iff)
qed

text \<open>The server between two rounds.\<close>

definition between_rounds :: "'v fops \<Rightarrow> ConfigMessage \<Rightarrow> nat \<Rightarrow> 'v server \<Rightarrow> 'v server \<Rightarrow> bool" where
  "between_rounds F cfg idx st0 st \<longleftrightarrow> wf_config cfg \<and> spread cfg \<and> configured F cfg idx st0 \<and>
     Suc idx < length (cf_server_id cfg) \<and> static st0 st \<and> server_rep F st \<and> (\<forall>q\<in>set (version_buffer st). q = [])"

lemma training_round:
  assumes good: "between_rounds F cfg idx st0 st" and r: "round_ok cfg idx st0 (ags, msgs)"
    and fits: "bottom_version st + int (length msgs) \<le> kInt32Max"
  shows "msgs \<noteq> [] \<and> returns (serve_turns F zc msgs st) (\<lambda>st'. between_rounds F cfg idx st0 st' \<and>
    bottom_version st' = bottom_version st + 1 \<and>
    (\<forall>k. owns (partition_of cfg) (int idx) k \<longrightarrow> parameters st' ! nat (k - start_key st0) =
       fadd F (parameters st ! nat (k - start_key st0)) (average F ags k)))"
proof -
  have cfg: "wf_config cfg" "spread cfg" and st: "configured F cfg idx st0" "Suc idx < length (cf_server_id cfg)"
      "static st0 st" and idle: "\<forall>q\<in>set (version_buffer st). q = []"
    using good by (simp_all add: between_rounds_def)
  from good obtain h where inv: "server_inv st" and rep: "ssp_rep F h st"
    by (auto simp: between_rounds_def server_rep_def)
  from arrived_updates [OF cfg st, of ags msgs] r [folded round_ok_static [OF st(3)]] obtain us where
    us: "length us = length ags" "length us = nat (agent_num st)" "\<forall>msg\<in>set msgs. admissible st msg"
      "distinct (map send_id (filter (pushes st) msgs))" "set (agent_ids st) \<subseteq> send_id ` set (filter (pushes st) msgs)"
      "\<forall>msg\<in>set msgs. pushes st msg \<longrightarrow> us ! agent_index st (send_id msg) = request_pairs (the_request_msg msg)"
      "\<forall>xs\<in>set us. \<forall>x\<in>set xs. start_key st \<le> fst x"
    and grad: "\<And>k. owns (partition_of cfg) (int idx) k \<Longrightarrow>
      map snd (filter (\<lambda>x. fst x = k) (concat us)) = List.map_filter (\<lambda>ag. gradient ag k) ags"
    unfolding round_ok_def prod.case by blast
  have v: "in_i32 (bottom_version st + int (length msgs))"
    using fits inv by (simp add: server_inv_def in_i32_iff kInt32Max_def)
  have n: "length us = length (version_buffer st)"
    using us(2) inv nat_int [of "length (version_buffer st)"] by (simp add: server_inv_def wf_agents_def)
  from full_round [OF inv rep idle us(3) v us(4-6) n, of zc] obtain st' where
    run: "serve_turns F zc msgs st = Inr st'" "server_inv st'" "static st st'"
      "ssp_rep F (fold (ssp_turn st) msgs h) st'"
      "bottom_version st' = bottom_version st + 1" "\<forall>q\<in>set (version_buffer st'). q = []"
      "parameters st' = apply_round F (start_key st) us (parameters st)"
    by (auto simp: returns_iff)
  have start: "start_key st0 = start_key st" using st(3) by (simp add: static_def)
  have "parameters st' ! nat (k - start_key st0) = fadd F (parameters st ! nat (k - start_key st0)) (average F ags k)"
    if k: "owns (partition_of cfg) (int idx) k" for k
  proof -
    have "in_range st0 k" using owns_in_range [OF _ cfg(2) st(1,2) k] cfg(1) by (simp add: wf_config_def)
    then have r: "start_key st \<le> k" "nat (k - start_key st) < length (parameters st)"
      using inv st(3) by (auto simp: in_range_def static_def server_inv_def wf_range_def)
    then have "start_key st + int (nat (k - start_key st)) = k" by simp
    with nth_apply_round [OF r(2) us(7), of F] grad [OF k] show ?thesis
      by (simp add: run(7) us(1) start average_def)
  qed
  moreover have "msgs \<noteq> []" using us(5) agent_with_index [of st 0] inv by (auto simp: server_inv_def wf_agents_def)
  moreover have "between_rounds F cfg idx st0 st'"
    using cfg st(1,2) run static_trans [OF st(3) run(3)] by (auto simp: between_rounds_def server_rep_def)
  ultimately show ?thesis using run(1,5) by simp
qed

interpretation train: round_service "serve_turns F zc" snd "round_ok cfg idx st0" "between_rounds F cfg idx st0"
  bottom_version kInt32Max "owns (partition_of cfg) (int idx)" "\<lambda>st k. parameters st ! nat (k - start_key st0)"
  "\<lambda>r k p. fadd F p (average F (fst r) k)"
  for F zc cfg idx st0
proof
  fix st r
  assume "between_rounds F cfg idx st0 st" "round_ok cfg idx st0 r" "bottom_version st + int (length (snd r)) \<le> kInt32Max"
  then show "snd r \<noteq> [] \<and> returns (serve_turns F zc (snd r) st) (\<lambda>st'. between_rounds F cfg idx st0 st' \<and>
      bottom_version st' = bottom_version st + 1 \<and>
      (\<forall>k. owns (partition_of cfg) (int idx) k \<longrightarrow> parameters st' ! nat (k - start_key st0) =
         fadd F (parameters st ! nat (k - start_key st0)) (average F (fst r) k)))"
    using training_round [of F cfg idx st0 st "fst r" "snd r" zc] by simp
qed (simp_all add: serve_turns_def fold_res_append)

text \<open>
  C2: training, end to end. Take any number of rounds, in each of which every agent pushes gradients
  of which at least one belongs to a given server, not the last on the ring. Each agent then sends
  this server one message per round. From any state in which no update is waiting, when the
  messages of each round have arrived, in whatever order and with whatever other admissible
  messages in between, the server has finished exactly these rounds: in each round every one of its
  parameters has moved by the average of the gradients that the workers gave its key; no update is
  waiting, and pulls are answered at once with the new parameters.
\<close>

theorem training_rounds:
  assumes cfg: "wf_config cfg" "spread cfg"
    and st: "configured F cfg idx st0" "Suc idx < length (cf_server_id cfg)" "(server_step F zc)\<^sup>*\<^sup>* st0 st"
    and idle: "\<forall>q\<in>set (version_buffer st). q = []"
    and rounds: "\<forall>r\<in>set rs. round_ok cfg idx st r"
    and fits: "bottom_version st + int (length (concat (map snd rs))) \<le> kInt32Max"
  shows "\<exists>st'. serve_turns F zc (concat (map snd rs)) st = Inr st' \<and>
    bottom_version st' = bottom_version st + int (length rs) \<and> (\<forall>q\<in>set (version_buffer st'). q = []) \<and>
    (\<forall>k. owns (partition_of cfg) (int idx) k \<longrightarrow> parameters st' ! nat (k - start_key st) =
       fold (\<lambda>r p. fadd F p (average F (fst r) k)) rs (parameters st ! nat (k - start_key st))) \<and>
    (\<forall>a r. a \<in> set (cf_worker_id cfg) \<and> valid_pull st r \<longrightarrow>
       ServePull a r st' = Inr (st', [pull_reply st' a (rq_keys r)]))"
proof -
  note static = steps_static [OF st(1,3)]
  have "between_rounds F cfg idx st0 st" using cfg st idle static by (simp add: between_rounds_def)
  moreover have "\<forall>r\<in>set rs. round_ok cfg idx st0 r" using rounds by (simp add: round_ok_static [OF static(2)])
  ultimately obtain st' where run: "serve_turns F zc (concat (map snd rs)) st = Inr st'" "between_rounds F cfg idx st0 st'"
      "bottom_version st' = bottom_version st + int (length rs)"
      "\<forall>k. owns (partition_of cfg) (int idx) k \<longrightarrow> parameters st' ! nat (k - start_key st0) =
        fold (\<lambda>r p. fadd F p (average F (fst r) k)) rs (parameters st ! nat (k - start_key st0))"
    using train.many_rounds [OF _ _ fits, of F cfg idx st0 zc] by (auto simp: returns_iff)
  then have idle': "server_inv st'" "static st0 st'" "\<forall>q\<in>set (version_buffer st'). q = []"
    by (simp_all add: between_rounds_def server_rep_def)
  have "ServePull a r st' = Inr (st', [pull_reply st' a (rq_keys r)])"
    if "a \<in> set (cf_worker_id cfg)" "valid_pull st r" for a r
    using that st(1) static(2) idle'(2)
    by (intro idle_pull [OF idle'(1,3)]) (auto simp: static_def configured_def valid_pull_def in_range_def)
  with run idle' static(2) show ?thesis by (auto simp: static_def)
qed

text \<open>The example with two agents, both with gradients for key 3; the messages arrive in the order of their ids reversed.\<close>

definition example_agent2 :: "int agent" where
  "example_agent2 = example_agent\<lparr>ag_local_id := 4, ag_gradients := \<lparr> shm_size = 2,
     shm_values = [50, 90] @ replicate 98 0, shm_keys = [3, 8] @ replicate 98 0 \<rparr>\<rparr>"

lemma example_agent_ready: "ready example_config example_agent"
proof -
  have "agent_of example_config example_agent"
    by (simp add: agent_of_def example_agent_wf example_agent_def example_config_def)
      (simp add: wf_agent_def wf_partition_def in_i32_iff)
  then show ?thesis
    by (simp add: ready_def wf_request_def wf_shm_def shm_prefix_def example_agent_def numeral_eq_Suc)
qed

lemma example_agent2_ready: "ready example_config example_agent2"
  using example_agent_ready
  by (simp add: ready_def agent_of_def example_agent2_def wf_agent_def wf_request_def wf_shm_def shm_prefix_def
      example_config_def numeral_eq_Suc example_agent_def)

lemma example_wf_config: "wf_config example_config"
  using example_layout by (simp add: wf_config_def example_config_def in_i32_iff)

lemma example_owns:
  "\<exists>k\<in>set (shm_prefix (ag_gradients example_agent)). owns (partition_of example_config) 0 k"
  "\<exists>k\<in>set (shm_prefix (ag_gradients example_agent2)). owns (partition_of example_config) 0 k"
  by (simp_all add: owns_def partition_of_def example_config_def shm_prefix_def example_agent_def
      example_agent2_def numeral_eq_Suc)

theorem training_rounds_witness:
  "\<exists>st'. serve_turns int_ops (\<lambda>_. 0) (rev (round_messages 1 [example_agent, example_agent2]) @
       round_messages 1 [example_agent, example_agent2]) example_server = Inr st' \<and>
     bottom_version st' = 2 \<and> parameters st' ! 1 = 80"
proof -
  let ?ags = "[example_agent, example_agent2]"
  let ?ms = "round_messages 1 ?ags"
  let ?rs = "[(?ags, rev ?ms), (?ags, ?ms)]"
  have idx: "Suc 0 < length (cf_server_id example_config)" and d: "cf_server_id example_config ! 0 = 1"
    and ids: "map ag_local_id ?ags = cf_worker_id example_config"
    by (simp_all add: example_config_def example_agent_def example_agent2_def)
  have ags: "\<forall>ag\<in>set ?ags. ready example_config ag \<and>
      (\<exists>k\<in>set (shm_prefix (ag_gradients ag)). owns (partition_of example_config) (int 0) k)"
    using example_agent_ready example_agent2_ready example_owns by simp
  have "ag_local_id ag \<in> set (cf_worker_id example_config)" if "ag \<in> set ?ags" for ag
    using that by (simp only: ids [symmetric] set_map image_eqI)
  then have push: "pushes example_server m" if "m \<in> set ?ms" for m
    using that sent_message(2) [OF example_layout _ _ example_configured idx static_refl] ags
    by (fastforce simp: round_messages_def d)
  then have "filter (pushes example_server) ?ms = ?ms" by (rule filter_True [OF ballI])
  then have flt: "filter_mset (pushes example_server) (mset ?ms) = mset ?ms" by (metis mset_filter)
  have rounds: "\<forall>r\<in>set ?rs. round_ok example_config 0 example_server r"
    using ids ags push by (simp add: round_ok_def d flt)
  have idle: "\<forall>q\<in>set (version_buffer example_server). q = []" by (simp add: example_server_def)
  have "length ?ms = 2" using round_messages_each [OF example_layout idx ags] by (auto simp: d)
  then have fits: "bottom_version example_server + int (length (concat (map snd ?rs))) \<le> kInt32Max"
    by (simp add: example_server_def kInt32Max_def)
  have own: "owns (partition_of example_config) (int 0) 3"
    by (simp add: owns_def partition_of_def example_config_def)
  have "gradient example_agent 3 = Some 30" "gradient example_agent2 3 = Some 50"
    by (simp_all add: gradient_def shm_pairs_def shm_prefix_def example_agent_def example_agent2_def numeral_eq_Suc)
  then have avg: "average int_ops ?ags 3 = 40" by (simp add: average_def int_ops_def map_filter_simps)
  from training_rounds [OF example_wf_config example_layout(2) example_configured idx rtranclp.rtrancl_refl idle
      rounds fits, of "\<lambda>_. 0"]
  obtain st' where run: "serve_turns int_ops (\<lambda>_. 0) (concat (map snd ?rs)) example_server = Inr st'"
      "bottom_version st' = bottom_version example_server + int (length ?rs)"
    and ps: "\<forall>k. owns (partition_of example_config) (int 0) k \<longrightarrow> parameters st' ! nat (k - start_key example_server) =
      fold (\<lambda>r p. fadd int_ops p (average int_ops (fst r) k)) ?rs (parameters example_server ! nat (k - start_key example_server))"
    by blast
  have "parameters st' ! nat (3 - start_key example_server) =
      fold (\<lambda>r p. fadd int_ops p (average int_ops (fst r) 3)) ?rs (parameters example_server ! nat (3 - start_key example_server))"
    using ps own by blast
  then have "parameters st' ! 1 = 80" by (simp add: avg) (simp add: example_server_def int_ops_def)
  with run show ?thesis by (simp add: example_server_def)
qed

section \<open>An agent without gradients for a server\<close>

lemma nothing_sent:
  assumes cfg: "wf_layout cfg" "spread cfg" and ag: "ready cfg ag" and idx: "idx < length (cf_server_id cfg)"
    and none: "\<forall>k\<in>set (shm_prefix (ag_gradients ag)). \<not> owns (partition_of cfg) (int idx) k"
  shows "sent_to (cf_server_id cfg ! idx) (sent ag) = []"
proof -
  let ?ms = "sent_to (cf_server_id cfg ! idx) (sent ag)"
  have "\<not> owns (partition_of cfg) (int idx) (fst x)" if "x \<in> set (shm_pairs (ag_gradients ag))" for x
    using that none ready_keys(1) [OF ag, symmetric] by simp
  then have "filter (\<lambda>x. owns (partition_of cfg) (int idx) (fst x)) (shm_pairs (ag_gradients ag)) = []"
    by (simp add: filter_empty_conv)
  then have "mset (concat (map (\<lambda>m. request_pairs (the_request_msg m)) ?ms)) = {#}"
    unfolding sent_pairs [OF cfg ag idx] by (metis mset.simps(1) mset_filter)
  then have "request_pairs (the_request_msg m) = []" if "m \<in> set ?ms" for m using that by simp
  moreover have "request_pairs (the_request_msg m) \<noteq> []" if "m \<in> set ?ms" for m
    using that sent_messages(3) [OF cfg ag]
    by (fastforce simp: sent_to_def routed_def wf_push_def request_pairs_def)
  ultimately show ?thesis by (metis list.set_intros(1) neq_Nil_conv)
qed

text \<open>
  C35: an agent that has no gradient for a server holds that server up. Such an agent sends the server nothing,
  and the server counts the updates of all agents before it ends a round: from any state in which
  no update of this agent waits, whatever admissible messages arrive, the version and the
  parameters stay as they are as long as the agent's pushes hold no key of this server.
\<close>

theorem idle_agent_stalls_server:
  assumes cfg: "wf_config cfg" "spread cfg"
    and st: "configured F cfg idx st0" "idx < length (cf_server_id cfg)" "(server_step F zc)\<^sup>*\<^sup>* st0 st"
    and ag: "ready cfg ag" "ag_local_id ag \<in> set (cf_worker_id cfg)"
      "\<forall>k\<in>set (shm_prefix (ag_gradients ag)). \<not> owns (partition_of cfg) (int idx) k"
    and waits: "version_buffer st ! agent_index st (ag_local_id ag) = []"
    and msgs: "\<forall>m\<in>set msgs. admissible st m"
      "\<forall>m\<in>set msgs. pushes st m \<and> send_id m = ag_local_id ag \<longrightarrow> (cf_server_id cfg ! idx, m) \<in> set (sent ag)"
    and fits: "bottom_version st + int (length msgs) \<le> kInt32Max"
  shows "\<exists>ag' st'. Push ag = Some (Inr (ag', sent ag)) \<and> (\<forall>x\<in>set (sent ag). fst x \<noteq> cf_server_id cfg ! idx) \<and>
    serve_turns F zc msgs st = Inr st' \<and>
    bottom_version st' = bottom_version st \<and> parameters st' = parameters st"
proof -
  have lay: "wf_layout cfg" using cfg(1) by (simp add: wf_config_def)
  from steps_static [OF st(1,3)] obtain h where inv: "server_inv st" and rep: "ssp_rep F h st"
    and static: "static st0 st" by (auto simp: server_rep_def)
  have "sent_to (cf_server_id cfg ! idx) (sent ag) = []" by (rule nothing_sent [OF lay cfg(2) ag(1) st(2) ag(3)])
  then have none: "\<forall>x\<in>set (sent ag). fst x \<noteq> cf_server_id cfg ! idx" by (simp add: sent_to_def filter_empty_conv)
  then have silent: "\<forall>m\<in>set msgs. pushes st m \<longrightarrow> send_id m \<noteq> ag_local_id ag" using msgs(2) by fastforce
  have "ag_local_id ag \<in> set (agent_ids st)" using st(1) static ag(2) by (simp add: configured_def static_def)
  moreover have "in_i32 (bottom_version st + int (length msgs))"
    using fits inv by (simp add: server_inv_def in_i32_iff kInt32Max_def)
  ultimately have "returns (serve_turns F zc msgs st) (\<lambda>st'. bottom_version st' = bottom_version st \<and>
      parameters st' = parameters st)"
    by (intro round_waits [OF inv rep msgs(1) _ _ waits silent])
  with none sent_messages(2) [OF lay cfg(2) ag(1)] show ?thesis by (auto simp: returns_iff)
qed

text \<open>The second agent of the example, with a gradient for the second server only.\<close>

definition example_agent3 :: "int agent" where
  "example_agent3 = example_agent\<lparr>ag_local_id := 4, ag_gradients := \<lparr> shm_size = 1,
     shm_values = 90 # replicate 99 0, shm_keys = 8 # replicate 99 0 \<rparr>\<rparr>"

theorem idle_agent_stalls_server_witness:
  "round_messages 1 [example_agent] \<noteq> [] \<and>
   (\<exists>ag' st'. Push example_agent3 = Some (Inr (ag', sent example_agent3)) \<and>
     serve_turns int_ops (\<lambda>_. 0) (round_messages 1 [example_agent]) example_server = Inr st' \<and>
     bottom_version st' = 0 \<and> parameters st' = [0, 0, 0, 0])"
proof -
  let ?msgs = "round_messages 1 [example_agent]"
  have idx: "Suc 0 < length (cf_server_id example_config)" and d: "cf_server_id example_config ! 0 = 1"
    by (simp_all add: example_config_def)
  have own: "\<forall>ag\<in>set [example_agent]. ready example_config ag \<and>
      (\<exists>k\<in>set (shm_prefix (ag_gradients ag)). owns (partition_of example_config) (int 0) k)"
    using example_agent_ready example_owns by simp
  have id: "ag_local_id example_agent \<in> set (cf_worker_id example_config)" "ag_local_id example_agent = 3"
    by (simp_all add: example_agent_def example_config_def)
  note msg = sent_message [OF example_layout example_agent_ready id(1) example_configured idx static_refl]
  have adm: "\<forall>m\<in>set ?msgs. admissible example_server m \<and> send_id m = 3"
    using msg(1,3) by (simp add: round_messages_def d id(2))
  obtain m where one: "?msgs = [m]"
    using round_messages_each [OF example_layout idx own] by (auto simp: d)
  have ag: "ready example_config example_agent3" "ag_local_id example_agent3 \<in> set (cf_worker_id example_config)"
      "ag_local_id example_agent3 = 4"
      "\<forall>k\<in>set (shm_prefix (ag_gradients example_agent3)). \<not> owns (partition_of example_config) (int 0) k"
    using example_agent_ready
    by (simp_all add: ready_def agent_of_def example_agent3_def wf_agent_def wf_request_def wf_shm_def shm_prefix_def
        example_config_def numeral_eq_Suc example_agent_def owns_def partition_of_def)
  have st: "version_buffer example_server ! agent_index example_server (ag_local_id example_agent3) = []"
      "bottom_version example_server + int (length ?msgs) \<le> kInt32Max" "bottom_version example_server = 0"
      "parameters example_server = [0, 0, 0, 0]"
    by (simp_all add: example_server_def agent_index_def ag(3) one kInt32Max_def)
  have "\<forall>m\<in>set ?msgs. pushes example_server m \<and> send_id m = ag_local_id example_agent3 \<longrightarrow>
      (cf_server_id example_config ! 0, m) \<in> set (sent example_agent3)"
    using adm by (simp add: ag(3))
  from idle_agent_stalls_server [OF example_wf_config example_layout(2) example_configured Suc_lessD [OF idx]
      rtranclp.rtrancl_refl ag(1,2,4) st(1) _ this st(2), of "\<lambda>_. 0"] adm one
  show ?thesis by (auto simp: st(3,4))
qed

section \<open>A push on both sides of the wrap-around\<close>

text \<open>
  Keys below the first and above the last hash value belong to one server but lie in two blocks, so
  a push sends the last server two messages. The server takes them for two updates: with bound 1
  the second one is dropped, here the gradient of key 7.
\<close>

definition split_agent :: "int agent" where
  "split_agent = example_agent\<lparr>ag_gradients := \<lparr> shm_size = 2,
     shm_values = [70, 10] @ replicate 98 0, shm_keys = [7, 0] @ replicate 98 0 \<rparr>\<rparr>"

lemma split_push_loses_block:
  "map fst (sent split_agent) = [2, 2] \<and>
   (case serve_turns int_ops (\<lambda>_. 0) (sent_to 2 (sent split_agent)) example_server2 of
      Inr st \<Rightarrow> map (map kv_pairs) (version_buffer st) = [[[(0, 10)]], []] | Inl _ \<Rightarrow> False)"
  by code_simp

end
