(* ===== verification/Agent_Work.thy ===== *)
theory Agent_Work
  imports Agent_Pull
begin

text \<open>
  The whole life of an agent between the start and the end of its worker (\<open>Agent::Start\<close> and
  \<open>Agent::AgentWork\<close> of \<open>src/agent/agent.cc\<close>): a session is a sequence of pull and push signals
  of the worker and of heartbeats of the master, which the second thread answers, with a termination
  signal at the end.
\<close>

section \<open>Sessions\<close>

text \<open>
  A session without its end: the memory holds a well-formed request at each signal, without
  duplicates when it is a push; during a pull every server asked answers, the messages left
  over from before included; and the heartbeats carry no configuration.
\<close>

fun session_ok :: "'v agent \<Rightarrow> 'v Message option list \<Rightarrow> 'v agent_event list \<Rightarrow> bool" where
  "session_ok ag pending [] = True"
| "session_ok ag pending (Master_heartbeat m # es) = (config_msg m = None \<and> session_ok ag pending es)"
| "session_ok ag pending (Worker_signal sig mem arrived # es) =
     (wf_request ag mem \<and>
      (if sig = 0 then answered (ag_local_id ag) (asked ag mem) (pending @ arrived) \<and>
         session_ok ag (unread (ag_local_id ag) (asked ag mem) (pending @ arrived)) es
       else sig = 1 \<and> distinct (shm_prefix mem) \<and> session_ok ag (pending @ arrived) es))"

text \<open>How many of the events are pulls, how many pushes, and which heartbeats are among them.\<close>

definition pulls :: "'v agent_event list \<Rightarrow> nat" where
  "pulls es = length (filter (\<lambda>e. case e of Worker_signal sig _ _ \<Rightarrow> sig = 0 | _ \<Rightarrow> False) es)"

definition pushes :: "'v agent_event list \<Rightarrow> nat" where
  "pushes es = length (filter (\<lambda>e. case e of Worker_signal sig _ _ \<Rightarrow> sig \<noteq> 0 | _ \<Rightarrow> False) es)"

fun beats_of :: "'v agent_event list \<Rightarrow> 'v Message list" where
  "beats_of [] = []"
| "beats_of (Worker_signal sig mem arrived # es) = beats_of es"
| "beats_of (Master_heartbeat m # es) = m # beats_of es"

text \<open>What the agent answers to a heartbeat.\<close>

definition heartbeat_answer :: "int \<Rightarrow> int \<Rightarrow> 'v Message \<Rightarrow> 'v Message" where
  "heartbeat_answer lid epoch m = new_Message\<lparr>message_type := Message_MessageType_heartbeat, send_id := lid,
     recv_id := send_id m, heartbeat_msg := Some \<lparr> hb_is_live = True, hb_agent_epoch_num = epoch \<rparr>\<rparr>"

text \<open>
  The messages of one event: the pull requests or the push requests of what is in the memory, or the
  answer to the heartbeat.
\<close>

definition turn_sends :: "'v agent \<Rightarrow> int \<Rightarrow> 'v agent_event \<Rightarrow> 'v outgoing \<Rightarrow> bool" where
  "turn_sends ag epoch e out = (case e of
     Worker_signal sig mem arrived \<Rightarrow>
       if sig = 0 then
         concat (map (\<lambda>x. rq_keys (the_request_msg (snd x))) out) = sort (shm_prefix mem) \<and>
         (\<forall>x\<in>set out. routed ag RequestType_key x)
       else
         mset (concat (map (\<lambda>(dst, m). request_pairs (the_request_msg m)) out)) = mset (shm_pairs mem) \<and>
         (\<forall>x\<in>set out. routed ag RequestType_key_value x \<and> wf_push (the_request_msg (snd x)))
   | Master_heartbeat m \<Rightarrow> out = [(0, heartbeat_answer (ag_local_id ag) epoch m)])"

text \<open>The messages of all events, where each push counts an epoch.\<close>

fun session_sends :: "'v agent \<Rightarrow> int \<Rightarrow> 'v agent_event list \<Rightarrow> 'v outgoing list \<Rightarrow> bool" where
  "session_sends ag epoch [] outs = (outs = [])"
| "session_sends ag epoch (e # es) [] = False"
| "session_sends ag epoch (e # es) (out # outs) =
     (turn_sends ag epoch e out \<and> session_sends ag (epoch + int (pushes [e])) es outs)"

text \<open>What routes the requests of an agent; a session does not change it.\<close>

definition routing :: "'v agent \<Rightarrow> Partition \<times> int list \<times> int" where
  "routing ag = (ag_partition ag, ag_server_ids ag, ag_local_id ag)"

lemma routing_cong:
  assumes "routing ag = routing ag'"
  shows "wf_agent ag = wf_agent ag'" "wf_request ag = wf_request ag'" "asked ag = asked ag'"
    "routed ag = routed ag'" "turn_sends ag = turn_sends ag'" "ag_local_id ag = ag_local_id ag'"
proof -
  have sel: "ag_partition ag = ag_partition ag'" "ag_server_ids ag = ag_server_ids ag'"
      "ag_local_id ag = ag_local_id ag'"
    using assms by (simp_all add: routing_def)
  then have "owner ag = owner ag'" by (intro ext) (auto simp: owner_def split: sum.split)
  then show "asked ag = asked ag'" by (simp add: asked_def fun_eq_iff)
  show "routed ag = routed ag'" using sel by (simp add: routed_def fun_eq_iff)
  then show "turn_sends ag = turn_sends ag'"
    using sel by (intro ext) (simp add: turn_sends_def split: agent_event.split)
qed (use assms in \<open>simp_all add: routing_def wf_agent_def wf_request_def fun_eq_iff\<close>)

lemma session_ok_cong: "routing ag = routing ag' \<Longrightarrow> session_ok ag pending es = session_ok ag' pending es"
proof (induction ag pending es rule: session_ok.induct)
  case (3 ag pending sig mem arrived es)
  then show ?case using routing_cong [OF 3(3)] by simp
qed simp_all

lemma session_sends_cong: "routing ag = routing ag' \<Longrightarrow> session_sends ag e es outs = session_sends ag' e es outs"
proof (induction ag e es outs rule: session_sends.induct)
  case (3 ag epoch e es out outs)
  then show ?case using routing_cong(5) [OF 3(2)] by simp
qed simp_all

section \<open>One signal of the worker\<close>

lemma push_turn:
  assumes "wf_agent ag" "ag_reconfig_msg ag = None" "in_i32 (ag_epoch_num ag + 1)"
    and "wf_request ag mem" "distinct (shm_prefix mem)"
  shows "\<exists>ag' out. AgentWork_turn zc 1 incoming (ag\<lparr>ag_grad_memory := mem\<rparr>) =
      Some (Inr (True, ag', out, [], incoming)) \<and>
    routing ag' = routing ag \<and> ag_reconfig_msg ag' = None \<and> ag_epoch_num ag' = ag_epoch_num ag + 1 \<and>
    turn_sends ag e (Worker_signal 1 mem arrived) out"
proof -
  let ?ag = "ag\<lparr>ag_grad_memory := mem, ag_gradients := mem\<rparr>"
  have r: "routing ?ag = routing ag" by (simp add: routing_def)
  note cong = routing_cong [OF r]
  have "wf_request ?ag (ag_gradients ?ag)" "distinct (shm_prefix (ag_gradients ?ag))" "wf_agent ?ag"
    using assms by (simp_all add: cong)
  from Push_sends [OF this(3,1,2)] obtain d out where
    push: "Push ?ag = Some (Inr (?ag\<lparr>ag_gradients := d\<rparr>, out))"
      "mset (concat (map (\<lambda>(dst, m). request_pairs (the_request_msg m)) out)) = mset (shm_pairs mem)"
      "\<forall>x\<in>set out. routed ag RequestType_key_value x \<and> wf_push (the_request_msg (snd x))"
    unfolding cong by auto
  then show ?thesis
    using assms(2,3)
    by (simp add: AgentWork_turn_def SharedMemory_Read_def routing_def turn_sends_def i32_def)
qed

lemma pull_turn:
  assumes "wf_agent ag" "ag_reconfig_msg ag = None" "wf_request ag mem"
    and "answered (ag_local_id ag) (asked ag mem) incoming"
  shows "\<exists>ag' out. AgentWork_turn zc 0 incoming (ag\<lparr>ag_grad_memory := mem\<rparr>) =
      Some (Inr (True, ag', out, [2], unread (ag_local_id ag) (asked ag mem) incoming)) \<and>
    routing ag' = routing ag \<and> ag_reconfig_msg ag' = None \<and> ag_epoch_num ag' = ag_epoch_num ag \<and>
    turn_sends ag e (Worker_signal 0 mem arrived) out"
proof -
  let ?ag = "ag\<lparr>ag_grad_memory := mem, ag_parameters := mem\<rparr>"
  have r: "routing ?ag = routing ag" by (simp add: routing_def)
  note cong = routing_cong [OF r]
  have "wf_agent ?ag" "wf_request ?ag (ag_parameters ?ag)" using assms by (simp_all add: cong)
  from Pull_collected [OF this] obtain out where
    out: "concat (map (\<lambda>x. rq_keys (the_request_msg (snd x))) out) = sort (shm_prefix mem)"
      "\<forall>x\<in>set out. routed ag RequestType_key x"
    and pull: "\<And>incoming. answered (ag_local_id ag) (asked ag mem) incoming \<Longrightarrow>
      \<exists>d. Pull incoming ?ag = Some (Inr (?ag\<lparr>ag_parameters := d\<rparr>, out,
          unread (ag_local_id ag) (asked ag mem) incoming))"
    unfolding cong by (elim exE conjE) (rule that, simp, blast, fastforce)
  from pull [OF assms(4)] obtain d where
    "Pull incoming ?ag = Some (Inr (?ag\<lparr>ag_parameters := d\<rparr>, out,
        unread (ag_local_id ag) (asked ag mem) incoming))"
    by blast
  then show ?thesis
    using assms(2) out by (simp add: AgentWork_turn_def SharedMemory_Read_def routing_def turn_sends_def)
qed

section \<open>The session\<close>

text \<open>What the first events send and signal, before what the rest of the events does.\<close>

definition prepend ::
    "'v outgoing \<Rightarrow> int list \<Rightarrow> (bool \<times> 'v agent \<times> 'v outgoing \<times> int list) res option \<Rightarrow>
     (bool \<times> 'v agent \<times> 'v outgoing \<times> int list) res option" where
  "prepend out sigs rest = Option.bind rest (\<lambda>r.
     Some (bind_res r (\<lambda>(ended, ag, out2, sigs2). Inr (ended, ag, out @ out2, sigs @ sigs2))))"

lemma prepend_simps [simp]:
  "prepend out sigs (Some (Inl f)) = Some (Inl f)"
  "prepend out sigs (Some (Inr (ended, ag, out2, sigs2))) = Some (Inr (ended, ag, out @ out2, sigs @ sigs2))"
  "prepend [] [] r = r"
  "prepend out sigs (prepend out2 sigs2 r) = prepend (out @ out2) (sigs @ sigs2) r"
proof -
  show "prepend [] [] r = r" "prepend out sigs (prepend out2 sigs2 r) = prepend (out @ out2) (sigs @ sigs2) r"
    by (cases r; auto simp: prepend_def bind_res_def split: sum.split)+
qed (simp_all add: prepend_def)

lemma AgentWork_heartbeat:
  "config_msg m = None \<Longrightarrow> AgentWork zc lid pending (Master_heartbeat m # es) ag =
     prepend [(0, heartbeat_answer lid (ag_epoch_num ag) m)] [] (AgentWork zc lid pending es ag)"
  by (simp add: Agent_HeartBeat_turn_def heartbeat_answer_def prepend_def)

lemma AgentWork_signal:
  "AgentWork_turn zc sig (pending @ arrived) (ag\<lparr>ag_grad_memory := mem\<rparr>) = Some (Inr (True, ag1, out, sigs, rest)) \<Longrightarrow>
   AgentWork zc lid pending (Worker_signal sig mem arrived # es) ag = prepend out sigs (AgentWork zc lid rest es ag1)"
  by (simp add: prepend_def)

lemma session_turn:
  assumes "wf_agent ag" "ag_reconfig_msg ag = None" "in_i32 (ag_epoch_num ag)" "in_i32 (ag_epoch_num ag + 1)"
    and "session_ok ag pending (ev # es)" "lid = ag_local_id ag"
  shows "\<exists>ag' out rest. (\<forall>tail. AgentWork zc lid pending (ev # tail) ag =
      prepend out (replicate (pulls [ev]) 2) (AgentWork zc lid rest tail ag')) \<and>
    routing ag' = routing ag \<and> ag_reconfig_msg ag' = None \<and>
    ag_epoch_num ag' = ag_epoch_num ag + int (pushes [ev]) \<and>
    turn_sends ag (ag_epoch_num ag) ev out \<and> session_ok ag' rest es"
proof (cases ev)
  case (Master_heartbeat m)
  then show ?thesis
    using assms by (intro exI [of _ ag] exI [of _ "[(0, heartbeat_answer lid (ag_epoch_num ag) m)]"] exI [of _ pending])
      (simp add: AgentWork_heartbeat pulls_def pushes_def turn_sends_def del: AgentWork.simps)
next
  case (Worker_signal sig mem arrived)
  note ok = assms(5) [unfolded Worker_signal session_ok.simps]
  show ?thesis
  proof (cases "sig = 0")
    case True
    with ok have ok: "wf_request ag mem" "answered (ag_local_id ag) (asked ag mem) (pending @ arrived)"
        "session_ok ag (unread (ag_local_id ag) (asked ag mem) (pending @ arrived)) es"
      by simp_all
    from pull_turn [OF assms(1,2) ok(1,2), of zc "ag_epoch_num ag" arrived] obtain ag' out where
      turn: "AgentWork_turn zc 0 (pending @ arrived) (ag\<lparr>ag_grad_memory := mem\<rparr>) =
          Some (Inr (True, ag', out, [2], unread (ag_local_id ag) (asked ag mem) (pending @ arrived)))"
        "routing ag' = routing ag" "ag_reconfig_msg ag' = None" "ag_epoch_num ag' = ag_epoch_num ag"
        "turn_sends ag (ag_epoch_num ag) (Worker_signal 0 mem arrived) out"
      by blast
    from AgentWork_signal [OF turn(1)] turn ok(3) session_ok_cong [OF turn(2)] show ?thesis
      by (simp add: Worker_signal True pulls_def pushes_def del: AgentWork.simps) blast
  next
    case False
    with ok have ok: "sig = 1" "wf_request ag mem" "distinct (shm_prefix mem)" "session_ok ag (pending @ arrived) es"
      by simp_all
    from push_turn [OF assms(1,2,4) ok(2,3), of zc "pending @ arrived" "ag_epoch_num ag" arrived] obtain ag' out where
      turn: "AgentWork_turn zc 1 (pending @ arrived) (ag\<lparr>ag_grad_memory := mem\<rparr>) =
          Some (Inr (True, ag', out, [], pending @ arrived))"
        "routing ag' = routing ag" "ag_reconfig_msg ag' = None" "ag_epoch_num ag' = ag_epoch_num ag + 1"
        "turn_sends ag (ag_epoch_num ag) (Worker_signal 1 mem arrived) out"
      by blast
    from AgentWork_signal [OF turn(1)] turn ok(4) session_ok_cong [OF turn(2)] show ?thesis
      by (simp add: Worker_signal ok(1) pulls_def pushes_def del: AgentWork.simps) blast
  qed
qed

text \<open>A session as a prefix of all that happens: what follows it finds the agent as it was, but for the epoch.\<close>

lemma session_runs:
  assumes "wf_agent ag" "ag_reconfig_msg ag = None" "0 \<le> ag_epoch_num ag"
    and "in_i32 (ag_epoch_num ag + int (length es))" "session_ok ag pending es" "lid = ag_local_id ag"
  shows "\<exists>ag' outs rest. (\<forall>tail. AgentWork zc lid pending (es @ tail) ag =
      prepend (concat outs) (replicate (pulls es) 2) (AgentWork zc lid rest tail ag')) \<and>
    routing ag' = routing ag \<and> ag_reconfig_msg ag' = None \<and>
    ag_epoch_num ag' = ag_epoch_num ag + int (pushes es) \<and> session_sends ag (ag_epoch_num ag) es outs"
  using assms
proof (induction es arbitrary: ag pending)
  case Nil
  then show ?case by (intro exI [of _ ag] exI [of _ "[]"] exI [of _ pending]) (simp add: pulls_def pushes_def)
next
  case (Cons e es)
  have fits: "in_i32 (ag_epoch_num ag)" "in_i32 (ag_epoch_num ag + 1)"
    using Cons.prems(3,4) by (simp_all add: in_i32_iff)
  from session_turn [OF Cons.prems(1,2) fits Cons.prems(5,6), of zc] obtain ag1 out rest where
    turn: "\<forall>tail. AgentWork zc lid pending (e # tail) ag =
        prepend out (replicate (pulls [e]) 2) (AgentWork zc lid rest tail ag1)"
      "routing ag1 = routing ag" "ag_reconfig_msg ag1 = None"
      "ag_epoch_num ag1 = ag_epoch_num ag + int (pushes [e])"
      "turn_sends ag (ag_epoch_num ag) e out" "session_ok ag1 rest es"
    by blast
  have one: "pushes [e] \<le> 1" by (simp add: pushes_def)
  note cong = routing_cong [OF turn(2)]
  have "wf_agent ag1" "0 \<le> ag_epoch_num ag1" "in_i32 (ag_epoch_num ag1 + int (length es))" "lid = ag_local_id ag1"
    using Cons.prems(1,3,4,6) one by (simp_all add: cong turn(4) in_i32_iff)
  from Cons.IH [OF this(1) turn(3) this(2,3) turn(6) this(4)] obtain ag' outs rest' where
    later: "\<forall>tail. AgentWork zc lid rest (es @ tail) ag1 =
        prepend (concat outs) (replicate (pulls es) 2) (AgentWork zc lid rest' tail ag')"
      "routing ag' = routing ag1" "ag_reconfig_msg ag' = None"
      "ag_epoch_num ag' = ag_epoch_num ag1 + int (pushes es)" "session_sends ag1 (ag_epoch_num ag1) es outs"
    by blast
  have counts: "pulls (e # es) = pulls [e] + pulls es" "pushes (e # es) = pushes [e] + pushes es"
    by (simp_all add: pulls_def pushes_def)
  have "\<forall>tail. AgentWork zc lid pending ((e # es) @ tail) ag =
      prepend (concat (out # outs)) (replicate (pulls (e # es)) 2) (AgentWork zc lid rest' tail ag')"
    using turn(1) later(1) by (simp add: counts replicate_add del: AgentWork.simps)
  moreover have "session_sends ag (ag_epoch_num ag) (e # es) (out # outs)"
    using turn(4,5) later(5) session_sends_cong [OF turn(2)] by simp
  moreover have "ag_epoch_num ag' = ag_epoch_num ag + int (pushes (e # es))"
    using turn(4) later(4) by (simp add: counts)
  ultimately show ?case using turn(2) later(2,3) by metis
qed

text \<open>The end: the termination notice, and the heartbeats that are answered after it.\<close>

lemma heartbeats_only_sends:
  "snd (heartbeats_only lid es ag) = map (\<lambda>m. (0, heartbeat_answer lid (ag_epoch_num ag) m)) (beats_of es) \<and>
   ag_epoch_num (fst (heartbeats_only lid es ag)) = ag_epoch_num ag"
proof (induction es arbitrary: ag rule: beats_of.induct)
  case (3 m es)
  obtain ag1 out where one: "Agent_HeartBeat_turn lid m ag = (ag1, out)" by force
  then have "ag_epoch_num ag1 = ag_epoch_num ag" "out = [(0, heartbeat_answer lid (ag_epoch_num ag) m)]"
    by (auto simp: Agent_HeartBeat_turn_def heartbeat_answer_def Let_def split: if_splits)
  with one 3 [of ag1] show ?case by (cases "heartbeats_only lid es ag1") simp
qed simp_all

lemma AgentWork_stop:
  assumes "ag_reconfig_msg ag = None" "stop \<noteq> 0" "stop \<noteq> 1"
  shows "\<exists>ag'. AgentWork zc lid pending (Worker_signal stop mem arrived # later) ag =
      Some (Inr (True, ag', (0, terminate_message (ag_local_id ag)) #
        map (\<lambda>m. (0, heartbeat_answer lid (ag_epoch_num ag) m)) (beats_of later), [])) \<and>
    ag_epoch_num ag' = ag_epoch_num ag"
  using assms heartbeats_only_sends [of lid later "ag\<lparr>ag_grad_memory := mem\<rparr>"]
  by (cases "heartbeats_only lid later (ag\<lparr>ag_grad_memory := mem\<rparr>)") (simp add: AgentWork_turn_def)

text \<open>A heartbeat with a configuration of the master: the next signal of the worker finds the agent faulting.\<close>

definition delivered_config :: "ConfigMessage \<Rightarrow> bool" where
  "delivered_config cfg \<longleftrightarrow> length (cf_partition cfg) = length (cf_server_id cfg) \<and>
     int (length (cf_server_id cfg)) \<le> cf_server_num cfg \<and> in_i32 (cf_server_num cfg + 1)"

lemma AgentWork_reconfigured:
  assumes "config_msg m = Some cfg" "delivered_config cfg"
  shows "AgentWork zc lid pending (Master_heartbeat m # Worker_signal sig mem arrived # later) ag = Some (Inl OutOfBounds)"
proof -
  have "Reconfigurate zc m a = Inl OutOfBounds" for a :: "'a agent"
    using Reconfigurate_fault [OF assms(1)] assms(2) by (simp add: delivered_config_def)
  then show ?thesis using assms(1) by (simp add: Agent_HeartBeat_turn_def AgentWork_turn_def)
qed

lemma Agent_Start_routing:
  "routing (ag\<lparr>ag_para_fifo := p, ag_grad_fifo := g\<rparr>) = routing ag"
  by (simp add: routing_def)

lemma session_serves:
  assumes "wf_agent ag" "ag_reconfig_msg ag = None" "0 \<le> ag_epoch_num ag"
    and "in_i32 (ag_epoch_num ag + int (length es))" "session_ok ag [] es" "stop \<noteq> 0" "stop \<noteq> 1"
  shows "\<exists>ag' outs. Agent_Start os_open zc (es @ Worker_signal stop mem arrived # later) ag =
      Some (Inr (True, ag', concat outs @ (0, terminate_message (ag_local_id ag)) #
          map (\<lambda>m. (0, heartbeat_answer (ag_local_id ag) (ag_epoch_num ag + int (pushes es)) m)) (beats_of later),
        replicate (pulls es) 2)) \<and>
      session_sends ag (ag_epoch_num ag) es outs \<and> ag_epoch_num ag' = ag_epoch_num ag + int (pushes es)"
    and "config_msg m = Some cfg \<Longrightarrow> delivered_config cfg \<Longrightarrow>
      Agent_Start os_open zc (es @ Master_heartbeat m # Worker_signal sig mem arrived # later) ag = Some (Inl OutOfBounds)"
proof -
  let ?ag = "ag\<lparr>ag_para_fifo := Fifo_Open os_open (ag_para_fifo ag),
      ag_grad_fifo := Fifo_Open os_open (ag_grad_fifo ag)\<rparr>"
  note cong = routing_cong [OF Agent_Start_routing] session_ok_cong [OF Agent_Start_routing]
    session_sends_cong [OF Agent_Start_routing]
  from session_runs [of ?ag es "[]" "ag_local_id ag" zc] assms(1-5) obtain ag1 outs rest where
    run: "\<forall>tail. AgentWork zc (ag_local_id ag) [] (es @ tail) ?ag =
        prepend (concat outs) (replicate (pulls es) 2) (AgentWork zc (ag_local_id ag) rest tail ag1)"
    and ag1: "routing ag1 = routing ?ag" "ag_reconfig_msg ag1 = None"
      "ag_epoch_num ag1 = ag_epoch_num ag + int (pushes es)" "session_sends ag (ag_epoch_num ag) es outs"
    by (auto simp: cong)
  have lid: "ag_local_id ag1 = ag_local_id ag" using ag1(1) by (simp add: routing_def)
  from AgentWork_stop [OF ag1(2) assms(6,7), of zc "ag_local_id ag" rest mem arrived later] run ag1(3,4)
  show "\<exists>ag' outs. Agent_Start os_open zc (es @ Worker_signal stop mem arrived # later) ag =
      Some (Inr (True, ag', concat outs @ (0, terminate_message (ag_local_id ag)) #
          map (\<lambda>m. (0, heartbeat_answer (ag_local_id ag) (ag_epoch_num ag + int (pushes es)) m)) (beats_of later),
        replicate (pulls es) 2)) \<and>
      session_sends ag (ag_epoch_num ag) es outs \<and> ag_epoch_num ag' = ag_epoch_num ag + int (pushes es)"
    by (auto simp: Agent_Start_def lid simp del: AgentWork.simps)
  show "Agent_Start os_open zc (es @ Master_heartbeat m # Worker_signal sig mem arrived # later) ag = Some (Inl OutOfBounds)"
    if "config_msg m = Some cfg" "delivered_config cfg"
    using run by (simp add: Agent_Start_def AgentWork_reconfigured [OF that] del: AgentWork.simps)
qed

text \<open>
  C10: an agent serves its worker to the end, as long as no heartbeat brings a configuration. For
  every session of pulls, pushes and heartbeats, in any order, in which the servers answer the pulls
  and the heartbeats carry no configuration, \<open>Start\<close> returns true after the termination signal: each
  pull sends the sorted keys to their owners and is acknowledged to the worker with one signal, each
  push sends every gradient once to its owner and counts an epoch, each heartbeat is answered with the
  number of epochs, and the termination notice to the master follows; after it only the heartbeats
  that still arrive are answered, and signals are not read. But when, after such a session, a heartbeat
  brings a configuration as the master sends it, with one hash value per server, the next signal of
  the worker finds the agent reading outside the message, whatever the signal is.
\<close>

theorem agent_serves_session:
  assumes "wf_agent ag" "ag_reconfig_msg ag = None" "0 \<le> ag_epoch_num ag"
    and "in_i32 (ag_epoch_num ag + int (length es))" "session_ok ag [] es" "stop \<noteq> 0" "stop \<noteq> 1"
  shows "(\<exists>ag' outs. Agent_Start os_open zc (es @ Worker_signal stop mem arrived # later) ag =
      Some (Inr (True, ag', concat outs @ (0, terminate_message (ag_local_id ag)) #
          map (\<lambda>m. (0, heartbeat_answer (ag_local_id ag) (ag_epoch_num ag + int (pushes es)) m)) (beats_of later),
        replicate (pulls es) 2)) \<and>
      session_sends ag (ag_epoch_num ag) es outs \<and> ag_epoch_num ag' = ag_epoch_num ag + int (pushes es)) \<and>
    (\<forall>m cfg sig. config_msg m = Some cfg \<and> delivered_config cfg \<longrightarrow>
      Agent_Start os_open zc (es @ Master_heartbeat m # Worker_signal sig mem arrived # later) ag = Some (Inl OutOfBounds))"
  using session_serves [OF assms] by blast

text \<open>
  The worker of the example pulls two keys from both servers, gets a heartbeat, pushes three gradients,
  and ends; another heartbeat comes after that.
\<close>

definition example_heartbeat :: "int Message" where
  "example_heartbeat = new_Message\<lparr>message_type := Message_MessageType_heartbeat, send_id := 0, recv_id := 3,
     heartbeat_msg := Some \<lparr> hb_is_live = True, hb_agent_epoch_num = 0 \<rparr>\<rparr>"

definition example_session :: "int agent_event list" where
  "example_session =
     [Worker_signal 0 example_pull_memory [Some (example_reply 2 [7] [71]), Some (example_reply 1 [3] [31])],
      Master_heartbeat example_heartbeat, Worker_signal 1 (ag_gradients example_agent) []]"

lemma example_session_ok: "session_ok example_agent [] example_session"
proof -
  let ?in = "[Some (example_reply 2 [7] [71]), Some (example_reply 1 [3] [31])]"
  have id: "ag_local_id example_agent = 3" by (simp add: example_agent_def)
  have push: "wf_request example_agent (ag_gradients example_agent)" "distinct (shm_prefix (ag_gradients example_agent))"
    by (simp_all add: wf_request_def wf_shm_def shm_prefix_def example_agent_def numeral_eq_Suc)
  have acc: "accepted 3 {2, 1} ?in = [example_reply 2 [7] [71], example_reply 1 [3] [31]]"
    by (simp add: accepts_def example_reply_def)
  have "answered 3 {2, 1} ?in"
    by (rule answeredI [OF acc]) (simp_all add: example_reply_def wf_push_def in_i32_iff)
  then show ?thesis
    using push example_pull_request(1)
    by (simp add: example_session_def example_asked id example_heartbeat_def new_Message_def)
qed

text \<open>The configuration that a change of the cluster would bring.\<close>

definition example_reconfig :: "int Message" where
  "example_reconfig = example_heartbeat\<lparr>config_msg := Some \<lparr> cf_worker_num = 2, cf_server_num = 2, cf_key_range = 10,
     cf_node_ip_port = [''10.0.0.9:16666'', ''10.0.0.1:8888'', ''10.0.0.2:8888'', ''10.0.0.3:5555'', ''10.0.0.4:5555''],
     cf_partition = [2, 6], cf_backup_size = 1, cf_server_id = [1, 2], cf_worker_id = [3, 4], cf_master_id = [0],
     cf_bound = 1 \<rparr>\<rparr>"

theorem agent_serves_session_witness:
  "\<exists>ag' outs. Agent_Start (\<lambda>_ _. 3) (\<lambda>_. 0)
        (example_session @ [Worker_signal 2 (ag_grad_memory example_agent) [], Master_heartbeat example_heartbeat]) example_agent =
      Some (Inr (True, ag', concat outs @ [(0, terminate_message 3), (0, heartbeat_answer 3 1 example_heartbeat)], [2])) \<and>
    session_sends example_agent 0 example_session outs \<and> ag_epoch_num ag' = 1 \<and>
    Agent_Start (\<lambda>_ _. 3) (\<lambda>_. 0) (example_session @ [Master_heartbeat example_reconfig,
        Worker_signal 0 (ag_grad_memory example_agent) [], Master_heartbeat example_heartbeat]) example_agent =
      Some (Inl OutOfBounds)"
proof -
  have fields: "ag_local_id example_agent = 3" "ag_reconfig_msg example_agent = None" "ag_epoch_num example_agent = 0"
    by (simp_all add: example_agent_def)
  have counts: "pulls example_session = 1" "pushes example_session = 1" "length example_session = 3"
    by (simp_all add: example_session_def pulls_def pushes_def)
  have hyps: "0 \<le> ag_epoch_num example_agent" "in_i32 (ag_epoch_num example_agent + int (length example_session))"
    "(2::int) \<noteq> 0" "(2::int) \<noteq> 1"
    by (simp_all add: fields counts in_i32_iff)
  have "\<exists>cfg. config_msg example_reconfig = Some cfg \<and> delivered_config cfg"
    by (simp add: example_reconfig_def delivered_config_def in_i32_iff)
  with agent_serves_session [OF example_agent_wf(1) fields(2) hyps(1,2) example_session_ok hyps(3,4), of "\<lambda>_ _. 3" "\<lambda>_. 0"
      "ag_grad_memory example_agent" "[]" "[Master_heartbeat example_heartbeat]", unfolded fields counts]
  show ?thesis by auto
qed

end
