(* ===== verification/Programs.thy ===== *)
theory Programs
  imports Cluster Agent_Work
begin

text \<open>
  The three programs (\<open>src/master/master_main.cc\<close>, \<open>src/server/server_main.cc\<close>,
  \<open>src/agent/agent_main.cc\<close>) as compositions of the modelled member functions: the main thread with
  the turns of the threads that the program starts, in any order, and the way the process ends. The
  flags are arguments; the result has the end of the process, or none while it still waits for
  messages. Turns of different threads do not overlap; what can happen to the ring of a sender when
  they do is the subject of \<open>Fifo_Ring\<close>. The signal handlers are not modelled: a fault stays a fault.
\<close>

section \<open>The programs\<close>

text \<open>The conversion of an \<open>int32\<close> flag to the \<open>int16\<close> of a listening port.\<close>

definition to_int16 :: "int \<Rightarrow> int" where
  "to_int16 n = (n + 2 ^ 15) mod 2 ^ 16 - 2 ^ 15"

text \<open>How a process ends: with an exit code, or by \<open>std::terminate\<close>.\<close>

datatype process_end = Exit int | Aborted

text \<open>
  What happens to the master: a message arrives, with the random numbers that would be drawn and the
  time; a turn of \<open>DeliverHeartbeatLoop\<close>; or a turn of \<open>DetectDeadNode\<close>, with the time.
\<close>

datatype 'v master_event =
    Main_message "int \<Rightarrow> int" int "'v Message"
  | Heartbeat_round
  | Detection int

text \<open>The registration that completes the cluster starts both threads.\<close>

definition starts_threads :: "'v Message \<Rightarrow> master \<Rightarrow> bool" where
  "starts_threads msg ms \<longleftrightarrow> message_type msg = Message_MessageType_register \<and>
     (case ProcessRegisterMsg msg ms of Inr ms1 \<Rightarrow> Ready (ms_config ms1) | Inl _ \<Rightarrow> False)"

text \<open>
  The process of the lead master; \<open>threads\<close> tells whether the threads run. They are held by
  \<open>std::thread\<close> objects that nobody joins or detaches. So a second start, which assigns to
  \<open>heartbeat_\<close>, ends the process by \<open>std::terminate\<close>, and so does the return of \<open>main\<close> after a start:
  it destroys the static \<open>Master\<close> with its two threads.
\<close>

fun master_process ::
    "int \<Rightarrow> int \<Rightarrow> bool \<Rightarrow> 'v master_event list \<Rightarrow> master \<Rightarrow> (process_end option \<times> master \<times> 'v outgoing) res" where
  "master_process max_cluster_node heartbeat_timeout threads [] ms = Inr (None, ms, [])"
| "master_process max_cluster_node heartbeat_timeout threads (Main_message draw cur_time msg # es) ms =
     bind_res (MainLoop_turn max_cluster_node draw cur_time msg ms) (\<lambda>(terminated, ms1, out).
       if threads \<and> starts_threads msg ms then Inr (Some Aborted, ms1, out)
       else if terminated then Inr (Some (if threads then Aborted else Exit 0), ms1, out)
       else bind_res (master_process max_cluster_node heartbeat_timeout (threads \<or> starts_threads msg ms) es ms1)
         (\<lambda>(e, ms2, out2). Inr (e, ms2, out @ out2)))"
| "master_process max_cluster_node heartbeat_timeout threads (Heartbeat_round # es) ms =
     bind_res (if threads then DeliverHeartbeat max_cluster_node ms else Inr (ms, [])) (\<lambda>(ms1, out).
     bind_res (master_process max_cluster_node heartbeat_timeout threads es ms1)
       (\<lambda>(e, ms2, out2). Inr (e, ms2, out @ out2)))"
| "master_process max_cluster_node heartbeat_timeout threads (Detection now # es) ms =
     bind_res (if threads then DetectDeadNode_turn heartbeat_timeout now ms else Inr ms) (\<lambda>ms1.
       master_process max_cluster_node heartbeat_timeout threads es ms1)"

text \<open>A master that does not lead sleeps for ever.\<close>

definition master_main ::
    "int \<Rightarrow> int \<Rightarrow> int \<Rightarrow> int \<Rightarrow> int \<Rightarrow> int \<Rightarrow> int \<Rightarrow> string \<Rightarrow> zmq_communicator \<Rightarrow>
     'v master_event list \<Rightarrow> (process_end option \<times> master \<times> 'v outgoing) res" where
  "master_main max_cluster_node heartbeat_timeout wn sn kr bnd bsize master_ip_port c es =
     bind_res (Master_Initialize master_ip_port (Master_new wn sn kr bnd bsize c)) (\<lambda>(_, ms).
       if ms_is_lead ms then master_process max_cluster_node heartbeat_timeout False es ms
       else Inr (None, ms, []))"

text \<open>
  What arrives at a server: a message for the loop of \<open>Start\<close>, or a live check for the thread that runs
  \<open>HeartBeat\<close>, which keeps no state and answers with the identifier that it read when it started.
\<close>

datatype 'v server_event = Server_message "'v Message" | Live_check "'v Message"

fun server_loop ::
    "'v fops \<Rightarrow> (socket \<Rightarrow> int) \<Rightarrow> 'v server \<Rightarrow> 'v server_event list \<Rightarrow> 'v server \<Rightarrow> ('v server \<times> 'v outgoing) res" where
  "server_loop F zmq_close st0 [] st = Inr (st, [])"
| "server_loop F zmq_close st0 (Server_message msg # es) st =
     bind_res (Start_turn F zmq_close msg st) (\<lambda>(st1, out).
     bind_res (server_loop F zmq_close st0 es st1) (\<lambda>(st2, out2). Inr (st2, out @ out2)))"
| "server_loop F zmq_close st0 (Live_check msg # es) st =
     bind_res (server_loop F zmq_close st0 es st) (\<lambda>(st2, out2). Inr (st2, Server_HeartBeat_turn msg st0 @ out2))"

text \<open>\<open>Server::Start\<close>: the loop never ends.\<close>

definition Server_Start ::
    "'v fops \<Rightarrow> (socket \<Rightarrow> int) \<Rightarrow> 'v server_event list \<Rightarrow> 'v server \<Rightarrow> ('v server \<times> 'v outgoing) res" where
  "Server_Start F zmq_close es st = server_loop F zmq_close st es st"

definition server_main ::
    "'v fops \<Rightarrow> (socket \<Rightarrow> int) \<Rightarrow> string \<Rightarrow> int \<Rightarrow> string \<Rightarrow> 'v Message option \<Rightarrow> 'v server_event list \<Rightarrow>
     'v server \<Rightarrow> (process_end option \<times> 'v server \<times> 'v outgoing) res" where
  "server_main F zmq_close ip server_port master_ip_port received es server =
     bind_res (Server_Initialize F ip server_port master_ip_port received server) (\<lambda>(ok, st, out).
       if \<not> ok then Inr (Some (Exit 1), st, out)
       else bind_res (Server_Start F zmq_close es st) (\<lambda>(st1, out1). Inr (None, st1, out @ out1)))"

text \<open>
  The result of \<open>Initialize\<close> is not looked at. The agent is never deleted, and its heartbeat thread is a
  plain POSIX thread, so the process ends with the exit code.
\<close>

definition agent_main ::
    "string \<Rightarrow> 'v \<Rightarrow> (string \<rightharpoonup> 'v shmstruct) \<Rightarrow> 'v Message option \<Rightarrow> string \<Rightarrow> int \<Rightarrow>
     (string \<Rightarrow> bool \<Rightarrow> int) \<Rightarrow> (socket \<Rightarrow> int) \<Rightarrow>
     'v agent_event list \<Rightarrow> 'v agent \<Rightarrow>
     (process_end option \<times> 'v agent \<times> 'v outgoing \<times> int list) res option" where
  "agent_main ip zero objects received master_ip_port listen_port os_open zmq_close es agent =
     (case Agent_Initialize ip zero objects received ''/tmp/test_fifo_sample1'' ''/tmp/test_fifo_sample2''
         ''/test_sharedMemory_sample1'' ''/test_sharedMemory_sample2'' master_ip_port (to_int16 listen_port) agent of
        Inl f \<Rightarrow> Some (Inl f)
      | Inr (_, ag, out) \<Rightarrow>
          Option.bind (Agent_Start os_open zmq_close es ag) (\<lambda>r.
            Some (bind_res r (\<lambda>(ended, ag1, out1, sigs).
              Inr (if ended then Some (Exit 0) else None, if ended then Agent_Finalize ag1 else ag1, out @ out1, sigs)))))"

section \<open>The defaults of the flags\<close>

record task_flags =
  FLAGS_worker_num :: int
  FLAGS_server_num :: int
  FLAGS_key_range :: int
  FLAGS_bound :: int
  FLAGS_backup_size :: int

definition default_task_flags :: task_flags where
  "default_task_flags = \<lparr> FLAGS_worker_num = 1, FLAGS_server_num = 1, FLAGS_key_range = 0, FLAGS_bound = 0,
     FLAGS_backup_size = 0 \<rparr>"

text \<open>With the default of \<open>key_range\<close> the server that is configured divides by zero.\<close>

lemma default_flags_fault:
  assumes "config_msg m = Some (cluster_config (FLAGS_worker_num default_task_flags) (FLAGS_server_num default_task_flags)
      (FLAGS_key_range default_task_flags) (FLAGS_bound default_task_flags) (FLAGS_backup_size default_task_flags) [p] nodes)"
    and "ids_with Server_role nodes = [recv_id m]" "ip \<noteq> []"
  shows "Server_Initialize F ip port addr (Some m) st = Inl DivisionByZero"
proof -
  have rem: "i32_rem 1 1 = Inr 0" "i32_rem x 0 = Inl DivisionByZero" for x by (code_simp, simp add: i32_rem_def)
  show ?thesis
    using assms(2,3)
    by (simp add: Server_Initialize_def configure_def assms(1) cluster_config_def default_task_flags_def Let_def
      add_server_init_def add_server_def range_length_def rem i32_def in_i32_iff)
qed

section \<open>Ports\<close>

lemma to_int16_port: "0 \<le> n \<Longrightarrow> n < 65536 \<Longrightarrow> to_int16 n = (if n < 32768 then n else n - 65536)"
proof (cases "n < 32768")
  case False
  then show "n < 65536 \<Longrightarrow> ?thesis"
    using mod_add_self2 [of "n - 32768" 65536] by (simp add: to_int16_def add.commute)
qed (simp add: to_int16_def)

section \<open>The server program\<close>

text \<open>The messages for the main thread.\<close>

fun server_messages :: "'v server_event list \<Rightarrow> 'v Message list" where
  "server_messages [] = []"
| "server_messages (Server_message msg # es) = msg # server_messages es"
| "server_messages (Live_check msg # es) = server_messages es"

lemma server_loop_turns:
  "bind_res (server_loop F zc st0 es st) (\<lambda>(st', _). Inr st') = serve_turns F zc (server_messages es) st"
proof (induction F zc st0 es st rule: server_loop.induct)
  case (2 F zc st0 msg es st)
  have "serve_turns F zc (server_messages (Server_message msg # es)) st =
      bind_res (Start_turn F zc msg st) (\<lambda>(st1, _). serve_turns F zc (server_messages es) st1)"
    by (auto simp: serve_turns_def bind_res_def split: sum.split)
  then show ?case
    unfolding 2 [symmetric] by (auto simp: bind_res_def split: sum.split)
next
  case (3 F zc st0 msg es st)
  show ?case unfolding server_messages.simps 3 [symmetric] by (auto simp: bind_res_def split: sum.split)
qed (simp add: serve_turns_def)

text \<open>A server without an address or without a configuration message ends with exit code 1.\<close>

lemma server_main_fails:
  "ip = [] \<or> received = None \<Longrightarrow>
   \<exists>st out. server_main F zc ip port addr received es server = Inr (Some (Exit 1), st, out) \<and> length out \<le> 1"
  by (auto simp: server_main_def Server_Initialize_def Let_def)

lemma server_main_serves:
  assumes "fresh_server st" "config_msg m = Some cfg" "wf_config cfg"
    and "idx < length (cf_server_id cfg)" "recv_id m = cf_server_id cfg ! idx" "ip \<noteq> []"
    and "\<And>st1. configured F cfg idx st1 \<Longrightarrow> \<forall>msg\<in>set (server_messages es). admissible st1 msg"
    and "in_i32 (int (length (server_messages es)))"
  shows "\<exists>st' out. server_main F zc ip port addr (Some m) es st = Inr (None, st', out) \<and> server_rep F st'"
proof -
  from Server_Initialize_configured [OF assms(1-6), of F port addr] obtain st1 out1 where
    init: "Server_Initialize F ip port addr (Some m) st = Inr (True, st1, out1)" "configured F cfg idx st1"
    by (auto simp: returns_iff)
  then have inv: "server_inv st1" "bottom_version st1 = 0" by (simp_all add: configured_def)
  with assms(8) have "in_i32 (bottom_version st1 + int (length (server_messages es)))" by simp
  from serve_turns_refine [OF inv(1) configured_rep [OF init(2)] assms(7) [OF init(2)] this, of zc]
  obtain st' where "serve_turns F zc (server_messages es) st1 = Inr st'" "server_rep F st'"
    by (auto simp: returns_iff server_rep_def)
  then show ?thesis using init(1) server_loop_turns [of F zc st1 es st1]
    by (cases "server_loop F zc st1 es st1") (auto simp: server_main_def Server_Start_def)
qed

section \<open>The agent program\<close>

lemma agent_main_serves:
  assumes "config_msg m = Some cfg" "ip \<noteq> []" and cfg: "agent_config cfg"
    and session: "\<And>ag1. agent_of cfg ag1 \<Longrightarrow> ag_local_id ag1 = recv_id m \<Longrightarrow> session_ok ag1 [] es"
    and new: "recv_id m \<notin> set (cf_server_id cfg)"
    and stop: "in_i32 (int (length es))" "stop \<noteq> 0" "stop \<noteq> 1"
  shows "\<exists>ag' out. agent_main ip zero objects (Some m) addr port os_open zc (es @ Worker_signal stop mem arrived # later) ag =
      Some (Inr (Some (Exit 0), ag', out @ (0, terminate_message (recv_id m)) #
        map (\<lambda>m'. (0, heartbeat_answer (recv_id m) (int (pushes es)) m')) (beats_of later), replicate (pulls es) 2))"
proof -
  from agent_config_starts [OF assms(1,2) cfg, of zero objects "''/tmp/test_fifo_sample1''"
      "''/tmp/test_fifo_sample2''" "''/test_sharedMemory_sample1''" "''/test_sharedMemory_sample2''" addr "to_int16 port" ag]
  obtain ag1 out1 where init: "Agent_Initialize ip zero objects (Some m) ''/tmp/test_fifo_sample1'' ''/tmp/test_fifo_sample2''
      ''/test_sharedMemory_sample1'' ''/test_sharedMemory_sample2'' addr (to_int16 port) ag = Inr (True, ag1, out1)"
    and ag1: "wf_agent ag1" "ag_local_id ag1 = recv_id m" "ag_server_ids ag1 = cf_server_id cfg"
      "part_vec (ag_partition ag1) = cf_partition cfg" "part_key_range (ag_partition ag1) = cf_key_range cfg"
      "ag_reconfig_msg ag1 = None" "ag_epoch_num ag1 = 0"
    by blast
  have "agent_of cfg ag1" using ag1 new by (simp add: agent_of_def)
  then have "session_ok ag1 [] es" using session ag1(2) by blast
  then obtain ag' outs where "Agent_Start os_open zc (es @ Worker_signal stop mem arrived # later) ag1 =
      Some (Inr (True, ag', concat outs @ (0, terminate_message (recv_id m)) #
        map (\<lambda>m'. (0, heartbeat_answer (recv_id m) (int (pushes es)) m')) (beats_of later), replicate (pulls es) 2))"
    using session_serves(1) [of ag1 es stop os_open zc mem arrived later] ag1 stop by auto
  with init show ?thesis by (auto simp: agent_main_def)
qed

section \<open>The master program\<close>

text \<open>What one part of a run sends, before what the rest of it does.\<close>

definition after_sending ::
    "'v outgoing \<Rightarrow> (process_end option \<times> master \<times> 'v outgoing) res \<Rightarrow> (process_end option \<times> master \<times> 'v outgoing) res"
  where "after_sending out r = bind_res r (\<lambda>(e, ms, out2). Inr (e, ms, out @ out2))"

lemma after_sending_simps [simp]:
  "after_sending out (Inr (e, ms, out2)) = Inr (e, ms, out @ out2)" "after_sending [] r = r"
  "after_sending out (after_sending out2 r) = after_sending (out @ out2) r"
proof -
  show "after_sending [] r = r" "after_sending out (after_sending out2 r) = after_sending (out @ out2) r"
    by (auto simp: after_sending_def bind_res_def split: sum.split)
qed (simp add: after_sending_def)

lemma Master_Initialize_lead:
  assumes "Master_Initialize s ms = Inr (n, ms')"
  shows "ms_is_lead ms' = ms_is_lead ms"
proof -
  let ?f = "\<lambda>ip_port (count, ms). if ip_port = [] then Inr (count, ms)
      else bind_res (AppendMaster ip_port (ms_config ms)) (\<lambda>tc.
        bind_res (i32 (count + 1)) (\<lambda>n. Inr (n, ms\<lparr>ms_config := tc\<rparr>)))"
  have "fold_res ?f xs (k, ms) = Inr (n, ms') \<Longrightarrow> ms_is_lead ms' = ms_is_lead ms" for xs k ms
  proof (induction xs arbitrary: k ms)
    case (Cons x xs)
    show ?case
    proof (cases "x = []")
      case False
      with Cons.prems obtain tc k' where "fold_res ?f xs (k', ms\<lparr>ms_config := tc\<rparr>) = Inr (n, ms')"
        by (auto simp: bind_res_def split: sum.splits)
      from Cons.IH [OF this] show ?thesis by simp
    qed (use Cons in simp)
  qed simp
  then show ?thesis using assms by (simp add: Master_Initialize_def)
qed

text \<open>The nodes registered, and the number of them at which the cluster is ready.\<close>

definition node_count :: "task_config \<Rightarrow> nat" where
  "node_count tc = length (tc_server_id tc) + length (tc_agent_id tc)"

definition node_total :: "task_config \<Rightarrow> int" where
  "node_total tc = size_t_of_int (tc_server_num tc) + size_t_of_int (tc_worker_num tc)"

lemma Ready_count: "Ready tc \<Longrightarrow> int (node_count tc) = node_total tc"
  by (simp add: Ready_def node_count_def node_total_def)

lemma register_turn:
  assumes "MainLoop_turn mcn d t m ms = Inr (b, ms1, out)" "message_type m = Message_MessageType_register"
  shows "\<not> b" "node_count (ms_config ms1) = Suc (node_count (ms_config ms))"
    "node_total (ms_config ms1) = node_total (ms_config ms)" "starts_threads m ms = Ready (ms_config ms1)"
proof -
  from assms obtain ms0 where reg: "ProcessRegisterMsg m ms = Inr ms0"
    by (cases "ProcessRegisterMsg m ms") (auto simp: MainLoop_turn_def)
  have tc: "node_count (ms_config ms0) = Suc (node_count (ms_config ms))"
    "node_total (ms_config ms0) = node_total (ms_config ms)"
    using reg by (auto simp: ProcessRegisterMsg_def Let_def AppendServer_def AppendAgent_def bind_res_def
      node_count_def node_total_def split: sum.splits if_splits)
  have "\<not> b \<and> (ms_config ms1 = ms_config ms0 \<or> ms_config ms1 = GeneratePartition d (ms_config ms0))"
    using assms reg by (auto simp: MainLoop_turn_def start_cluster_def Let_def bind_res_def split: sum.splits if_splits)
  moreover have "node_count (GeneratePartition d c) = node_count c" "node_total (GeneratePartition d c) = node_total c"
      "Ready (GeneratePartition d c) = Ready c" for c
    by (simp_all add: GeneratePartition_def Let_def node_count_def node_total_def Ready_def)
  ultimately show "\<not> b" "node_count (ms_config ms1) = Suc (node_count (ms_config ms))"
    "node_total (ms_config ms1) = node_total (ms_config ms)" "starts_threads m ms = Ready (ms_config ms1)"
    using tc reg assms(2) by (auto simp: starts_threads_def)
qed

text \<open>The events of the main thread alone, and its messages among all events.\<close>

definition main_events :: "((int \<Rightarrow> int) \<times> int \<times> 'v Message) list \<Rightarrow> 'v master_event list" where
  "main_events es = map (\<lambda>(draw, t, m). Main_message draw t m) es"

fun main_messages :: "'v master_event list \<Rightarrow> ((int \<Rightarrow> int) \<times> int \<times> 'v Message) list" where
  "main_messages [] = []"
| "main_messages (Main_message draw t m # es) = (draw, t, m) # main_messages es"
| "main_messages (Heartbeat_round # es) = main_messages es"
| "main_messages (Detection now # es) = main_messages es"

lemma register_loop:
  assumes "lead_loop mcn es ms = Inr (False, ms1, out)"
    and "\<forall>e\<in>set es. message_type (snd (snd e)) = Message_MessageType_register"
  shows "node_count (ms_config ms1) = node_count (ms_config ms) + length es \<and>
    node_total (ms_config ms1) = node_total (ms_config ms)"
  using assms
proof (induction es arbitrary: ms out)
  case (Cons e es)
  obtain d t m where e: "e = (d, t, m)" by (cases e)
  from Cons.prems(1) obtain ms2 out1 out2 where
    "MainLoop_turn mcn d t m ms = Inr (False, ms2, out1)" "lead_loop mcn es ms2 = Inr (False, ms1, out2)"
    by (auto simp: e bind_res_def split: sum.splits if_splits)
  with Cons.IH [of ms2 out2] register_turn(2,3) [of mcn d t m ms False ms2 out1] Cons.prems(2) show ?case by (simp add: e)
qed simp

text \<open>The threads start with the last registration and not before.\<close>

lemma register_process:
  assumes "lead_loop mcn es ms = Inr (False, ms1, out)" "es \<noteq> []" "Ready (ms_config ms1)"
    and "\<forall>e\<in>set es. message_type (snd (snd e)) = Message_MessageType_register"
  shows "master_process mcn timeout False (main_events es @ tail) ms =
    after_sending out (master_process mcn timeout True tail ms1)"
  using assms
proof (induction es arbitrary: ms out)
  case (Cons e es)
  obtain d t m where e: "e = (d, t, m)" by (cases e)
  from Cons.prems(1) obtain ms2 out1 out2 where
    turn: "MainLoop_turn mcn d t m ms = Inr (False, ms2, out1)" and rest: "lead_loop mcn es ms2 = Inr (False, ms1, out2)"
    and out: "out = out1 @ out2"
    by (auto simp: e bind_res_def split: sum.splits if_splits)
  have type: "message_type m = Message_MessageType_register" using Cons.prems(4) by (simp add: e)
  note starts = register_turn(4) [OF turn type]
  have step: "master_process mcn timeout False (main_events (e # es) @ tail) ms =
      after_sending out1 (master_process mcn timeout (Ready (ms_config ms2)) (main_events es @ tail) ms2)"
    using turn starts by (simp add: e main_events_def after_sending_def)
  show ?case
  proof (cases "es = []")
    case True
    then show ?thesis using step rest out Cons.prems(3) by (simp add: main_events_def)
  next
    case False
    have "int (node_count (ms_config ms1)) = node_total (ms_config ms1)" using Cons.prems(3) by (rule Ready_count)
    moreover have "node_count (ms_config ms1) = node_count (ms_config ms2) + length es \<and>
        node_total (ms_config ms1) = node_total (ms_config ms2)"
      using register_loop [OF rest] Cons.prems(4) by simp
    ultimately have "\<not> Ready (ms_config ms2)" using Ready_count [of "ms_config ms2"] False by auto
    then show ?thesis using step out Cons.IH [OF rest False Cons.prems(3)] Cons.prems(4) by simp
  qed
qed simp

text \<open>
  Events after the start in which every detection finds all nodes heard from within the timeout;
  \<open>heard\<close> gives the time of the last contact with each node.
\<close>

fun attended :: "int \<Rightarrow> (role \<times> string) list \<Rightarrow> (int \<Rightarrow> int) \<Rightarrow> 'v master_event list \<Rightarrow> bool" where
  "attended timeout nodes heard [] = True"
| "attended timeout nodes heard (Main_message draw t m # es) = (node_message nodes m \<and>
     attended timeout nodes
       (if message_type m = Message_MessageType_heartbeat then heard(send_id m := t) else heard) es)"
| "attended timeout nodes heard (Heartbeat_round # es) = attended timeout nodes heard es"
| "attended timeout nodes heard (Detection now # es) =
     ((\<forall>i\<in>{0..<int (length nodes)}. now \<le> heard i + timeout) \<and> attended timeout nodes heard es)"

text \<open>A heartbeat without a configuration, to the heartbeat port of an agent or to a server.\<close>

definition live_check :: "int \<Rightarrow> (role \<times> string) list \<Rightarrow> int \<times> 'v Message \<Rightarrow> bool" where
  "live_check mcn nodes x \<longleftrightarrow> (\<exists>i. snd x = heartbeat_to None i \<and>
     (i \<in> set (ids_with Agent_role nodes) \<and> fst x = i + mcn \<or> i \<in> set (ids_with Server_role nodes) \<and> fst x = i))"

lemma quiet_detection:
  assumes "running nodes ms" "\<forall>i\<in>{0..<int (length nodes)}. map_of (ms_alive_node ms) i = Some (heard i)"
    and "\<forall>i\<in>{0..<int (length nodes)}. now \<le> heard i + timeout"
  shows "DetectDeadNode_turn timeout now ms = Inr ms"
proof -
  have "GetDeadNode timeout now ms = []"
    using assms(2,3) by (auto simp: GetDeadNode_none [OF assms(1)] seen_since_def algebra_simps)
  then show ?thesis by (simp add: DetectDeadNode_turn_def)
qed

lemma master_process_running:
  fixes es :: "'v master_event list"
  assumes "running nodes ms" "\<not> tc_config_changed (ms_config ms)" "0 \<le> mcn" "in_i32 (int (length nodes) + mcn)"
    and "\<forall>i\<in>{0..<int (length nodes)}. map_of (ms_alive_node ms) i = Some (heard i)"
    and "attended timeout nodes heard es" "distinct (ms_terminated_node ms)"
    and "int (length (ms_terminated_node ms)) < tc_worker_num (ms_config ms)" "in_i32 (tc_worker_num (ms_config ms))"
  shows "\<exists>ms' out. master_process mcn timeout True es ms =
      Inr (if tc_worker_num (ms_config ms) \<le>
          int (card (set (ms_terminated_node ms) \<union> terminators (main_messages es))) then Some Aborted else None, ms', out) \<and>
    (\<forall>x\<in>set out. live_check mcn nodes x)"
  using assms
proof (induction es arbitrary: ms heard)
  case Nil
  then show ?case by (simp add: terminators_Nil distinct_card)
next
  case (Cons e es)
  show ?case
  proof (cases e)
    case (Main_message d t m)
    let ?ms = "turn_state t m ms" and ?W = "tc_worker_num (ms_config ms)"
    let ?T = "ms_terminated_node ?ms"
    let ?heard = "if message_type m = Message_MessageType_heartbeat then heard(send_id m := t) else heard"
    have m: "node_message nodes m" "attended timeout nodes ?heard es" using Cons.prems(6) by (simp_all add: Main_message)
    then have "\<not> starts_threads m ms" by (simp add: starts_threads_def node_message_def)
    note turn = MainLoop_turn_running [OF Cons.prems(1) m(1)]
    have W: "size_t_of_int ?W = ?W" using Cons.prems(8,9) by (simp add: size_t_of_int_nonneg)
    note T = terminated_turn(1) [of t m ms "main_messages es" d] terminated_turn(2,3) [of t m ms] terminated_turn(4) [of m t ms]
    have dist: "distinct ?T" using Cons.prems(7) T by simp
    show ?thesis
    proof (cases "message_type m = Message_MessageType_terminate \<and> int (length ?T) = ?W")
      case True
      have "card (set ?T) \<le> card (set ?T \<union> terminators (main_messages es))"
        by (intro card_mono) (auto simp: finite_terminators)
      then have "?W \<le> int (card (set (ms_terminated_node ms) \<union> terminators (main_messages (e # es))))"
        using True dist T(1) by (simp add: distinct_card Main_message)
      with True turn(1) [of mcn d t] W \<open>\<not> starts_threads m ms\<close> show ?thesis by (simp add: Main_message)
    next
      case False
      have "int (length ?T) < ?W"
        using False T(3,4) Cons.prems(8) by (cases "message_type m = Message_MessageType_terminate") auto
      moreover have "\<not> tc_config_changed (ms_config ?ms)"
        using Cons.prems(2) by (cases "message_type m") (simp_all add: turn_state_def)
      moreover have "\<forall>i\<in>{0..<int (length nodes)}. map_of (ms_alive_node ?ms) i = Some (?heard i)"
        using Cons.prems(5) by (cases "message_type m") (simp_all add: turn_state_def map_of_umap_set)
      ultimately obtain ms' out where "master_process mcn timeout True es ?ms =
          Inr (if ?W \<le> int (card (set ?T \<union> terminators (main_messages es))) then Some Aborted else None, ms', out)"
          "\<forall>x\<in>set out. live_check mcn nodes x"
        using Cons.IH [OF turn(2) [of t], of ?heard] Cons.prems(3,4,9) m(2) dist turn(3) [of t] by auto
      then show ?thesis
        using False turn(1) [of mcn d t] W T(1) \<open>\<not> starts_threads m ms\<close> by (auto simp: Main_message)
    qed
  next
    case Heartbeat_round
    let ?out = "map (\<lambda>i. (i + mcn, heartbeat_to None i)) (tc_agent_id (ms_config ms)) @
        map (\<lambda>i. (i, heartbeat_to None i)) (tc_server_id (ms_config ms)) :: 'v outgoing"
    have same: "ms\<lparr>ms_config := (ms_config ms)\<lparr>tc_config_changed := False\<rparr>\<rparr> = ms"
      using Cons.prems(2) by (cases ms, cases "ms_config ms") simp
    have deliver: "DeliverHeartbeat mcn ms = Inr (ms, ?out)"
      using DeliverHeartbeat_running(1) [OF Cons.prems(1,3,4), unfolded same] Cons.prems(2) by simp
    have live: "\<forall>x\<in>set ?out. live_check mcn nodes x" using Cons.prems(1) by (auto simp: live_check_def running_def)
    from Cons.IH [OF Cons.prems(1-5) _ Cons.prems(7-9)] Cons.prems(6) obtain ms' out where
      "master_process mcn timeout True es ms = Inr (if tc_worker_num (ms_config ms) \<le>
          int (card (set (ms_terminated_node ms) \<union> terminators (main_messages es))) then Some Aborted else None, ms', out)"
      "\<forall>x\<in>set out. live_check mcn nodes x"
      by (auto simp: Heartbeat_round)
    with deliver live show ?thesis by (intro exI [of _ ms'] exI [of _ "?out @ out"]) (auto simp: Heartbeat_round)
  next
    case (Detection now)
    then have "DetectDeadNode_turn timeout now ms = Inr ms"
      using Cons.prems(6) by (intro quiet_detection [OF Cons.prems(1,5)]) simp
    with Cons.IH [OF Cons.prems(1-5) _ Cons.prems(7-9)] Cons.prems(6) show ?thesis by (simp add: Detection)
  qed
qed

lemma cluster_nodes_length:
  "length (cluster_nodes masters es) \<le> length (getlines (CHR '','') masters) + length es"
  by (simp add: cluster_nodes_def)

lemma settings_changed: "settings tc = settings tc' \<Longrightarrow> tc_config_changed tc = tc_config_changed tc'"
  by (auto dest: settings_eqD)

text \<open>The master on a complete registration followed by what happens then.\<close>

lemma master_main_runs:
  fixes es :: "((int \<Rightarrow> int) \<times> int \<times> 'v Message) list"
  assumes run: "forming_run mcn wn sn masters es" and c: "id_to_addr c = Map.empty"
    and last: "last es = (draw, t, m)" and nodes: "nodes = cluster_nodes masters es"
    and flags: "wf_flags wn sn kr bnd bsize"
    and cfg: "cfg = cluster_config wn sn kr bnd bsize (drawn draw sn) nodes"
    and later: "attended timeout nodes (\<lambda>_. t) es'"
  shows "\<exists>ms beats. master_main mcn timeout wn sn kr bnd bsize masters c (main_events es @ es') =
    Inr (if wn \<le> int (card (terminators (main_messages es'))) then Some Aborted else None, ms,
      map (\<lambda>i. (i, config_to cfg i)) [0..int (length nodes) - 1] @ beats) \<and> (\<forall>x\<in>set beats. live_check mcn nodes x)"
proof -
  let ?tc = "(TaskConfig_Initialize wn sn kr bnd bsize new_task_config)\<lparr>tc_partition := drawn draw sn\<rparr>"
  from forming_run_starts [OF run c last, of kr bnd bsize] obtain n ms ms1 where
    init: "Master_Initialize masters (Master_new wn sn kr bnd bsize c) = Inr (n, ms)"
    and loop: "MainLoop mcn es ms = Inr (False, ms1, map (\<lambda>i. (i, config_to cfg i)) [0..int (length nodes) - 1])"
    and ms1: "cluster_state mcn nodes (drawn draw sn) t ms1" "ms_terminated_node ms1 = []" "ms_is_lead ms1"
      "settings (ms_config ms1) = settings ?tc"
    by (auto simp: nodes cfg)
  have tc: "tc_worker_num (ms_config ms1) = wn" "tc_server_num (ms_config ms1) = sn" "\<not> tc_config_changed (ms_config ms1)"
    using settings_eqD [OF ms1(4)] settings_changed [OF ms1(4)] by (simp_all add: TaskConfig_Initialize_def new_task_config_def)
  have r: "int (length nodes) \<le> mcn" "in_i32 (2 * mcn)" "role_count Server_role nodes = sn"
      "role_count Agent_role nodes = wn" "in_i32 sn" "in_i32 wn" "es \<noteq> []"
      "\<forall>e\<in>set es. message_type (snd (snd e)) = Message_MessageType_register"
    using run cluster_nodes_length [of masters es] by (auto simp: forming_run_def nodes)
  have wn: "1 \<le> wn" using flags by (simp add: wf_flags_def)
  have "ms_is_lead ms" using init by (simp add: Master_Initialize_lead [OF init] Master_new_def)
  with loop have lead: "lead_loop mcn es ms = Inr (False, ms1, map (\<lambda>i. (i, config_to cfg i)) [0..int (length nodes) - 1])"
    by (simp add: MainLoop_def)
  have "enrolled nodes (ms_config ms1)" using ms1(1) by (simp add: cluster_state_def)
  from Ready_enrolled [OF this] tc r role_count_nonneg [of Server_role nodes] wn have ready: "Ready (ms_config ms1)" by simp
  note start = register_process [OF lead r(7) ready r(8), of timeout es']
  have running: "running nodes ms1"
  proof -
    have "sorted (drawn draw sn)" "length (drawn draw sn) = length (ids_with Server_role nodes)"
      using r(3) by (auto simp: drawn_def role_count_def length_ids_with)
    with ms1(1) r(1,2) have "started mcn nodes ms1" by (auto simp: started_def in_i32_iff)
    then show ?thesis by (rule started_running)
  qed
  have num: "0 \<le> mcn" "in_i32 (int (length nodes) + mcn)" using r(1,2) by (auto simp: in_i32_iff)
  have "\<forall>i\<in>{0..<int (length nodes)}. map_of (ms_alive_node ms1) i = Some t"
    using ms1(1) by (simp add: cluster_state_def)
  from master_process_running [OF running tc(3) num this later] ms1(2) tc(1) wn r(6) obtain ms2 beats where
    "master_process mcn timeout True es' ms1 =
      Inr (if wn \<le> int (card (terminators (main_messages es'))) then Some Aborted else None, ms2, beats)"
    "\<forall>x\<in>set beats. live_check mcn nodes x"
    by auto
  then show ?thesis using init start \<open>ms_is_lead ms\<close> by (simp add: master_main_def)
qed

section \<open>The programs together\<close>

text \<open>
  C6: the programs do their work, and the master aborts at the end. When the expected nodes have
  registered, the master sends each its configuration. A server program started with that message
  serves any sequence of admissible messages and of live checks, and goes on waiting; an agent program
  started with its message serves any session of its worker that the servers answer, heartbeats
  without a configuration included, sends the termination notice to the master, and ends with exit
  code 0. As long as every detection finds all nodes heard from within the timeout, the heartbeats of
  the master carry no configuration; and when the notices of all agents have arrived, its main loop
  ends, but not with the exit code 0 of its \<open>return\<close>: the destruction of the two threads, which
  nobody has joined, aborts the process.
\<close>

theorem programs_run:
  fixes F :: "'v fops" and es :: "((int \<Rightarrow> int) \<times> int \<times> 'v Message) list"
  assumes run: "forming_run mcn wn sn masters es" and c: "id_to_addr c = Map.empty"
    and last: "last es = (draw, t, m)" and nodes: "nodes = cluster_nodes masters es"
    and flags: "wf_flags wn sn kr bnd bsize"
    and draws: "\<forall>i. 0 \<le> i \<and> i < sn \<longrightarrow> 1 \<le> draw i \<and> draw i \<le> kr - 2"
    and cfg: "cfg = cluster_config wn sn kr bnd bsize (drawn draw sn) nodes"
    and later: "attended timeout nodes (\<lambda>_. t) es'"
    and notices: "\<forall>i\<in>set (ids_with Agent_role nodes). terminate_message i \<in> snd ` snd ` set (main_messages es')"
  shows "\<exists>ms configs beats. master_main mcn timeout wn sn kr bnd bsize masters c (main_events es @ es') =
      Inr (Some Aborted, ms, configs @ beats) \<and>
    map fst configs = [0..int (length nodes) - 1] \<and> (\<forall>x\<in>set beats. live_check mcn nodes x) \<and>
    (\<forall>(i, msg)\<in>set configs.
      (\<forall>idx<length (ids_with Server_role nodes). ids_with Server_role nodes ! idx = i \<longrightarrow>
        (\<forall>st zc ip port addr msgs. fresh_server st \<and> ip \<noteq> [] \<and> in_i32 (int (length (server_messages msgs))) \<and>
            (\<forall>st1. configured F cfg idx st1 \<longrightarrow> (\<forall>m\<in>set (server_messages msgs). admissible st1 m)) \<longrightarrow>
          (\<exists>st' replies. server_main F zc ip port addr (Some msg) msgs st = Inr (None, st', replies)))) \<and>
      (i \<in> set (ids_with Agent_role nodes) \<longrightarrow>
        (\<forall>ip zero objects addr port os_open zc session stop mem arrived rest ag.
            ip \<noteq> [] \<and> in_i32 (int (length session)) \<and> stop \<noteq> 0 \<and> stop \<noteq> 1 \<and>
            (\<forall>ag1. agent_of cfg ag1 \<and> ag_local_id ag1 = i \<longrightarrow> session_ok ag1 [] session) \<longrightarrow>
          (\<exists>ag' sends. agent_main ip zero objects (Some msg) addr port os_open zc
              (session @ Worker_signal stop mem arrived # rest) ag =
             Some (Inr (Some (Exit 0), ag', sends @ (0, terminate_message i) #
               map (\<lambda>m. (0, heartbeat_answer i (int (pushes session)) m)) (beats_of rest), replicate (pulls session) 2))))))"
proof -
  have r: "role_count Server_role nodes = sn" "role_count Agent_role nodes = wn" "in_i32 sn" "in_i32 wn"
    using run by (simp_all add: forming_run_def nodes)
  have wf: "wf_config cfg" unfolding cfg by (rule cluster_config_wf [OF r(1,2,4) flags draws])
  have agents: "agent_config cfg" unfolding cfg by (rule cluster_agent_config [OF r(1,2,3) flags draws])
  have sel: "cf_server_id cfg = ids_with Server_role nodes" by (simp add: cfg cluster_config_def)
  have len: "int (length (ids_with Agent_role nodes)) = wn"
    using r(2) by (auto simp: role_count_def length_ids_with)
  have "i \<in> terminators (main_messages es')" if "i \<in> set (ids_with Agent_role nodes)" for i
    using bspec [OF notices that] by (force simp: terminators_def terminate_message_def)
  then have "card (set (ids_with Agent_role nodes)) \<le> card (terminators (main_messages es'))"
    by (intro card_mono finite_terminators) auto
  then have "wn \<le> int (card (terminators (main_messages es')))" using len by (simp add: distinct_card distinct_ids_with)
  with master_main_runs [OF run c last nodes flags cfg later] obtain ms beats where
    master: "master_main mcn timeout wn sn kr bnd bsize masters c (main_events es @ es') =
      Inr (Some Aborted, ms, map (\<lambda>i. (i, config_to cfg i)) [0..int (length nodes) - 1] @ beats)"
    and live: "\<forall>x\<in>set beats. live_check mcn nodes x"
    by auto
  have server: "\<exists>st' replies. server_main F zc ip port addr (Some (config_to cfg i)) msgs st = Inr (None, st', replies)"
    if "idx < length (ids_with Server_role nodes)" "ids_with Server_role nodes ! idx = i" "fresh_server st" "ip \<noteq> []"
      "in_i32 (int (length (server_messages msgs)))"
      "\<forall>st1. configured F cfg idx st1 \<longrightarrow> (\<forall>m\<in>set (server_messages msgs). admissible st1 m)"
    for idx i st zc ip port addr msgs
    using server_main_serves [OF that(3) _ wf _ _ that(4), of "config_to cfg i" idx F msgs zc port addr] that
    by (auto simp: sel config_to_def)
  have agent: "\<exists>ag' sends. agent_main ip zero objects (Some (config_to cfg i)) addr port os_open zc
        (session @ Worker_signal stop mem arrived # rest) ag =
      Some (Inr (Some (Exit 0), ag', sends @ (0, terminate_message i) #
        map (\<lambda>m. (0, heartbeat_answer i (int (pushes session)) m)) (beats_of rest), replicate (pulls session) 2))"
    if "i \<in> set (ids_with Agent_role nodes)" "ip \<noteq> []" "in_i32 (int (length session))" "stop \<noteq> 0" "stop \<noteq> 1"
      "\<forall>ag1. agent_of cfg ag1 \<and> ag_local_id ag1 = i \<longrightarrow> session_ok ag1 [] session"
    for i ip zero objects addr port os_open zc stop mem arrived session rest and ag :: "'v agent"
  proof -
    have "i \<notin> set (ids_with Server_role nodes)" using that(1) by (auto simp: set_ids_with)
    then show ?thesis
      using agent_main_serves [OF _ that(2) agents _ _ that(3-5), of "config_to cfg i" zero objects addr port os_open zc
        mem arrived rest ag] that(6)
      by (auto simp: sel config_to_def)
  qed
  show ?thesis
    by (intro exI conjI, rule master) (use server agent live in \<open>auto simp: comp_def\<close>)
qed

theorem programs_run_witness:
  "\<exists>ms configs beats. master_main 10000 30 2 2 10 1 1 ''10.0.0.9:16666'' (example_comm\<lparr>id_to_addr := Map.empty\<rparr>)
      (main_events example_events @ [Heartbeat_round, Main_message (\<lambda>_. 0) 110 (terminate_message 4), Detection 113,
        Main_message (\<lambda>_. 0) 114 (terminate_message 3)]) = Inr (Some Aborted, ms, configs @ beats) \<and>
    map fst configs = [0, 1, 2, 3, 4] \<and> (\<forall>x\<in>set beats. live_check 10000 example_nodes x) \<and>
    (\<forall>(i, msg)\<in>set configs.
      (i = 1 \<longrightarrow> (\<exists>st' replies. server_main int_ops (\<lambda>_. 0) ''10.0.0.1'' 8888 ''10.0.0.9:16666'' (Some msg)
          [Live_check example_heartbeat] example_fresh = Inr (None, st', replies))) \<and>
      (i = 3 \<longrightarrow> (\<exists>ag' sends. agent_main ''10.0.0.3'' 0 Map.empty (Some msg) ''10.0.0.9:16666'' 5555 (\<lambda>_ _. 3) (\<lambda>_. 0)
          ([Master_heartbeat example_heartbeat] @ Worker_signal 2 example_pull_memory [] # [Master_heartbeat example_heartbeat])
          example_agent =
        Some (Inr (Some (Exit 0), ag', sends @ [(0, terminate_message 3), (0, heartbeat_answer 3 0 example_heartbeat)], [])))))"
proof -
  have l: "last example_events = (\<lambda>i. 6 - 4 * i, 103, example_register False ''10.0.0.4'' 5555)"
    by (simp add: example_events_def)
  have c: "id_to_addr (example_comm\<lparr>id_to_addr := Map.empty\<rparr>) = Map.empty" by simp
  have flags: "wf_flags 2 2 10 1 1" by (simp add: wf_flags_def in_i32_iff)
  have draws: "\<forall>i. 0 \<le> i \<and> i < 2 \<longrightarrow> 1 \<le> 6 - 4 * i \<and> 6 - 4 * i \<le> 10 - (2 :: int)" by auto
  have ids: "ids_with Server_role example_nodes = [1, 2]" "ids_with Agent_role example_nodes = [3, 4]"
      "length example_nodes = 5"
    by (simp_all add: ids_with_def example_nodes_def upt_rec)
  have "[0..4::int] = [0, 1, 2, 3, 4]" by code_simp
  then have up: "[0..int (length example_nodes) - 1] = [0, 1, 2, 3, 4]" by (simp add: example_nodes_def)
  let ?es = "[Heartbeat_round, Main_message (\<lambda>_. 0) 110 (terminate_message 4 :: int Message), Detection 113,
      Main_message (\<lambda>_. 0) 114 (terminate_message 3)]"
  have later: "attended 30 example_nodes (\<lambda>_. 103) ?es"
    using ids(3) by (simp add: node_message_def terminate_message_def)
  have notices: "\<forall>i\<in>set (ids_with Agent_role example_nodes). terminate_message i \<in> snd ` snd ` set (main_messages ?es)"
    by (simp add: ids)
  have fresh: "fresh_server example_fresh" by (simp add: fresh_server_def example_fresh_def)
  have quiet: "session_ok ag [] [Master_heartbeat example_heartbeat]" for ag
    by (simp add: example_heartbeat_def new_Message_def)
  from programs_run [OF example_forming c l example_cluster_nodes [symmetric] flags draws refl later notices,
      of int_ops, unfolded up ids(1,2)]
  obtain ms configs beats where main: "master_main 10000 30 2 2 10 1 1 ''10.0.0.9:16666'' (example_comm\<lparr>id_to_addr := Map.empty\<rparr>)
      (main_events example_events @ ?es) = Inr (Some Aborted, ms, configs @ beats)" "map fst configs = [0, 1, 2, 3, 4]"
      "\<forall>x\<in>set beats. live_check 10000 example_nodes x"
    and nodes: "\<forall>(i, msg)\<in>set configs.
      (\<forall>idx<length [1 :: int, 2]. [1, 2] ! idx = i \<longrightarrow>
        (\<forall>st zc ip port addr msgs. fresh_server st \<and> ip \<noteq> [] \<and> in_i32 (int (length (server_messages msgs))) \<and>
            (\<forall>st1. configured int_ops (cluster_config 2 2 10 1 1 (drawn (\<lambda>i. 6 - 4 * i) 2) example_nodes) idx st1 \<longrightarrow>
              (\<forall>m\<in>set (server_messages msgs). admissible st1 m)) \<longrightarrow>
          (\<exists>st' replies. server_main int_ops zc ip port addr (Some msg) msgs st = Inr (None, st', replies)))) \<and>
      (i \<in> set [3, 4] \<longrightarrow>
        (\<forall>ip zero objects addr port os_open zc session stop mem arrived rest ag.
            ip \<noteq> [] \<and> in_i32 (int (length session)) \<and> stop \<noteq> 0 \<and> stop \<noteq> 1 \<and>
            (\<forall>ag1. agent_of (cluster_config 2 2 10 1 1 (drawn (\<lambda>i. 6 - 4 * i) 2) example_nodes) ag1 \<and> ag_local_id ag1 = i \<longrightarrow>
              session_ok ag1 [] session) \<longrightarrow>
          (\<exists>ag' sends. agent_main ip zero objects (Some msg) addr port os_open zc
              (session @ Worker_signal stop mem arrived # rest) ag =
             Some (Inr (Some (Exit 0), ag', sends @ (0, terminate_message i) #
               map (\<lambda>m. (0, heartbeat_answer i (int (pushes session)) m)) (beats_of rest), replicate (pulls session) 2)))))"
    by (elim exE conjE) (rule that, assumption+)
  have srv: "\<exists>st' replies. server_main int_ops (\<lambda>_. 0) ''10.0.0.1'' 8888 ''10.0.0.9:16666'' (Some msg)
      [Live_check example_heartbeat] example_fresh = Inr (None, st', replies)" if "(1, msg) \<in> set configs" for msg
  proof -
    have "0 < length [1::int, 2]" "[1::int, 2] ! 0 = 1" by simp_all
    with bspec [OF nodes that] have "\<forall>st zc ip port addr msgs. fresh_server st \<and> ip \<noteq> [] \<and>
        in_i32 (int (length (server_messages msgs))) \<and>
        (\<forall>st1. configured int_ops (cluster_config 2 2 10 1 1 (drawn (\<lambda>i. 6 - 4 * i) 2) example_nodes) 0 st1 \<longrightarrow>
          (\<forall>m\<in>set (server_messages msgs). admissible st1 m)) \<longrightarrow>
        (\<exists>st' replies. server_main int_ops zc ip port addr (Some msg) msgs st = Inr (None, st', replies))"
      unfolding prod.case by blast
    with fresh show ?thesis by (elim allE impE) (auto simp: in_i32_iff)
  qed
  have agt: "\<exists>ag' sends. agent_main ''10.0.0.3'' 0 Map.empty (Some msg) ''10.0.0.9:16666'' 5555 (\<lambda>_ _. 3) (\<lambda>_. 0)
      ([Master_heartbeat example_heartbeat] @ Worker_signal 2 example_pull_memory [] # [Master_heartbeat example_heartbeat])
      example_agent =
    Some (Inr (Some (Exit 0), ag', sends @ [(0, terminate_message 3), (0, heartbeat_answer 3 0 example_heartbeat)], []))"
    if "(3, msg) \<in> set configs" for msg
  proof -
    have "3 \<in> set [3, 4 :: int]" by simp
    with bspec [OF nodes that] have "\<forall>ip zero objects addr port os_open zc session stop mem arrived rest (ag :: int agent).
        ip \<noteq> [] \<and> in_i32 (int (length session)) \<and> stop \<noteq> 0 \<and> stop \<noteq> 1 \<and>
        (\<forall>ag1. agent_of (cluster_config 2 2 10 1 1 (drawn (\<lambda>i. 6 - 4 * i) 2) example_nodes) ag1 \<and> ag_local_id ag1 = 3 \<longrightarrow>
          session_ok ag1 [] session) \<longrightarrow>
        (\<exists>ag' sends. agent_main ip zero objects (Some msg) addr port os_open zc
            (session @ Worker_signal stop mem arrived # rest) ag =
           Some (Inr (Some (Exit 0), ag', sends @ (0, terminate_message 3) #
             map (\<lambda>m. (0, heartbeat_answer 3 (int (pushes session)) m)) (beats_of rest), replicate (pulls session) 2)))"
      unfolding prod.case by blast
    then have "''10.0.0.3'' \<noteq> [] \<and> in_i32 (int (length [Master_heartbeat example_heartbeat])) \<and> (2::int) \<noteq> 0 \<and> (2::int) \<noteq> 1 \<and>
        (\<forall>ag1. agent_of (cluster_config 2 2 10 1 1 (drawn (\<lambda>i. 6 - 4 * i) 2) example_nodes) ag1 \<and> ag_local_id ag1 = 3 \<longrightarrow>
          session_ok ag1 [] [Master_heartbeat example_heartbeat]) \<longrightarrow>
        (\<exists>ag' sends. agent_main ''10.0.0.3'' 0 Map.empty (Some msg) ''10.0.0.9:16666'' 5555 (\<lambda>_ _. 3) (\<lambda>_. 0)
            ([Master_heartbeat example_heartbeat] @ Worker_signal 2 example_pull_memory [] # [Master_heartbeat example_heartbeat]) example_agent =
           Some (Inr (Some (Exit 0), ag', sends @ (0, terminate_message 3) #
             map (\<lambda>m. (0, heartbeat_answer 3 (int (pushes [Master_heartbeat example_heartbeat])) m))
               (beats_of [Master_heartbeat example_heartbeat]), replicate (pulls [Master_heartbeat example_heartbeat]) 2)))"
      by blast
    moreover have "pushes [Master_heartbeat example_heartbeat] = 0" "pulls [Master_heartbeat example_heartbeat] = 0"
      by (simp_all add: pushes_def pulls_def)
    ultimately show ?thesis using quiet by (simp add: in_i32_iff)
  qed
  from main srv agt show ?thesis by (intro exI [of _ ms] exI [of _ configs] exI [of _ beats] conjI) auto
qed

end
