(* ===== verification/Network_Util.thy ===== *)
theory Network_Util
  imports Main
begin

text \<open>
  The helper functions of \<open>src/util/network_util.h\<close> that find the address under which a node
  registers. What the system calls return is an argument: the list of \<open>getifaddrs\<close>, with the
  addresses in the printed form of \<open>inet_ntop\<close>, and the results of \<open>bind\<close> and
  \<open>getsockname\<close>.
\<close>

text \<open>An address of a family other than \<open>AF_INET\<close> is never printed.\<close>

datatype sockaddr = Inet string | OtherFamily

record ifaddr =
  ifa_name :: string
  ifa_addr :: "sockaddr option"
  ifa_loopback :: bool

text \<open>\<open>strncmp(name, prefix, prefix.size()) == 0\<close>\<close>

definition starts_with :: "string \<Rightarrow> string \<Rightarrow> bool" where
  "starts_with prefix name \<longleftrightarrow> take (length prefix) name = prefix"

text \<open>The new value of \<open>*ip\<close>.\<close>

fun GetIP :: "string \<Rightarrow> ifaddr list \<Rightarrow> string \<Rightarrow> string" where
  "GetIP interface [] ip = ip"
| "GetIP interface (ifa # ifs) ip =
     (case ifa_addr ifa of
        Some (Inet a) \<Rightarrow> if starts_with interface (ifa_name ifa) then a else GetIP interface ifs ip
      | _ \<Rightarrow> GetIP interface ifs ip)"

text \<open>The new values of \<open>*interface\<close> and \<open>*ip\<close>.\<close>

fun GetAvailableInterfaceAndIP :: "ifaddr list \<Rightarrow> string \<times> string" where
  "GetAvailableInterfaceAndIP [] = ([], [])"
| "GetAvailableInterfaceAndIP (ifa # ifs) =
     (case ifa_addr ifa of
        Some (Inet a) \<Rightarrow> if ifa_loopback ifa then GetAvailableInterfaceAndIP ifs else (ifa_name ifa, a)
      | _ \<Rightarrow> GetAvailableInterfaceAndIP ifs)"

text \<open>\<open>bound\<close> is the port that \<open>getsockname\<close> reports, \<open>None\<close> when it fails.\<close>

definition GetAvailablePort :: "int \<Rightarrow> int option \<Rightarrow> int" where
  "GetAvailablePort bind_result bound =
     (if bind_result \<noteq> 0 then 0 else case bound of None \<Rightarrow> 0 | Some port \<Rightarrow> port)"

section \<open>What is found\<close>

lemma GetIP_cases:
  "(\<exists>ifa\<in>set ifs. ifa_addr ifa = Some (Inet (GetIP interface ifs ip)) \<and> starts_with interface (ifa_name ifa)) \<or>
   GetIP interface ifs ip = ip \<and>
     (\<forall>ifa\<in>set ifs. starts_with interface (ifa_name ifa) \<longrightarrow> (\<forall>a. ifa_addr ifa \<noteq> Some (Inet a)))"
  by (induction interface ifs ip rule: GetIP.induct) (auto split: option.splits sockaddr.splits)

text \<open>
  A node can only register when the flag \<open>net_interface\<close> is the beginning of the name of an
  interface with an IPv4 address; the empty flag, the default, accepts the first such interface,
  the loopback interface included.
\<close>

lemma GetIP_empty_flag:
  "GetIP [] ifs [] = (case filter (\<lambda>ifa. \<exists>a. ifa_addr ifa = Some (Inet a)) ifs of
     [] \<Rightarrow> [] | ifa # _ \<Rightarrow> (case ifa_addr ifa of Some (Inet a) \<Rightarrow> a | _ \<Rightarrow> []))"
  by (induction ifs) (auto simp: starts_with_def split: option.splits sockaddr.splits)

lemma GetAvailableInterfaceAndIP_cases:
  "(\<exists>ifa\<in>set ifs. \<not> ifa_loopback ifa \<and> ifa_addr ifa = Some (Inet (snd (GetAvailableInterfaceAndIP ifs))) \<and>
      ifa_name ifa = fst (GetAvailableInterfaceAndIP ifs)) \<or>
   GetAvailableInterfaceAndIP ifs = ([], []) \<and>
     (\<forall>ifa\<in>set ifs. ifa_loopback ifa \<or> (\<forall>a. ifa_addr ifa \<noteq> Some (Inet a)))"
  by (induction ifs rule: GetAvailableInterfaceAndIP.induct) (auto split: option.splits sockaddr.splits)

end
