(* ===== verification/Election.thy ===== *)
theory Election
  imports Master_Properties
begin

text \<open>
  The election of the lead master through ZooKeeper (\<open>src/master/master.cc\<close>, the part under
  \<open>USE_ZOOKEEPER\<close>). Every master tries to create the same ephemeral node; the one that succeeds
  is meant to lead, the others are meant to sleep until ZooKeeper reports that the node is gone.

  ZooKeeper is not part of the repository. Its calls are arguments: \<open>zoo_create z name val\<close> and
  \<open>zoo_exists z name\<close> give the return code and the new state of the service, whose type \<open>'z\<close> is
  open. What the code relies on is \<open>zk_documented\<close>, for the one node that it names: the node can be
  created exactly when it does not exist, and asking for it creates none. That is the documented
  behaviour while the service answers; a lost connection, and a task name whose parent node is
  missing, are outside the hypothesis.
\<close>

type_synonym 'z zoo_create = "'z \<Rightarrow> string \<Rightarrow> string \<Rightarrow> int \<times> 'z"
type_synonym 'z zoo_exists = "'z \<Rightarrow> string \<Rightarrow> int \<times> 'z"

section \<open>The code\<close>

definition zk_node_name :: "string \<Rightarrow> string" where
  "zk_node_name task_name = ''/'' @ task_name"

text \<open>The length handed over with the value \<open>"master_ip"\<close> is 5.\<close>

definition CreateZookeeperNode ::
    "'z zoo_create \<Rightarrow> 'z zoo_exists \<Rightarrow> string \<Rightarrow> 'z \<Rightarrow> int \<times> 'z" where
  "CreateZookeeperNode zoo_create zoo_exists task_name z =
     (let node_name = zk_node_name task_name;
          node_value = ''master_ip'';
          (rc, z1) = zoo_create z node_name (take 5 node_value);
          (zoo_state, z2) = zoo_exists z1 node_name in
      (rc, z2))"

definition set_is_lead :: "bool \<Rightarrow> master \<Rightarrow> master" where
  "set_is_lead is_lead ms = ms\<lparr>ms_is_lead := is_lead\<rparr>"

text \<open>A session that \<open>zookeeper_init\<close> has opened is part of the state of the service.\<close>

definition init_zookeeper ::
    "'z zoo_create \<Rightarrow> 'z zoo_exists \<Rightarrow> string \<Rightarrow> 'z \<Rightarrow> master \<Rightarrow> int \<times> 'z \<times> master" where
  "init_zookeeper zoo_create zoo_exists task_name z ms =
     (let (rc, z1) = CreateZookeeperNode zoo_create zoo_exists task_name z in
      (rc, z1, if rc = 0 then ms\<lparr>ms_is_lead := True\<rparr> else ms))"

text \<open>
  The callback for a notification about \<open>path\<close>: a master that can create the node runs the main
  loop, on the messages \<open>es\<close>, inside the callback.
\<close>

definition ZkCallback ::
    "'z zoo_create \<Rightarrow> 'z zoo_exists \<Rightarrow> string \<Rightarrow> int \<Rightarrow> string
       \<Rightarrow> ((int \<Rightarrow> int) \<times> int \<times> 'v Message) list \<Rightarrow> 'z \<Rightarrow> master
       \<Rightarrow> ('z \<times> master \<times> 'v outgoing) res" where
  "ZkCallback zoo_create zoo_exists task_name max_cluster_node path es z ms =
     (if path = zk_node_name task_name then
        (let (rc, z1) = CreateZookeeperNode zoo_create zoo_exists task_name z in
         if rc = 0 then
           bind_res (MainLoop max_cluster_node es (set_is_lead True ms)) (\<lambda>(terminated, ms1, out).
             Inr (z1, ms1, out))
         else Inr (z1, ms, []))
      else Inr (z, ms, []))"

text \<open>\<open>Master::Initialize\<close> of a build with ZooKeeper.\<close>

definition Master_Initialize_zk ::
    "'z zoo_create \<Rightarrow> 'z zoo_exists \<Rightarrow> string \<Rightarrow> string \<Rightarrow> 'z \<Rightarrow> master \<Rightarrow> (int \<times> int \<times> 'z \<times> master) res"
  where
  "Master_Initialize_zk zoo_create zoo_exists task_name master_ip_port z ms =
     (let (rc, z1, ms1) = init_zookeeper zoo_create zoo_exists task_name z ms in
      bind_res (Master_Initialize master_ip_port ms1) (\<lambda>(count, ms2). Inr (rc, count, z1, ms2)))"

text \<open>Masters that start one after the other; the return codes of their creations.\<close>

fun start_masters ::
    "'z zoo_create \<Rightarrow> 'z zoo_exists \<Rightarrow> string \<Rightarrow> string \<Rightarrow> 'z \<Rightarrow> master list \<Rightarrow> ((int \<times> master) list \<times> 'z) res"
  where
  "start_masters zc ze task_name ips z [] = Inr ([], z)"
| "start_masters zc ze task_name ips z (m # ms) =
     bind_res (Master_Initialize_zk zc ze task_name ips z m) (\<lambda>(rc, count, z1, m1).
     bind_res (start_masters zc ze task_name ips z1 ms) (\<lambda>(rs, z2). Inr ((rc, m1) # rs, z2)))"

section \<open>What the code relies on\<close>

definition zk_documented ::
    "('z \<Rightarrow> string set) \<Rightarrow> string \<Rightarrow> 'z zoo_create \<Rightarrow> 'z zoo_exists \<Rightarrow> bool" where
  "zk_documented nodes name zoo_create zoo_exists \<longleftrightarrow>
     (\<forall>z val. (fst (zoo_create z name val) = 0 \<longleftrightarrow> name \<notin> nodes z) \<and>
        nodes (snd (zoo_create z name val)) = insert name (nodes z)) \<and>
     (\<forall>z. nodes (snd (zoo_exists z name)) = nodes z)"

text \<open>A service that keeps the names of its nodes behaves like that.\<close>

definition zk_set_create :: "string list zoo_create" where
  "zk_set_create z name val = (if name \<in> set z then (-110, z) else (0, name # z))"

definition zk_set_exists :: "string list zoo_exists" where
  "zk_set_exists z name = (if name \<in> set z then 0 else -101, z)"

lemma zk_set_documented: "zk_documented set name zk_set_create zk_set_exists"
  by (auto simp: zk_documented_def zk_set_create_def zk_set_exists_def)

lemma CreateZookeeperNode_result:
  assumes "zk_documented nodes (zk_node_name t) zc ze"
  shows "fst (CreateZookeeperNode zc ze t z) = 0 \<longleftrightarrow> zk_node_name t \<notin> nodes z"
    and "nodes (snd (CreateZookeeperNode zc ze t z)) = insert (zk_node_name t) (nodes z)"
  using assms by (simp_all add: CreateZookeeperNode_def zk_documented_def Let_def split_beta)

section \<open>The election\<close>

lemma init_zookeeper_result:
  assumes "zk_documented nodes (zk_node_name t) zc ze" "ms_is_lead ms"
  shows "\<exists>rc z1. init_zookeeper zc ze t z ms = (rc, z1, ms) \<and>
     (rc = 0 \<longleftrightarrow> zk_node_name t \<notin> nodes z) \<and> nodes z1 = insert (zk_node_name t) (nodes z)"
  using CreateZookeeperNode_result [OF assms(1), of z] assms(2)
  by (simp add: init_zookeeper_def Let_def split_beta)

text \<open>
  A notification about the node: a master that finds the node gone creates it and runs the main
  loop as the leader; one that comes too late, or is told of another path, does nothing.
\<close>

lemma ZkCallback_takes_over:
  assumes "zk_documented nodes (zk_node_name t) zc ze" "path = zk_node_name t" "path \<notin> nodes z"
  shows "\<exists>z1. nodes z1 = insert path (nodes z) \<and>
     ZkCallback zc ze t mcn path es z ms =
       bind_res (lead_loop mcn es (set_is_lead True ms)) (\<lambda>(terminated, ms1, out). Inr (z1, ms1, out))"
  using CreateZookeeperNode_result [OF assms(1), of z] assms(2,3)
  by (auto simp: ZkCallback_def MainLoop_def set_is_lead_def Let_def split_beta)

lemma ZkCallback_too_late:
  assumes "zk_documented nodes (zk_node_name t) zc ze" "path = zk_node_name t \<Longrightarrow> path \<in> nodes z"
  shows "\<exists>z1. nodes z1 = nodes z \<and> ZkCallback zc ze t mcn path es z ms = Inr (z1, ms, [])"
  using CreateZookeeperNode_result [OF assms(1), of z] assms(2)
  by (auto simp: ZkCallback_def Let_def split_beta insert_absorb)

lemma Master_Initialize_zk_result:
  assumes "zk_documented nodes (zk_node_name t) zc ze" "in_i32 (int (length (getlines (CHR '','') ips)))"
  shows "\<exists>rc n z1 m. Master_Initialize_zk zc ze t ips z (Master_new wn sn kr bnd bsize c) = Inr (rc, n, z1, m) \<and>
     ms_is_lead m \<and> (rc = 0 \<longleftrightarrow> zk_node_name t \<notin> nodes z) \<and> nodes z1 = insert (zk_node_name t) (nodes z)"
proof -
  have lead: "ms_is_lead (Master_new wn sn kr bnd bsize c)" by (simp add: Master_new_def)
  from init_zookeeper_result [OF assms(1) lead] obtain rc z1 where
    zk: "init_zookeeper zc ze t z (Master_new wn sn kr bnd bsize c) = (rc, z1, Master_new wn sn kr bnd bsize c)"
      "rc = 0 \<longleftrightarrow> zk_node_name t \<notin> nodes z" "nodes z1 = insert (zk_node_name t) (nodes z)"
    by blast
  from Initialize_new_master [OF assms(2), of wn sn kr bnd bsize c] lead obtain n m where
    "Master_Initialize ips (Master_new wn sn kr bnd bsize c) = Inr (n, m)" "ms_is_lead m"
    by auto
  with zk show ?thesis by (simp add: Master_Initialize_zk_def)
qed

lemma start_masters_lead:
  assumes "zk_documented nodes (zk_node_name t) zc ze" "in_i32 (int (length (getlines (CHR '','') ips)))"
  shows "\<exists>rs z'. start_masters zc ze t ips z (map (Master_new wn sn kr bnd bsize) cs) = Inr (rs, z') \<and>
     length rs = length cs \<and>
     (\<forall>i<length cs. (fst (rs ! i) = 0 \<longleftrightarrow> i = 0 \<and> zk_node_name t \<notin> nodes z) \<and> ms_is_lead (snd (rs ! i)))"
proof (induction cs arbitrary: z)
  case (Cons c cs)
  from Master_Initialize_zk_result [OF assms, of z wn sn kr bnd bsize c] obtain rc n z1 m where
    first: "Master_Initialize_zk zc ze t ips z (Master_new wn sn kr bnd bsize c) = Inr (rc, n, z1, m)"
      "ms_is_lead m" "rc = 0 \<longleftrightarrow> zk_node_name t \<notin> nodes z" "zk_node_name t \<in> nodes z1"
    by auto
  from Cons.IH [of z1] first(4) obtain rs z' where
    rest: "start_masters zc ze t ips z1 (map (Master_new wn sn kr bnd bsize) cs) = Inr (rs, z')"
      "length rs = length cs" "\<forall>i<length cs. fst (rs ! i) \<noteq> 0 \<and> ms_is_lead (snd (rs ! i))"
    by auto
  have "(fst (((rc, m) # rs) ! i) = 0 \<longleftrightarrow> i = 0 \<and> zk_node_name t \<notin> nodes z) \<and>
      ms_is_lead (snd (((rc, m) # rs) ! i))" if "i < length (c # cs)" for i
    using that first(2,3) rest(3) by (cases i) auto
  then show ?case using first(1) rest(1,2) by (intro exI [of _ "(rc, m) # rs"] exI [of _ z']) simp
qed simp

text \<open>
  C38: the election has no effect. Of the masters that start on the same ZooKeeper exactly the
  first creates the node, yet every one of them leads: the constructor sets \<open>is_lead_\<close> and a
  failed creation does not clear it, so that the main loop of each is the loop of the lead master
  and none waits for a notification.
\<close>

theorem election_has_no_effect:
  assumes "zk_documented nodes (zk_node_name t) zc ze" "zk_node_name t \<notin> nodes z"
    and "in_i32 (int (length (getlines (CHR '','') ips)))"
  shows "\<exists>rs z'. start_masters zc ze t ips z (map (Master_new wn sn kr bnd bsize) cs) = Inr (rs, z') \<and>
     length rs = length cs \<and>
     (\<forall>i<length cs. (fst (rs ! i) = 0 \<longleftrightarrow> i = 0) \<and> ms_is_lead (snd (rs ! i)) \<and>
        (\<forall>es :: ((int \<Rightarrow> int) \<times> int \<times> 'v Message) list.
           MainLoop mcn es (snd (rs ! i)) = lead_loop mcn es (snd (rs ! i))))"
  using start_masters_lead [OF assms(1,3), of z wn sn kr bnd bsize cs] assms(2)
  by (auto simp: MainLoop_def)

theorem election_has_no_effect_witness:
  "\<exists>rs z'. start_masters zk_set_create zk_set_exists ''ml_task'' ''10.0.0.8:16666,10.0.0.9:16666''
       [] (map (Master_new 2 2 10 1 1) [example_comm, example_comm]) = Inr (rs, z') \<and>
     length rs = 2 \<and> fst (rs ! 1) \<noteq> 0 \<and> ms_is_lead (snd (rs ! 1)) \<and>
     MainLoop 10000 example_events (snd (rs ! 1)) = lead_loop 10000 example_events (snd (rs ! 1))"
proof -
  have "in_i32 (int (length (getlines (CHR '','') ''10.0.0.8:16666,10.0.0.9:16666'')))"
    by (simp add: in_i32_iff)
  from election_has_no_effect [OF zk_set_documented _ this, of "''ml_task''" "[]" 2 2 10 1 1
      "[example_comm, example_comm]" 10000, where 'v = int]
  show ?thesis by (auto simp: numeral_eq_Suc less_Suc_eq)
qed

end
