(* ===== verification/Logging.thy ===== *)
theory Logging
  imports Communicator
begin

text \<open>
  The logger of \<open>src/util/logging.h\<close> as it is compiled by default (no glog,
  \<open>RPSCC_LOG_FATAL_THROW\<close> undefined and so 0). A statement \<open>LOG(severity) << text\<close> builds a
  temporary object, streams into its buffer and destroys it; \<open>err\<close> is what has been written to
  \<open>std::cerr\<close>. Each statement writes its buffer with one \<open>operator<<\<close>, so the statements of
  several threads write one after the other.
\<close>

section \<open>The date\<close>

record tm =
  tm_hour :: int
  tm_min :: int
  tm_sec :: int

text \<open>\<open>%02d\<close> of \<open>printf\<close>\<close>

definition show_02d :: "int \<Rightarrow> string" where
  "show_02d n = (let s = show_int n in if length s < 2 then CHR ''0'' # s else s)"

text \<open>\<open>snprintf\<close> writes at most \<open>sizeof(buffer_) - 1\<close> characters; \<open>buffer_\<close> has 9.\<close>

definition HumanDate :: "tm \<Rightarrow> string" where
  "HumanDate now =
     take 8 (show_02d (tm_hour now) @ '':'' @ show_02d (tm_min now) @ '':'' @ show_02d (tm_sec now))"

section \<open>Log messages\<close>

datatype severity = INFO | ERROR | WARNING | FATAL | QFATAL

text \<open>\<open>LOG_WARNING\<close> stands for \<open>LOG_INFO\<close> and \<open>LOG_QFATAL\<close> for \<open>LOG_FATAL\<close>.\<close>

fun severity_text :: "severity \<Rightarrow> string" where
  "severity_text INFO = ''INFO''"
| "severity_text ERROR = ''ERROR''"
| "severity_text WARNING = ''INFO''"
| "severity_text FATAL = ''FATAL''"
| "severity_text QFATAL = ''FATAL''"

fun is_fatal :: "severity \<Rightarrow> bool" where
  "is_fatal FATAL = True"
| "is_fatal QFATAL = True"
| "is_fatal _ = False"

text \<open>The constructor of \<open>LogMessage\<close> leaves this in \<open>buffer_stream_\<close>.\<close>

definition LogMessage_new :: "tm \<Rightarrow> string \<Rightarrow> int \<Rightarrow> string \<Rightarrow> string" where
  "LogMessage_new now file line sev =
     ''['' @ HumanDate now @ ''] '' @ ''('' @ sev @ '') '' @ file @ '':'' @ show_int line @ '': ''"

definition newline :: string where
  "newline = [char_of (10 :: nat)]"

definition LogMessage_destroy :: "string \<Rightarrow> string \<Rightarrow> string" where
  "LogMessage_destroy buffer_stream err = err @ (buffer_stream @ newline)"

text \<open>
  The body of the destructor of \<open>LogMessageFatal\<close> runs before the destructor of its base class,
  and it aborts: the flag tells that the process has ended.
\<close>

definition LogMessageFatal_destroy :: "string \<Rightarrow> string \<Rightarrow> string \<times> bool" where
  "LogMessageFatal_destroy buffer_stream err = (err @ newline, True)"

record statement =
  st_severity :: severity
  st_now :: tm
  st_file :: string
  st_line :: int
  st_text :: string

text \<open>\<open>LOG(severity) << text\<close>\<close>

definition LOG :: "statement \<Rightarrow> string \<Rightarrow> string \<times> bool" where
  "LOG s err =
     (let buffer_stream = LogMessage_new (st_now s) (st_file s) (st_line s) (severity_text (st_severity s))
            @ st_text s in
      if is_fatal (st_severity s) then LogMessageFatal_destroy buffer_stream err
      else (LogMessage_destroy buffer_stream err, False))"

definition LOG_IF :: "bool \<Rightarrow> statement \<Rightarrow> string \<Rightarrow> string \<times> bool" where
  "LOG_IF condition s err = (if \<not> condition then (err, False) else LOG s err)"

text \<open>\<open>CHECK(x) << text\<close>, where \<open>x_text\<close> is the source text of \<open>x\<close>.\<close>

definition CHECK :: "bool \<Rightarrow> string \<Rightarrow> statement \<Rightarrow> string \<Rightarrow> string \<times> bool" where
  "CHECK x x_text s err =
     (if \<not> x then LOG (s\<lparr>st_severity := FATAL,
        st_text := ''Check '' @ ''failed: '' @ x_text @ '' '' @ st_text s\<rparr>) err
      else (err, False))"

definition CHECK_LT :: "int \<Rightarrow> int \<Rightarrow> string \<Rightarrow> string \<Rightarrow> statement \<Rightarrow> string \<Rightarrow> string \<times> bool" where
  "CHECK_LT x y xt yt = CHECK (x < y) (''('' @ xt @ '') < ('' @ yt @ '')'')"

definition CHECK_GT :: "int \<Rightarrow> int \<Rightarrow> string \<Rightarrow> string \<Rightarrow> statement \<Rightarrow> string \<Rightarrow> string \<times> bool" where
  "CHECK_GT x y xt yt = CHECK (x > y) (''('' @ xt @ '') > ('' @ yt @ '')'')"

definition CHECK_LE :: "int \<Rightarrow> int \<Rightarrow> string \<Rightarrow> string \<Rightarrow> statement \<Rightarrow> string \<Rightarrow> string \<times> bool" where
  "CHECK_LE x y xt yt = CHECK (x \<le> y) (''('' @ xt @ '') <= ('' @ yt @ '')'')"

definition CHECK_GE :: "int \<Rightarrow> int \<Rightarrow> string \<Rightarrow> string \<Rightarrow> statement \<Rightarrow> string \<Rightarrow> string \<times> bool" where
  "CHECK_GE x y xt yt = CHECK (x \<ge> y) (''('' @ xt @ '') >= ('' @ yt @ '')'')"

definition CHECK_EQ :: "int \<Rightarrow> int \<Rightarrow> string \<Rightarrow> string \<Rightarrow> statement \<Rightarrow> string \<Rightarrow> string \<times> bool" where
  "CHECK_EQ x y xt yt = CHECK (x = y) (''('' @ xt @ '') == ('' @ yt @ '')'')"

definition CHECK_NE :: "int \<Rightarrow> int \<Rightarrow> string \<Rightarrow> string \<Rightarrow> statement \<Rightarrow> string \<Rightarrow> string \<times> bool" where
  "CHECK_NE x y xt yt = CHECK (x \<noteq> y) (''('' @ xt @ '') != ('' @ yt @ '')'')"

text \<open>
  The debug-only macros: \<open>DCHECK\<close> and its comparisons are the check \<open>check\<close> of the same name
  unless \<open>NDEBUG\<close> is defined; so are \<open>DLOG\<close> and \<open>DLOG_IF\<close> for log statements.
\<close>

definition DCHECK :: "bool \<Rightarrow> (string \<Rightarrow> string \<times> bool) \<Rightarrow> string \<Rightarrow> string \<times> bool" where
  "DCHECK ndebug check err = (if ndebug then (err, False) else check err)"

definition DLOG :: "bool \<Rightarrow> statement \<Rightarrow> string \<Rightarrow> string \<times> bool" where
  "DLOG ndebug s err = (if ndebug then (err, False) else LOG s err)"

definition DLOG_IF :: "bool \<Rightarrow> bool \<Rightarrow> statement \<Rightarrow> string \<Rightarrow> string \<times> bool" where
  "DLOG_IF ndebug condition s err =
     (if ndebug \<or> \<not> condition then (err, False) else LOG_IF condition s err)"

text \<open>The statements of the process in the order in which they write; the flag as above.\<close>

fun run_log :: "statement list \<Rightarrow> string \<Rightarrow> string \<times> bool" where
  "run_log [] err = (err, False)"
| "run_log (s # ss) err =
     (case LOG s err of (err1, aborted) \<Rightarrow> if aborted then (err1, True) else run_log ss err1)"

section \<open>The date fits its buffer\<close>

definition valid_tm :: "tm \<Rightarrow> bool" where
  "valid_tm now \<longleftrightarrow> 0 \<le> tm_hour now \<and> tm_hour now \<le> 23 \<and> 0 \<le> tm_min now \<and> tm_min now \<le> 59 \<and>
     0 \<le> tm_sec now \<and> tm_sec now \<le> 60"

lemma length_show_02d:
  assumes "0 \<le> n" "n < 100"
  shows "length (show_02d n) = 2"
proof -
  have "length (show_nat (nat n)) \<le> 2" using length_show_nat [of "nat n" 2] assms by simp
  moreover have "1 \<le> length (show_nat (nat n))" using show_nat_not_Nil by (simp add: Suc_le_eq)
  ultimately show ?thesis using assms by (simp add: show_02d_def show_int_def Let_def)
qed

lemma HumanDate_untruncated:
  assumes "valid_tm now"
  shows "HumanDate now =
    show_02d (tm_hour now) @ '':'' @ show_02d (tm_min now) @ '':'' @ show_02d (tm_sec now)"
  using assms by (simp add: HumanDate_def valid_tm_def length_show_02d)

text \<open>A line of the main loop of the master.\<close>

definition example_statement :: statement where
  "example_statement = \<lparr> st_severity = INFO, st_now = \<lparr> tm_hour = 9, tm_min = 5, tm_sec = 0 \<rparr>,
     st_file = ''master.cc'', st_line = 108, st_text = ''Receiving'' \<rparr>"

section \<open>What reaches the error stream\<close>

definition log_line :: "statement \<Rightarrow> string" where
  "log_line s = ''['' @ show_02d (tm_hour (st_now s)) @ '':'' @ show_02d (tm_min (st_now s)) @ '':''
     @ show_02d (tm_sec (st_now s)) @ ''] ('' @ severity_text (st_severity s) @ '') '' @ st_file s
     @ '':'' @ show_int (st_line s) @ '': '' @ st_text s"

lemma LOG_line:
  assumes "valid_tm (st_now s)" "\<not> is_fatal (st_severity s)"
  shows "LOG s err = (err @ log_line s @ newline, False)"
  using assms by (simp add: LOG_def LogMessage_new_def LogMessage_destroy_def log_line_def HumanDate_untruncated)

lemma LOG_fatal: "is_fatal (st_severity s) \<Longrightarrow> LOG s err = (err @ newline, True)"
  by (simp add: LOG_def LogMessageFatal_destroy_def Let_def)

lemma run_log_append:
  "run_log (ss @ ts) err =
     (case run_log ss err of (err1, aborted) \<Rightarrow> if aborted then (err1, True) else run_log ts err1)"
  by (induction ss arbitrary: err) (auto split: prod.split)

lemma run_log_lines:
  assumes "\<forall>s\<in>set ss. valid_tm (st_now s) \<and> \<not> is_fatal (st_severity s)"
  shows "run_log ss err = (err @ concat (map (\<lambda>s. log_line s @ newline) ss), False)"
  using assms by (induction ss arbitrary: err) (auto simp: LOG_line)

text \<open>
  C39: what a failed \<open>CHECK\<close> says is lost. Every statement that is not fatal, of whatever thread,
  adds one line with time, severity, file, line number and text to the error stream, in the order
  of execution. A \<open>CHECK\<close> that fails ends the process and adds an empty line only: the text of the
  condition, the file and the line are in a buffer that would have been written by the destructor
  of the base class, after the abort. A \<open>CHECK\<close> that holds changes nothing.
\<close>

theorem failed_check_is_silent:
  assumes "\<forall>s\<in>set ss. valid_tm (st_now s) \<and> \<not> is_fatal (st_severity s)"
  shows "run_log ss [] = (concat (map (\<lambda>s. log_line s @ newline) ss), False) \<and>
     CHECK False x_text c (fst (run_log ss [])) =
       (concat (map (\<lambda>s. log_line s @ newline) ss) @ newline, True) \<and>
     CHECK True x_text c (fst (run_log ss [])) = (fst (run_log ss []), False)"
  using run_log_lines [OF assms] by (simp add: CHECK_def LOG_fatal)

theorem failed_check_is_silent_witness:
  "CHECK False ''msg.has_heartbeat_msg()'' (example_statement\<lparr>st_line := 214, st_text := []\<rparr>)
     (fst (run_log [example_statement] [])) = (log_line example_statement @ newline @ newline, True)"
proof -
  have "\<forall>s\<in>set [example_statement]. valid_tm (st_now s) \<and> \<not> is_fatal (st_severity s)"
    by (simp add: valid_tm_def example_statement_def)
  from failed_check_is_silent [OF this, THEN conjunct2, THEN conjunct1] show ?thesis by simp
qed

end
