(* ===== verification/Server_Unit_Test.thy ===== *)
theory Server_Unit_Test
  imports Server_Properties
begin

text \<open>
  The scenario of the repository's server test (\<open>src/server/server_gtest.cc\<close>) on the model: the
  messages that the simulated master, agent and servers send, and what the server under test makes
  of them. The test gives the server 2 the first of three stretches of a ring of ten keys, pushes
  three gradients, checks for life and then takes server 4 out of the configuration.

  The protocol buffer \<open>msg_send\<close> of the test is reused, so a later message still carries the
  parts that an earlier one set.
\<close>

section \<open>The messages of the test\<close>

definition test_config :: ConfigMessage where
  "test_config = \<lparr> cf_worker_num = 1, cf_server_num = 3, cf_key_range = 10,
     cf_node_ip_port = [''127.0.0.1:5000'', ''127.0.0.1:5555'', ''127.0.0.1:5500'',
       ''127.0.0.1:5006'', ''127.0.0.1:5007''],
     cf_partition = [0, 3, 5], cf_backup_size = 0, cf_server_id = [2, 3, 4], cf_worker_id = [1],
     cf_master_id = [0], cf_bound = 1 \<rparr>"

definition test_config_message :: "'v Message" where
  "test_config_message = new_Message\<lparr>message_type := Message_MessageType_config, recv_id := 2,
     send_id := 0, config_msg := Some test_config\<rparr>"

definition test_push :: "'v \<Rightarrow> 'v \<Rightarrow> 'v \<Rightarrow> 'v Message" where
  "test_push x0 x1 x2 = test_config_message\<lparr>message_type := Message_MessageType_request,
     recv_id := 2, send_id := 1,
     request_msg := Some \<lparr> request_type = RequestType_key_value, rq_keys = [0, 1, 2],
       rq_values = [x0, x1, x2] \<rparr>\<rparr>"

definition test_live_check :: "'v Message" where
  "test_live_check = new_Message\<lparr>message_type := Message_MessageType_heartbeat, send_id := 0,
     recv_id := 2, heartbeat_msg := Some (default_HeartbeatMessage\<lparr>hb_is_live := True\<rparr>)\<rparr>"

definition test_reconfig :: ConfigMessage where
  "test_reconfig = \<lparr> cf_worker_num = 1, cf_server_num = 2, cf_key_range = 10,
     cf_node_ip_port = [''127.0.0.1:5000'', ''127.0.0.1:5555'', ''127.0.0.1:5500'',
       ''127.0.0.1:5006''],
     cf_partition = [3, 5], cf_backup_size = 0, cf_server_id = [3, 2], cf_worker_id = [1],
     cf_master_id = [0], cf_bound = 1 \<rparr>"

definition test_reconfig_message :: "'v \<Rightarrow> 'v \<Rightarrow> 'v \<Rightarrow> 'v Message" where
  "test_reconfig_message x0 x1 x2 = (test_push x0 x1 x2)\<lparr>message_type := Message_MessageType_config,
     recv_id := 2, send_id := 0, config_msg := Some test_reconfig\<rparr>"

text \<open>
  \<open>SimulServer\<close>: what a simulated server sends when it is asked for a backup, its \<open>param_len\<close>
  parameters and a request of its own; \<open>num\<close> converts an \<open>int\<close> to a parameter value.
\<close>

definition SimulServer_turn :: "(int \<Rightarrow> 'v) \<Rightarrow> int \<Rightarrow> int \<Rightarrow> int \<Rightarrow> 'v Message list" where
  "SimulServer_turn num server_id start param_len =
     (let msg_send = key_value_message server_id 2 (map (\<lambda>i. start + i) [0..param_len - 1])
            (map (\<lambda>i. num (i + start * 10)) [0..param_len - 1]) in
      [msg_send, msg_send\<lparr>request_msg := None\<rparr>])"

section \<open>The server under test\<close>

definition test_fresh :: "zmq_communicator \<Rightarrow> 'v server" where
  "test_fresh c = \<lparr> local_address = [], local_index = 0, local_id = 0, start_key = 0,
     parameter_length = 0, consistency_bound = 0, bottom_version = 0, agent_num = 0,
     server_num = 0, key_range = 0, backup_size = 0, master_ids = [], server_ids = [],
     servers = Map.empty, agent_ids = [], parameters = [], backup_parameters = [],
     version_buffer = [], finish_count = [], pull_request = [], id_to_index = Map.empty,
     sender = c \<rparr>"

definition test_started :: "'v fops \<Rightarrow> zmq_communicator \<Rightarrow> 'v server" where
  "test_started F c = (test_fresh c)\<lparr> local_address := ''127.0.0.1'', local_id := 2,
     parameter_length := 3, consistency_bound := 1, agent_num := 1, server_num := 3,
     key_range := 10, master_ids := [0], server_ids := [2, 3, 4],
     servers := [2 \<mapsto> 0, 3 \<mapsto> 1, 4 \<mapsto> 2], agent_ids := [1], parameters := [fzero F, fzero F, fzero F],
     version_buffer := [[]], finish_count := [0], id_to_index := [1 \<mapsto> 0],
     sender := fold (\<lambda>i c. snd (AddIdAddr i (cf_node_ip_port test_config ! nat i) c)) [1..4]
       (snd (AddIdAddr 0 ''127.0.0.1:5000'' c)) \<rparr>"

lemma test_upto:
  "[0..0::int] = [0]" "[0..1::int] = [0, 1]" "[0..2::int] = [0, 1, 2]" "[1..0::int] = []"
  "[0..-1::int] = []" "[0..3::int] = [0,1,2,3]"
  by code_simp+

lemma test_rem: "i32_rem 1 3 = Inr 1" "i32_rem 13 10 = Inr 3" "i32_rem 2 2 = Inr 0" "i32_rem 8 10 = Inr 8"
  by code_simp+

lemma test_initialize:
  "Server_Initialize F ''127.0.0.1'' 5500 ''127.0.0.1:5000'' (Some test_config_message) (test_fresh c)
     = Inr (True, test_started F c, [(0, new_Message\<lparr>message_type := Message_MessageType_register,
         recv_id := 0, send_id := -1, register_msg := Some \<lparr> rg_ip = ''127.0.0.1'', rg_port = 5500,
         rg_is_server = True \<rparr>\<rparr>)])"
  by (simp add: Server_Initialize_def configure_def test_config_message_def Let_def
      test_config_def test_fresh_def test_upto add_server_init_def add_server_def
      range_length_def init_backups_def zero_vector_def test_rem in_i32_iff
      map_insert_def set_insert_def test_started_def vec_get_def numeral_eq_Suc)


text \<open>The value of a parameter after the first update by the only agent.\<close>

definition first_update :: "'v fops \<Rightarrow> 'v \<Rightarrow> 'v" where
  "first_update F x = fadd F (fzero F) (fdiv F (fadd F (fzero F) x) (fof_int F 1))"

definition test_pushed :: "'v fops \<Rightarrow> zmq_communicator \<Rightarrow> 'v list \<Rightarrow> 'v server" where
  "test_pushed F c xs = (test_started F c)\<lparr>parameters := map (first_update F) xs, bottom_version := 1\<rparr>"

lemma test_push_turn:
  "Start_turn F zc (test_push x0 x1 x2) (test_started F c) = Inr (test_pushed F c [x0, x1, x2], [])"
  by (simp add: Start_turn_def ServePush_def enqueue_push_def finish_round_def UpdateParameter_def
      RespondToAll_def RequestBackup_def merge_agent_def accumulate_def apply_update_def push_list_def
      AddPair_def KeyValueList_Key_def KeyValueList_Value_def KeyValueList_Length_def
      new_KeyValueList_def zero_vector_def queue_front_def map_at_def test_push_def
      test_config_message_def test_pushed_def test_started_def test_fresh_def first_update_def
      test_upto in_i32_iff vec_get_def vec_set_def size_t_of_int_def numeral_eq_Suc)

lemma test_reconfig_turn:
  "\<exists>st. Start_turn F zc (test_reconfig_message x0 x1 x2) (test_pushed F c [x0, x1, x2]) = Inr (st, []) \<and>
     start_key st = 5 \<and> parameter_length st = 8 \<and> key_range st = 10 \<and> local_id st = 2 \<and>
     parameters st = map (first_update F) [x0, x1, x2] \<and> id_to_index st = [1 \<mapsto> 0] \<and>
     version_buffer st = [[]] \<and> consistency_bound st = 1 \<and> servers st = [3 \<mapsto> 0, 2 \<mapsto> 1] \<and>
     server_num st = 2"
  by (simp add: Start_turn_def Reconfigure_def RespondToAll_def add_server_def range_length_def
      drop_agent_def add_agent_def ExtendParameter_def test_reconfig_message_def test_push_def
      test_config_message_def test_reconfig_def test_pushed_def test_started_def test_fresh_def
      test_upto test_rem in_i32_iff vec_get_def map_insert_def set_insert_def Let_def numeral_eq_Suc)


definition test_pull :: "int \<Rightarrow> 'v Message" where
  "test_pull k = new_Message\<lparr>message_type := Message_MessageType_request, recv_id := 2, send_id := 1,
     request_msg := Some \<lparr> request_type = RequestType_key, rq_keys = [k], rq_values = [] \<rparr>\<rparr>"

lemma test_pull_turn:
  assumes "start_key st = 5" "key_range st = 10" "local_id st = 2" "id_to_index st = [1 \<mapsto> 0]"
    and "version_buffer st = [[]]" "consistency_bound st = 1" "servers st = [3 \<mapsto> 0, 2 \<mapsto> 1]"
    and "0 \<le> k" "k < 10"
  shows "Start_turn F zc (test_pull k) st =
    bind_res (vec_get (parameters st) ((k + 5) mod 10)) (\<lambda>v. Inr (st, [(1, key_value_message 2 1 [k] [v])]))"
proof -
  have "(k + 5) mod 10 = (if k - 5 < 0 then k + 5 else k - 5)" using assms(8,9) by presburger
  then show ?thesis using assms
    by (auto simp: Start_turn_def ServePull_def test_pull_def size_t_of_int_def in_i32_iff bind_res_assoc vec_get_def ac_simps)
qed

section \<open>The scenario with a backup\<close>

text \<open>The same run with \<open>backup_size\<close> 1: server 4, the predecessor on the ring, is asked for a backup.\<close>

definition with_backup :: "'v fops \<Rightarrow> 'v server \<Rightarrow> 'v server" where
  "with_backup F st = st\<lparr>backup_size := 1, backup_parameters := [replicate 5 (fzero F)]\<rparr>"

lemma test_rem_backup: "i32_rem 2 3 = Inr 2" "i32_rem 3 3 = Inr 0" "i32_rem 5 10 = Inr 5" "i32_rem 0 3 = Inr 0"
  by code_simp+

lemma backup_initialize:
  "\<exists>reg. Server_Initialize F ''127.0.0.1'' 5500 ''127.0.0.1:5000''
       (Some (test_config_message\<lparr>config_msg := Some (test_config\<lparr>cf_backup_size := 1\<rparr>)\<rparr>)) (test_fresh c)
     = Inr (True, with_backup F (test_started F c), [(0, reg)])"
  by (simp add: Server_Initialize_def configure_def test_config_message_def Let_def
      test_config_def test_fresh_def test_upto example_upto add_server_init_def add_server_def
      range_length_def init_backups_def zero_vector_def test_rem test_rem_backup in_i32_iff
      map_insert_def set_insert_def test_started_def with_backup_def vec_get_def numeral_eq_Suc)

lemma backup_push_turn:
  "Start_turn F zc (test_push x0 x1 x2) (with_backup F (test_started F c))
     = Inr (with_backup F (test_pushed F c [x0, x1, x2]),
         [(4, new_Message\<lparr>send_id := 2, recv_id := 4, message_type := Message_MessageType_request\<rparr>)])"
  by (simp add: Start_turn_def ServePush_def enqueue_push_def finish_round_def UpdateParameter_def
      RespondToAll_def RequestBackup_def merge_agent_def accumulate_def apply_update_def push_list_def
      AddPair_def KeyValueList_Key_def KeyValueList_Value_def KeyValueList_Length_def
      new_KeyValueList_def zero_vector_def queue_front_def map_at_def test_push_def
      test_config_message_def test_pushed_def test_started_def test_fresh_def first_update_def
      with_backup_def test_upto example_upto test_rem_backup in_i32_iff vec_get_def vec_set_def
      size_t_of_int_def numeral_eq_Suc)

text \<open>The two messages that server 4 then sends: its parameters are stored, its own request is answered.\<close>

definition test_stored :: "'v fops \<Rightarrow> (int \<Rightarrow> 'v) \<Rightarrow> zmq_communicator \<Rightarrow> 'v list \<Rightarrow> 'v server" where
  "test_stored F num c xs =
     (test_pushed F c xs)\<lparr>backup_size := 1, backup_parameters := [map num [50, 51, 52, 53, 54]]\<rparr>"

lemma test_upto_five: "[0..4::int] = [0, 1, 2, 3, 4]"
  by code_simp

lemma SimulServer_4:
  "SimulServer_turn num 4 5 5 =
     [key_value_message 4 2 [5, 6, 7, 8, 9] (map num [50, 51, 52, 53, 54]),
      new_Message\<lparr>send_id := 4, recv_id := 2, message_type := Message_MessageType_request\<rparr>]"
  by (simp add: SimulServer_turn_def test_upto_five key_value_message_def new_Message_def)

lemma backup_reply_turn:
  "Start_turn F zc (SimulServer_turn num 4 5 5 ! 0) (with_backup F (test_pushed F c xs))
     = Inr (test_stored F num c xs, [])"
  by (simp add: SimulServer_4 Start_turn_def Backup_def map_at_def key_value_message_def test_stored_def
      with_backup_def test_pushed_def test_started_def test_fresh_def in_i32_iff test_rem_backup
      vec_get_def vec_set_def)

lemma backup_request_turn:
  "Start_turn F zc (SimulServer_turn num 4 5 5 ! 1) (test_stored F num c [x0, x1, x2])
     = Inr (test_stored F num c [x0, x1, x2],
         [(4, key_value_message 2 4 [0, 1, 2] (map (first_update F) [x0, x1, x2]))])"
  by (simp add: SimulServer_4 Start_turn_def RespondBackup_def test_stored_def new_Message_def
      test_pushed_def test_started_def test_fresh_def in_i32_iff vec_get_def test_upto numeral_eq_Suc)

lemma backup_reconfig_turn:
  "\<exists>st. Start_turn F zc (test_reconfig_message x0 x1 x2) (test_stored F num c [x0, x1, x2]) = Inr (st, []) \<and>
     start_key st = 5 \<and> parameter_length st = 8 \<and> key_range st = 10 \<and> local_id st = 2 \<and>
     parameters st = map num [50, 51, 52, 53, 54] @ map (first_update F) [x0, x1, x2] \<and>
     id_to_index st = [1 \<mapsto> 0] \<and> version_buffer st = [[]] \<and> consistency_bound st = 1 \<and>
     servers st = [3 \<mapsto> 0, 2 \<mapsto> 1]"
  by (simp add: Start_turn_def Reconfigure_def RespondToAll_def add_server_def range_length_def
      drop_agent_def add_agent_def ExtendParameter_def test_reconfig_message_def test_push_def
      test_config_message_def test_reconfig_def test_stored_def test_pushed_def test_started_def
      test_fresh_def test_upto test_rem in_i32_iff vec_get_def map_insert_def set_insert_def
      size_t_of_int_def Let_def numeral_eq_Suc)

text \<open>
  The scenario of the server test. The server registers with the address and port that the
  test expects and starts with the keys 0 to 2; the push of the only agent ends a round and updates
  each parameter once; no simulated server is ever asked for a backup, since the configuration
  leaves \<open>backup_size\<close> at 0; a live check is answered with identifier 2. After the second
  configuration the server owns the keys 5 to 2 (modulo 10) with three parameters only: a pull of
  key 5 is answered with the parameter of key 0, and a pull of key 0 reads out of bounds.
\<close>

lemma server_test_scenario:
  "\<exists>st1 st2 reg st3.
     Server_Initialize F ''127.0.0.1'' 5500 ''127.0.0.1:5000'' (Some test_config_message) (test_fresh c)
       = Inr (True, st1, [(0, reg)]) \<and>
     register_msg reg = Some \<lparr> rg_ip = ''127.0.0.1'', rg_port = 5500, rg_is_server = True \<rparr> \<and>
     Start_turn F zc (test_push x0 x1 x2) st1 = Inr (st2, []) \<and>
     parameters st2 = map (first_update F) [x0, x1, x2] \<and> bottom_version st2 = 1 \<and>
     map (\<lambda>(to, m). (to, send_id m)) (Server_HeartBeat_turn test_live_check st2) = [(0, 2)] \<and>
     Start_turn F zc (test_reconfig_message x0 x1 x2) st2 = Inr (st3, []) \<and>
     start_key st3 = 5 \<and> parameter_length st3 = 8 \<and> length (parameters st3) = 3 \<and>
     Start_turn F zc (test_pull 5) st3 = Inr (st3, [(1, key_value_message 2 1 [5] [first_update F x0])]) \<and>
     Start_turn F zc (test_pull 0) st3 = Inl OutOfBounds"
proof -
  from test_reconfig_turn [of F zc x0 x1 x2 c] obtain st3 where
    st3: "Start_turn F zc (test_reconfig_message x0 x1 x2) (test_pushed F c [x0, x1, x2]) = Inr (st3, [])"
      "start_key st3 = 5" "parameter_length st3 = 8" "key_range st3 = 10" "local_id st3 = 2"
      "parameters st3 = map (first_update F) [x0, x1, x2]" "id_to_index st3 = [1 \<mapsto> 0]"
      "version_buffer st3 = [[]]" "consistency_bound st3 = 1" "servers st3 = [3 \<mapsto> 0, 2 \<mapsto> 1]"
    by blast
  note pull = test_pull_turn [OF st3(2,4,5,7-10), of _ F zc]
  have "local_id (test_started F c) = 2" by (simp add: test_started_def)
  then show ?thesis
    using test_initialize [of F c] test_push_turn [of F zc x0 x1 x2 c] st3 pull [of 0] pull [of 5]
    by (auto simp: Server_HeartBeat_turn_def test_pushed_def vec_get_def)
qed

text \<open>
  C30: the same scenario with one backup. The push makes the server ask server 4 for its parameters;
  the simulated server's reply is stored and its own request is answered; after the second
  configuration the server holds the stored parameters of server 4 for the keys 5 to 9 in front of
  its own for the keys 0 to 2, and answers a pull of each of these keys with its value.
\<close>

theorem server_test_with_backup:
  "\<exists>st1 st2 reg req st3 st4.
     Server_Initialize F ''127.0.0.1'' 5500 ''127.0.0.1:5000''
       (Some (test_config_message\<lparr>config_msg := Some (test_config\<lparr>cf_backup_size := 1\<rparr>)\<rparr>)) (test_fresh c)
       = Inr (True, st1, [(0, reg)]) \<and>
     Start_turn F zc (test_push x0 x1 x2) st1 = Inr (st2, [(4, req)]) \<and>
     Start_turn F zc (SimulServer_turn num 4 5 5 ! 0) st2 = Inr (st3, []) \<and>
     Start_turn F zc (SimulServer_turn num 4 5 5 ! 1) st3 =
       Inr (st3, [(4, key_value_message 2 4 [0, 1, 2] (map (first_update F) [x0, x1, x2]))]) \<and>
     Start_turn F zc (test_reconfig_message x0 x1 x2) st3 = Inr (st4, []) \<and>
     map (\<lambda>k. Start_turn F zc (test_pull k) st4) [5, 6, 7, 8, 9, 0, 1, 2] =
       map (\<lambda>(k, v). Inr (st4, [(1, key_value_message 2 1 [k] [v])]))
         [(5, num 50), (6, num 51), (7, num 52), (8, num 53), (9, num 54),
          (0, first_update F x0), (1, first_update F x1), (2, first_update F x2)]"
proof -
  from backup_reconfig_turn [of F zc x0 x1 x2 num c] obtain st4 where
    st4: "Start_turn F zc (test_reconfig_message x0 x1 x2) (test_stored F num c [x0, x1, x2]) = Inr (st4, [])"
      "start_key st4 = 5" "key_range st4 = 10" "local_id st4 = 2"
      "parameters st4 = map num [50, 51, 52, 53, 54] @ map (first_update F) [x0, x1, x2]"
      "id_to_index st4 = [1 \<mapsto> 0]" "version_buffer st4 = [[]]" "consistency_bound st4 = 1"
      "servers st4 = [3 \<mapsto> 0, 2 \<mapsto> 1]"
    by blast
  note pull = test_pull_turn [OF st4(2-4,6-9), of _ F zc]
  have "map (\<lambda>k. Start_turn F zc (test_pull k) st4) [5, 6, 7, 8, 9, 0, 1, 2] =
      map (\<lambda>(k, v). Inr (st4, [(1, key_value_message 2 1 [k] [v])]))
        [(5, num 50), (6, num 51), (7, num 52), (8, num 53), (9, num 54),
         (0, first_update F x0), (1, first_update F x1), (2, first_update F x2)]"
    by (simp add: pull st4(5) vec_get_def)
  then show ?thesis
    using backup_initialize [of F c] backup_push_turn [of F zc x0 x1 x2 c]
      backup_reply_turn [of F zc num c "[x0, x1, x2]"] backup_request_turn [of F zc num c x0 x1 x2] st4(1)
    by blast
qed

end
