(* ===== verification/Channel_Unit_Test.thy ===== *)
theory Channel_Unit_Test
  imports Channel Transition_Systems
begin

text \<open>
  The protocol of the channel as its test runs it (\<open>src/channel/channel_gtest.cc\<close>, test
  \<open>SharedMemory\<close>) and as the agent and its worker use it: one process writes the shared memory and
  then signals, the other waits for the signal and then reads. The two processes run concurrently;
  each call is one step. A signal is four bytes and is written to the pipe at once; \<open>read\<close> waits
  while the pipe is empty and the writer has it open.
\<close>

datatype writer_pc = W_Write | W_Signal | W_Done

datatype reader_pc = R_Wait | R_Read | R_Done

record 'v handshake =
  hs_pipe :: "int list"
  hs_shared :: "'v shmstruct"
  hs_writer :: writer_pc
  hs_reader :: reader_pc
  hs_sig :: int
  hs_data :: "'v shmstruct option"

inductive handshake_step :: "int \<Rightarrow> 'v shmstruct \<Rightarrow> 'v handshake \<Rightarrow> 'v handshake \<Rightarrow> bool" for sig data where
  hs_write: "hs_writer h = W_Write \<Longrightarrow> handshake_step sig data h
    (h\<lparr>hs_shared := SharedMemory_Write data (hs_shared h), hs_writer := W_Signal\<rparr>)"
| hs_signal: "hs_writer h = W_Signal \<Longrightarrow> handshake_step sig data h
    (h\<lparr>hs_pipe := Fifo_Signal sig (hs_pipe h), hs_writer := W_Done\<rparr>)"
| hs_wait: "hs_reader h = R_Wait \<Longrightarrow> hs_pipe h \<noteq> [] \<Longrightarrow> handshake_step sig data h
    (h\<lparr>hs_sig := Fifo_Wait (take 4 (hs_pipe h)), hs_pipe := drop 4 (hs_pipe h), hs_reader := R_Read\<rparr>)"
| hs_read: "hs_reader h = R_Read \<Longrightarrow> handshake_step sig data h
    (h\<lparr>hs_data := Some (SharedMemory_Read (hs_shared h)), hs_reader := R_Done\<rparr>)"

definition handshake_start :: "'v handshake \<Rightarrow> bool" where
  "handshake_start h \<longleftrightarrow> hs_pipe h = [] \<and> wf_shm (hs_shared h) \<and> hs_writer h = W_Write \<and>
     hs_reader h = R_Wait \<and> hs_data h = None"

definition handshake_inv :: "int \<Rightarrow> 'v shmstruct \<Rightarrow> 'v handshake \<Rightarrow> bool" where
  "handshake_inv sig data h \<longleftrightarrow>
     wf_shm (hs_shared h) \<and>
     (hs_writer h \<noteq> W_Write \<longrightarrow> hs_shared h = data) \<and>
     hs_pipe h = (if hs_writer h = W_Done \<and> hs_reader h = R_Wait then int_bytes sig else []) \<and>
     (hs_reader h \<noteq> R_Wait \<longrightarrow> hs_writer h = W_Done \<and> hs_sig h = sig) \<and>
     (hs_reader h = R_Done \<longrightarrow> hs_data h = Some data)"

lemma int_bytes_not_Nil [simp]: "int_bytes sig \<noteq> []"
  by (simp add: int_bytes_def)

lemma Fifo_Wait_int_bytes: "in_i32 sig \<Longrightarrow> Fifo_Wait (int_bytes sig) = sig"
  by (simp add: Fifo_Wait_def bytes_int_int_bytes)

lemma SharedMemory_Write_eq:
  "wf_shm data \<Longrightarrow> wf_shm shared \<Longrightarrow> SharedMemory_Write data shared = data"
  using SharedMemory_Write_Read [of data shared] by (simp add: SharedMemory_Read_def)

lemma handshake_step_inv:
  assumes "in_i32 sig" "wf_shm data" "handshake_inv sig data h" "handshake_step sig data h h'"
  shows "handshake_inv sig data h'"
  using assms(4,1-3)
  by (cases rule: handshake_step.cases)
    (auto simp: handshake_inv_def SharedMemory_Write_eq SharedMemory_Read_def Fifo_Signal_def
      Fifo_Wait_int_bytes split: if_splits)

text \<open>The signal and the data of the test are those of a handshake that can take place.\<close>

definition transferable :: "int \<Rightarrow> 'v shmstruct \<Rightarrow> bool" where
  "transferable sig data \<longleftrightarrow> in_i32 sig \<and> wf_shm data"

interpretation shake: invariant_system
    "\<lambda>h. transferable sig data \<and> handshake_start h" "handshake_step sig data"
    "\<lambda>h. transferable sig data \<and> handshake_inv sig data h" for sig data
proof unfold_locales
  show "transferable sig data \<and> handshake_inv sig data h" if "transferable sig data \<and> handshake_start h" for h
    using that by (simp add: handshake_start_def handshake_inv_def)
  show "transferable sig data \<and> handshake_inv sig data h'"
    if "transferable sig data \<and> handshake_inv sig data h" "handshake_step sig data h h'" for h h'
    using that handshake_step_inv by (auto simp: transferable_def)
qed

lemma handshake_can_step:
  assumes "handshake_inv sig data h" "hs_reader h \<noteq> R_Done \<or> hs_writer h \<noteq> W_Done"
  shows "\<exists>h'. handshake_step sig data h h'"
proof (cases "hs_writer h")
  case W_Done
  with assms consider "hs_reader h = R_Wait" "hs_pipe h \<noteq> []" | "hs_reader h = R_Read"
    by (cases "hs_reader h") (auto simp: handshake_inv_def)
  then show ?thesis by cases (blast intro: handshake_step.intros)+
qed (blast intro: handshake_step.intros)+

text \<open>
  C31: the handshake of the channel. However the two processes interleave, the reader ends with the
  signal and the data of the writer, never with the old contents of the shared memory or a mixture;
  and until both have ended one of them can go on.
\<close>

theorem channel_handshake:
  assumes "transferable sig data" "handshake_start h" "(handshake_step sig data)\<^sup>*\<^sup>* h h'"
  shows "(hs_reader h' = R_Done \<longrightarrow> hs_sig h' = sig \<and> hs_data h' = Some data) \<and>
     (hs_reader h' = R_Done \<and> hs_writer h' = W_Done \<or> (\<exists>h''. handshake_step sig data h' h''))"
proof -
  have "transferable sig data \<and> handshake_inv sig data h"
    using shake.invar_init [of sig data h] assms(1,2) by blast
  then have "handshake_inv sig data h'" using shake.steps_invar [OF assms(3)] by blast
  then show ?thesis using handshake_can_step by (auto simp: handshake_inv_def)
qed

text \<open>The values of the test: size 1, key 1111 and a value in the first place.\<close>

definition test_store_data :: "'v \<Rightarrow> 'v list \<Rightarrow> int list \<Rightarrow> 'v shmstruct" where
  "test_store_data v vs ks = \<lparr> shm_size = 1, shm_values = vs[0 := v], shm_keys = ks[0 := 1111] \<rparr>"

definition test_handshake :: "int handshake" where
  "test_handshake = \<lparr> hs_pipe = [], hs_shared = test_store_data 0 (replicate 100 0) (replicate 100 0),
     hs_writer = W_Write, hs_reader = R_Wait, hs_sig = 0, hs_data = None \<rparr>"

theorem channel_handshake_witness:
  "\<exists>h'. (handshake_step 1 (test_store_data 13 (replicate 100 0) (replicate 100 0)))\<^sup>*\<^sup>* test_handshake h' \<and>
     hs_reader h' = R_Done \<and> hs_sig h' = 1 \<and>
     hs_data h' = Some (test_store_data 13 (replicate 100 0) (replicate 100 0))"
proof -
  let ?data = "test_store_data 13 (replicate 100 0) (replicate 100 0)"
  let ?h1 = "test_handshake\<lparr>hs_shared := SharedMemory_Write ?data (hs_shared test_handshake), hs_writer := W_Signal\<rparr>"
  let ?h2 = "?h1\<lparr>hs_pipe := Fifo_Signal 1 (hs_pipe ?h1), hs_writer := W_Done\<rparr>"
  let ?h3 = "?h2\<lparr>hs_sig := Fifo_Wait (take 4 (hs_pipe ?h2)), hs_pipe := drop 4 (hs_pipe ?h2), hs_reader := R_Read\<rparr>"
  let ?h4 = "?h3\<lparr>hs_data := Some (SharedMemory_Read (hs_shared ?h3)), hs_reader := R_Done\<rparr>"
  have "handshake_step 1 ?data test_handshake ?h1" "handshake_step 1 ?data ?h1 ?h2"
    "handshake_step 1 ?data ?h2 ?h3" "handshake_step 1 ?data ?h3 ?h4"
    by (rule handshake_step.intros; simp add: test_handshake_def Fifo_Signal_def)+
  then have run: "(handshake_step 1 ?data)\<^sup>*\<^sup>* test_handshake ?h4"
    by (meson r_into_rtranclp rtranclp_trans)
  have "transferable 1 ?data" "handshake_start test_handshake"
    by (simp_all add: transferable_def in_i32_iff wf_shm_def test_store_data_def handshake_start_def
        test_handshake_def)
  from channel_handshake [OF this run] have "hs_sig ?h4 = 1" "hs_data ?h4 = Some ?data" by simp_all
  with run show ?thesis by (intro exI [of _ ?h4] conjI) simp_all
qed

end
