(* ===== verification/Spec2Isabelle.thy ===== *)
theory Spec2Isabelle
  imports Training Programs Network_Util Election Logging Server_Unit_Test Channel_Unit_Test
begin

text \<open>
  A verification library for the parameter server system in \<open>src/\<close>.

  \<^bold>\<open>The program.\<close> A \<^emph>\<open>master\<close> collects the registrations of a given number of servers and
  agents, draws one hash value per server, sends everyone the configuration, watches for nodes that
  fall silent and reports changes with its heartbeats. The keys \<open>0 .. key_range - 1\<close> form a ring;
  a \<^emph>\<open>server\<close> holds the parameters from its own hash value up to the next one, merges the updates
  of the agents round by round, and keeps backups of the servers before it on the ring. An
  \<^emph>\<open>agent\<close> takes requests of a worker process through a \<^emph>\<open>channel\<close> (a named pipe for signals, shared
  memory for keys and values) and turns them into push and pull requests, cut into blocks at the
  hash values. Messages travel through a \<^emph>\<open>communicator\<close>: the caller puts a framed message into a
  \<^emph>\<open>ring buffer\<close>, a thread takes it out and hands it to a ZeroMQ socket; receiving is the mirror
  image. Updates are \<^emph>\<open>bounded-stale\<close>: an agent may have at most \<open>bound\<close> updates waiting; further
  pushes are dropped and pulls are held back until the round ends.

  \<^bold>\<open>How code is modelled.\<close> A class is a record, a member function one definition of the same
  name (prefixed by the class where two classes share a name), a loop that waits for messages is
  its body as one turn. A program with several threads is a sequence of events, each a turn of one
  thread: the main loop and the heartbeat thread of an agent and of a server, the main loop and the
  two threads of the master. Code returns \<open>'a res\<close>: \<open>Inr\<close> a value, or \<open>Inl\<close> a fault for an access out
  of bounds, a signed overflow, an empty queue, a division by zero, a failed \<open>CHECK\<close>, a negative
  container size or a malformed number; so "returns" in a theorem means that none of these
  happens. Messages that are sent are part of the result. \<open>int32\<close> is \<open>int\<close> with every result
  checked by \<open>i32\<close>; comparisons with \<open>size_t\<close> convert explicitly. Parameter values are of an open
  type \<open>'v\<close> with the operations of \<open>'v fops\<close>, so no law of floating point arithmetic is assumed. What
  is outside the repository is an argument: flags, random draws, the time, the result of system
  calls, the reaction of ZeroMQ and ZooKeeper, the bytes that arrive. All definitions of code are
  executable; there is no fuel: loops over containers are folds, the block loop of the agent is a
  recursion over the keys left, the waiting loops recurse over the messages that arrive and report
  when these run out.

  \<^bold>\<open>Theories, in the order in which they build on each other.\<close>

  \<^item> \<open>Prelude\<close>: faults, \<open>int32\<close>, containers (\<open>src/util/common.h\<close>) and the calculus \<open>returns\<close> with its
    rules \<open>wp\<close>. \<open>Transition_Systems\<close>: reachability and the locale \<open>invariant_system\<close>.
    \<open>Std_Algorithms\<close>: \<open>std::lower_bound\<close>, \<open>std::upper_bound\<close>, \<open>std::map\<close>, with their specifications.
  \<^item> \<open>Messages\<close>: the messages of \<open>src/message/message.proto\<close>.
  \<^item> \<open>Fifo_Ring\<close> (\<open>fifo_ring.cc\<close>): \<open>Add\<close> and \<open>Fetch\<close> as whole calls, and cut at the semaphores and
    mutexes as steps of any number of producing and consuming threads. With one producer and one
    consumer the ring is a queue in every interleaving, never faults and never blocks for good;
    with two producers a run is given in which the consumer reads a slot not yet written.
  \<^item> \<open>Communicator\<close> (\<open>zmq_communicator.cc\<close>, \<open>zmq_sendrecv.cc\<close>): framing, parsing, address book, sockets;
    sending and then consuming gives back the message; refreshing gives every node its new address.
  \<^item> \<open>Key_Lists\<close>, \<open>Server\<close> (\<open>key_value_list.cc\<close>, \<open>pull_info.cc\<close>, \<open>server.cc\<close>): the server.
    \<open>Server_Round\<close> gives closed forms of its loops, \<open>Server_Invariant\<close> the invariant between two
    messages, \<open>Server_Steps\<close> the handlers and the step relation, \<open>Server_Config\<close> what \<open>Initialize\<close>
    establishes, \<open>Server_SSP\<close> the abstract stale-synchronous machine, whose state is the history of
    accepted updates, and the refinement. \<open>Server_Properties\<close> has the theorems: refinement, bounded
    staleness, absence of faults, progress, the handlers branch by branch, the exchange of backups.
    \<open>Server_Full_Round\<close>: what happens when every agent pushes once, and when one does not.
    \<open>Server_Reconfigure\<close>: reconfiguration with the same agents, and the fault when one is lost.
    \<open>Server_Unit_Test\<close>: the scenario of \<open>server_gtest.cc\<close>, as written and with a backup.
  \<^item> \<open>Agent_Partition\<close> (\<open>partition.cc\<close>): the two binary searches find the owner of a key and the end
    of a block. \<open>Channel\<close> (\<open>fifo.cc\<close>, \<open>shared_memory.cc\<close>), \<open>Channel_Unit_Test\<close> (\<open>channel_gtest.cc\<close>):
    signals as bytes, and the handshake of writer and reader in every interleaving.
  \<^item> \<open>Agent\<close> (\<open>agent.cc\<close>), \<open>Agent_Push\<close>, \<open>Agent_Pull\<close>: sorting, cutting into blocks, sending, collecting the
    replies, configuration. Every gradient and every key goes to its owner exactly once; \<open>Pull\<close> gets
    all keys when they lie on one side of the wrap-around, and loses some when they lie on both.
    \<open>Agent_Work\<close>: the main loop with the heartbeat thread serves every session of a worker and ends,
    as long as no heartbeat brings a configuration; one that does makes the next turn fault.
  \<^item> \<open>Task_Config\<close> (\<open>task_config.cc\<close>), \<open>Master\<close> (\<open>master.cc\<close>): the locale \<open>registrar\<close> states what
    registering servers, agents and masters have in common. \<open>Master_Properties\<close>: a cluster forms.
    \<open>Master_Running\<close>: the main loop and the two threads as steps, the configuration stays well-formed,
    the turns that log no dead node return, the main loop ends, dead nodes and only they are removed. \<open>Election\<close>: the part
    under \<open>USE_ZOOKEEPER\<close>.
  \<^item> \<open>Cluster\<close>: the parts together. The configuration of the master makes every node start; agents
    and servers agree on who owns a key; what agents send, servers can serve, except for the keys
    that wrap around the ring; and a healthy cluster does not survive the heartbeat timeout.
  \<^item> \<open>Training\<close>: rounds of training from the gradients in the memory of the workers to the
    parameters of a server, for every order in which the messages of a round arrive; and the agent
    without a gradient for a server, which holds that server up.
  \<^item> \<open>Programs\<close> (\<open>master_main.cc\<close>, \<open>server_main.cc\<close>, \<open>agent_main.cc\<close>): the three programs with all their
    threads and the way their processes end; agents that end make the main loop of the master end, and
    its process abort.
  \<^item> \<open>Network_Util\<close> (\<open>network_util.h\<close>) and \<open>Logging\<close> (\<open>logging.h\<close>): the helpers.

  \<^bold>\<open>Interfaces.\<close> \<open>invariant_system\<close> (an invariant that every step keeps) is interpreted on the ring,
  the server, the master and the handshake of the channel. \<open>bounded_fifo\<close> (a queue of bounded
  length), \<open>address_book\<close> (what adding, deleting and checking an address do), \<open>block_splitter\<close> (a
  partition that cuts sorted keys into blocks, one for each owner but the last), \<open>round_service\<close> (a
  server that works in rounds) and \<open>registrar\<close> (adding a node to the configuration)
  are interpreted on the definitions of the code in the theory that provides them.

  \<^bold>\<open>Hypotheses.\<close> A theorem about a running server assumes admissible messages: keys in its own
  range, requests with as many values as keys. Theorems about a cluster assume a complete
  registration, addresses with a port, and hash values that are not all equal. The theorem about the
  run of all programs assumes that every detection finds all nodes heard from within the timeout; as
  the masters are never heard from, this covers the first \<open>heartbeat_timeout\<close> seconds. Where the code
  does not do what it means to, the theorem says what it does: updates of wrapped keys, lost replies,
  agents without a gradient for a server, reconfiguration of agents and servers, heartbeats of
  unknown nodes, two producers, the election, the text of a failed \<open>CHECK\<close>, the end of the master.

  \<^bold>\<open>Not modelled.\<close> ZeroMQ, protocol buffers and ZooKeeper (third-party code; messages stand for
  their parsed form), the output of log statements inside the components, the parsing of
  flags and the signal handlers of the programs, the manual test drivers, the workers and scripts in Python and
  R, and what happens when turns of different threads overlap, which are taken to be atomic: the
  data races of the master's two threads with its main loop on \<open>config_\<close>, those of an agent's heartbeat
  thread with its main loop on \<open>epoch_num_\<close> and, as for a server's, on the sender (two threads that
  call \<open>Add\<close> at once are in \<open>Fifo_Ring\<close>), and the static buffers that the threads of the communicators of
  one process share. The log line of a detection that finds dead nodes writes through a dangling
  reference; the model of \<open>DetectDeadNode\<close> is that of a run which gets past it. The glog and the throwing variants of the logger are not part of any build.
\<close>

end
